(* ===== verification/Prelude.thy ===== *)
theory Prelude
  imports Main "HOL-Library.State_Monad" "HOL-Library.Word"
begin

text \<open>
  Shared ground of the development: the Go values every component uses (errors and their
  chains, the formatting verbs of \<open>fmt\<close> the program uses, hexadecimal text, string and
  duration types), and the collections of facts the proofs share.

  Strings are Go strings: sequences of bytes, one \<open>char\<close> per byte. A Go error is a
  tree of \<open>fmt.Errorf\<close> wrappings over an error some external package returned; of
  such an external error the program observes its text and the answers of the tests
  \<open>IsNotFound\<close>, \<open>IsAlreadyExists\<close>, \<open>errors.Is\<close>, so those two things are what the
  model keeps of it.
\<close>

section \<open>Collections of facts\<close>

named_theorems emits_intros \<open>introduction rules of the trace calculus\<close>
named_theorems appends_simps \<open>event filters over concatenated traces\<close>

section \<open>Go errors\<close>

datatype err_class = NotFoundErr | AlreadyExistsErr | ReleaseNotFoundErr | EOFErr | OtherErr

datatype go_error =
    ExtErr err_class string
  | Errorf string "go_error option"

text \<open>
  \<open>Errorf m None\<close> is \<open>fmt.Errorf\<close> without a wrapped error, and \<open>Errorf m (Some e)\<close> is
  \<open>fmt.Errorf(m + "%w", e)\<close>: every wrapping format of the program ends in \<open>%w\<close>.
\<close>

fun error_text :: "go_error \<Rightarrow> string" where
  "error_text (ExtErr _ m) = m"
| "error_text (Errorf m None) = m"
| "error_text (Errorf m (Some e)) = m @ error_text e"

fun errors_Is :: "go_error \<Rightarrow> err_class \<Rightarrow> bool" where
  "errors_Is (ExtErr c _) k \<longleftrightarrow> c = k"
| "errors_Is (Errorf _ None) k \<longleftrightarrow> False"
| "errors_Is (Errorf _ (Some e)) k \<longleftrightarrow> errors_Is e k"

lemma errors_Is_unique: "errors_Is e c \<Longrightarrow> errors_Is e d \<Longrightarrow> c = d"
  by (induction e c rule: errors_Is.induct) auto

section \<open>Formatting\<close>

definition hex_digit :: "nat \<Rightarrow> char" where
  "hex_digit n = ''0123456789abcdef'' ! (n mod 16)"

text \<open>\<open>hex.EncodeToString\<close>: two lower-case digits for each byte.\<close>

definition hex_byte :: "char \<Rightarrow> string" where
  "hex_byte c = (let n = of_char c :: nat in [hex_digit (n div 16), hex_digit n])"

fun hex_EncodeToString :: "string \<Rightarrow> string" where
  "hex_EncodeToString [] = []"
| "hex_EncodeToString (c # cs) = hex_byte c @ hex_EncodeToString cs"

text \<open>The verb \<open>%d\<close>.\<close>

fun nat_digits :: "nat \<Rightarrow> string" where
  "nat_digits n =
     (if n < 10 then [hex_digit n] else nat_digits (n div 10) @ [hex_digit (n mod 10)])"

declare nat_digits.simps [simp del]

definition fmt_d :: "int \<Rightarrow> string" where
  "fmt_d i = (if i < 0 then CHR ''-'' # nat_digits (nat (- i)) else nat_digits (nat i))"

text \<open>
  The verb \<open>%q\<close> (\<open>strconv.Quote\<close>): quotation marks, backslashes and control characters are
  escaped. Bytes from 128 on are copied, which is what it does for printable UTF-8.
\<close>

definition quote_char :: "char \<Rightarrow> string" where
  "quote_char c =
     (let n = of_char c :: nat; bs = char_of (92 :: nat) in
      if n = 34 then [bs, c] else if n = 92 then [bs, bs]
      else if n = 7 then bs # ''a'' else if n = 8 then bs # ''b''
      else if n = 12 then bs # ''f'' else if n = 10 then bs # ''n''
      else if n = 13 then bs # ''r'' else if n = 9 then bs # ''t''
      else if n = 11 then bs # ''v''
      else if n < 32 \<or> n = 127 then bs # ''x'' @ hex_byte c
      else [c])"

definition fmt_q :: "string \<Rightarrow> string" where
  "fmt_q s = char_of (34 :: nat) # concat (map quote_char s) @ [char_of (34 :: nat)]"

subsection \<open>Hexadecimal text is injective\<close>

lemma hex_digit_inject:
  assumes "a < 16" "b < 16" "hex_digit a = hex_digit b"
  shows "a = b"
proof -
  have d: "distinct ''0123456789abcdef''" by simp
  have "''0123456789abcdef'' ! a = ''0123456789abcdef'' ! b"
    using assms by (simp add: hex_digit_def)
  with d assms(1,2) show ?thesis
    by (subst (asm) nth_eq_iff_index_eq) auto
qed

lemma hex_byte_inject: "hex_byte c = hex_byte d \<Longrightarrow> c = d"
proof -
  assume h: "hex_byte c = hex_byte d"
  let ?m = "of_char c :: nat" and ?n = "of_char d :: nat"
  have "?m < 256" "?n < 256" by simp_all
  then have b: "?m div 16 < 16" "?n div 16 < 16" by (simp_all add: less_mult_imp_div_less)
  have "hex_digit (?m div 16) = hex_digit (?n div 16)" "hex_digit ?m = hex_digit ?n"
    using h by (simp_all add: hex_byte_def Let_def)
  then have "?m div 16 = ?n div 16" "?m mod 16 = ?n mod 16"
    using b hex_digit_inject [of "?m div 16" "?n div 16"]
      hex_digit_inject [of "?m mod 16" "?n mod 16"]
    by (simp_all add: hex_digit_def)
  then have "?m = ?n" by (metis div_mult_mod_eq)
  then show ?thesis by simp
qed

lemma length_hex: "length (hex_EncodeToString s) = 2 * length s"
  by (induction s) (simp_all add: hex_byte_def Let_def)

lemma hex_inject: "hex_EncodeToString s = hex_EncodeToString t \<longleftrightarrow> s = t"
proof
  show "hex_EncodeToString s = hex_EncodeToString t \<Longrightarrow> s = t"
  proof (induction s arbitrary: t)
    case Nil
    then show ?case by (cases t) (simp_all add: hex_byte_def Let_def)
  next
    case (Cons c s)
    then obtain d u where t: "t = d # u"
      by (cases t) (simp_all add: hex_byte_def Let_def)
    have "hex_byte c = hex_byte d \<and> hex_EncodeToString s = hex_EncodeToString u"
      using Cons.prems t by (simp add: hex_byte_def Let_def)
    with Cons.IH t show ?case by (auto dest: hex_byte_inject)
  qed
qed simp

section \<open>Texts in parts\<close>

text \<open>\<open>strings.Split\<close> at a one-byte separator, and \<open>strings.Join\<close> with one.\<close>

fun split_on :: "char \<Rightarrow> string \<Rightarrow> string list" where
  "split_on d [] = ['''']"
| "split_on d (c # cs) =
     (if c = d then '''' # split_on d cs
      else (case split_on d cs of p # ps \<Rightarrow> (c # p) # ps | [] \<Rightarrow> [[c]]))"

fun join_on :: "char \<Rightarrow> string list \<Rightarrow> string" where
  "join_on d [] = ''''"
| "join_on d [p] = p"
| "join_on d (p # ps) = p @ d # join_on d ps"

lemma split_on_ne [simp]: "split_on d p \<noteq> []"
  by (induction p) (auto split: list.split)

lemma split_on_simple: "d \<notin> set q \<Longrightarrow> split_on d q = [q]"
  by (induction q) auto

lemma split_on_below: "d \<notin> set q \<Longrightarrow> split_on d (p @ d # q) = split_on d p @ [q]"
  by (induction p) (auto simp: split_on_simple split: list.split)

lemma split_on_Cons: "d \<notin> set p \<Longrightarrow> split_on d (p @ d # q) = p # split_on d q"
  by (induction p) auto

lemma split_join: "ps \<noteq> [] \<Longrightarrow> \<forall>p\<in>set ps. d \<notin> set p \<Longrightarrow> split_on d (join_on d ps) = ps"
  by (induction d ps rule: join_on.induct) (simp_all add: split_on_simple split_on_Cons)

lemma join_on_snoc: "join_on d (ps @ [q]) = (if ps = [] then q else join_on d ps @ d # q)"
  by (induction d ps rule: join_on.induct) auto

section \<open>Durations\<close>

text \<open>
  A \<open>time.Duration\<close> is an \<open>int64\<close> count of nanoseconds. \<open>time.Since\<close> and \<open>Time.Sub\<close>
  saturate at the ends of that range instead of wrapping.
\<close>

type_synonym duration = "64 word"
type_synonym time = int

definition second :: duration where
  "second = 1000000000"

definition minute :: duration where
  "minute = 60 * second"

definition min_duration :: int where
  "min_duration = - (2 ^ 63)"

definition max_duration :: int where
  "max_duration = 2 ^ 63 - 1"

definition time_Sub :: "time \<Rightarrow> time \<Rightarrow> duration" where
  "time_Sub t u = word_of_int (max min_duration (min max_duration (t - u)))"

lemma sint_word64: "- (2 ^ 63) \<le> i \<Longrightarrow> i < 2 ^ 63 \<Longrightarrow> sint (word_of_int i :: 64 word) = i"
  by (simp add: sint_sbintrunc' signed_take_bit_int_eq_self_iff)

lemma sint_time_Sub: "sint (time_Sub t u) = max min_duration (min max_duration (t - u))"
  unfolding time_Sub_def by (rule sint_word64) (simp_all add: min_duration_def max_duration_def)

section \<open>Lists\<close>

lemma filter_append_none [appends_simps]:
  "(\<forall>e\<in>set es. \<not> P e) \<Longrightarrow> filter P (xs @ es) = filter P xs"
  by simp

lemma ball_append_iff [appends_simps]:
  "(\<forall>e\<in>set (xs @ ys). P e) \<longleftrightarrow> (\<forall>e\<in>set xs. P e) \<and> (\<forall>e\<in>set ys. P e)"
  by auto

end
