(* ===== verification/Trace.thy ===== *)
theory Trace
  imports Prelude
begin

text \<open>
  Effects. The program runs against things it does not contain: the API server, the Helm
  SDK, the clock, the file system. A computation is a state transformer over that opaque
  world together with a log of the calls made so far, each logged with its arguments and
  its answer. The log is a ghost: no definition of the program reads it.

  The calculus below reasons about the log only. \<open>emits m Q\<close> says that, from every state,
  \<open>m\<close> appends some list of events to the log that together with its result satisfies
  \<open>Q\<close>. What is proved with it holds for every world and every answer a call may give.
\<close>

record ('w, 'e) st =
  world :: 'w
  log :: "'e list"

type_synonym ('w, 'e, 'a) act = "(('w, 'e) st, 'a) state"

abbreviation ret :: "'a \<Rightarrow> ('w, 'e, 'a) act" where
  "ret \<equiv> State_Monad.return"

text \<open>A call out of the program: the world answers and changes, and the call is logged.\<close>

definition call :: "('w \<Rightarrow> 'a \<times> 'w) \<Rightarrow> ('a \<Rightarrow> 'e) \<Rightarrow> ('w, 'e, 'a) act" where
  "call f ev = State (\<lambda>s. case f (world s) of
     (r, w') \<Rightarrow> (r, s\<lparr>world := w', log := log s @ [ev r]\<rparr>))"

text \<open>A call with no answer that only the outside sees (a metric), and a reading of the clock.\<close>

definition signal :: "'e \<Rightarrow> ('w, 'e, unit) act" where
  "signal ev = State (\<lambda>s. ((), s\<lparr>log := log s @ [ev]\<rparr>))"

definition peek :: "('w \<Rightarrow> 'a) \<Rightarrow> ('w, 'e, 'a) act" where
  "peek f = State (\<lambda>s. (f (world s), s))"

text \<open>A loop over a list for its effects.\<close>

fun for_each :: "'b list \<Rightarrow> ('b \<Rightarrow> ('w, 'e, unit) act) \<Rightarrow> ('w, 'e, unit) act" where
  "for_each [] f = ret ()"
| "for_each (x # xs) f = do { f x; for_each xs f }"

lemma run_call [simp]:
  "run_state (call f ev) s = (case f (world s) of
     (r, w') \<Rightarrow> (r, s\<lparr>world := w', log := log s @ [ev r]\<rparr>))"
  by (simp add: call_def)

lemma run_signal [simp]: "run_state (signal ev) s = ((), s\<lparr>log := log s @ [ev]\<rparr>)"
  by (simp add: signal_def)

lemma run_peek [simp]: "run_state (peek f) s = (f (world s), s)"
  by (simp add: peek_def)

section \<open>The trace calculus\<close>

definition emits :: "('w, 'e, 'a) act \<Rightarrow> ('a \<Rightarrow> 'e list \<Rightarrow> bool) \<Rightarrow> bool" where
  "emits m Q \<longleftrightarrow> (\<forall>s. \<exists>es. log (snd (run_state m s)) = log s @ es \<and> Q (fst (run_state m s)) es)"

lemma emitsI:
  "(\<And>s. \<exists>es. log (snd (run_state m s)) = log s @ es \<and> Q (fst (run_state m s)) es) \<Longrightarrow> emits m Q"
  by (simp add: emits_def)

lemma emitsD:
  assumes "emits m Q" "run_state m s = (a, s')"
  obtains es where "log s' = log s @ es" "Q a es"
  using assms unfolding emits_def by (metis fst_conv snd_conv)

text \<open>The events of a known run are the ones the calculus speaks of.\<close>

lemma emits_run:
  assumes "emits m Q" "run_state m s = (a, s')" "log s' = log s @ es"
  shows "Q a es"
proof -
  obtain es' where "log s' = log s @ es'" "Q a es'"
    using emitsD [OF assms(1,2)] .
  with assms(3) show ?thesis by simp
qed

lemma emits_mono: "emits m P \<Longrightarrow> (\<And>a es. P a es \<Longrightarrow> Q a es) \<Longrightarrow> emits m Q"
  unfolding emits_def by blast

lemma emits_conj: "emits m P \<Longrightarrow> emits m Q \<Longrightarrow> emits m (\<lambda>a es. P a es \<and> Q a es)"
  unfolding emits_def by (metis same_append_eq)

lemma emits_return [emits_intros]: "Q a [] \<Longrightarrow> emits (ret a) Q"
  by (simp add: emits_def)

lemma emits_call [emits_intros]: "(\<And>r. Q r [ev r]) \<Longrightarrow> emits (call f ev) Q"
  by (auto simp: emits_def split: prod.split)

lemma emits_signal [emits_intros]: "Q () [ev] \<Longrightarrow> emits (signal ev) Q"
  by (simp add: emits_def)

lemma emits_peek [emits_intros]: "(\<And>t. Q t []) \<Longrightarrow> emits (peek f) Q"
  by (simp add: emits_def)

lemma emits_bind [emits_intros]:
  assumes "emits m (\<lambda>a es. emits (f a) (\<lambda>b es'. Q b (es @ es')))"
  shows "emits (State_Monad.bind m f) Q"
proof (rule emitsI)
  fix s
  obtain a s' where r: "run_state m s = (a, s')" by fastforce
  obtain es where es: "log s' = log s @ es" "emits (f a) (\<lambda>b es'. Q b (es @ es'))"
    using emitsD [OF assms r] .
  obtain b t where r': "run_state (f a) s' = (b, t)" by fastforce
  obtain es' where "log t = log s' @ es'" "Q b (es @ es')"
    using emitsD [OF es(2) r'] .
  with es r r' show "\<exists>es. log (snd (run_state (State_Monad.bind m f) s)) = log s @ es \<and>
      Q (fst (run_state (State_Monad.bind m f) s)) es"
    by simp
qed

lemma emits_case_sum:
  "(\<And>a. r = Inl a \<Longrightarrow> emits (f a) Q) \<Longrightarrow> (\<And>b. r = Inr b \<Longrightarrow> emits (g b) Q) \<Longrightarrow>
   emits (case r of Inl a \<Rightarrow> f a | Inr b \<Rightarrow> g b) Q"
  by (cases r) simp_all

lemma emits_case_option:
  "(r = None \<Longrightarrow> emits f Q) \<Longrightarrow> (\<And>b. r = Some b \<Longrightarrow> emits (g b) Q) \<Longrightarrow>
   emits (case r of None \<Rightarrow> f | Some b \<Rightarrow> g b) Q"
  by (cases r) simp_all

lemma emits_case_prod:
  "(\<And>a b. p = (a, b) \<Longrightarrow> emits (f a b) Q) \<Longrightarrow> emits (case p of (a, b) \<Rightarrow> f a b) Q"
  by (cases p) simp

lemma emits_if: "(b \<Longrightarrow> emits f Q) \<Longrightarrow> (\<not> b \<Longrightarrow> emits g Q) \<Longrightarrow> emits (if b then f else g) Q"
  by simp

text \<open>Every event of a computation satisfies a predicate.\<close>

abbreviation emits_only :: "('w, 'e, 'a) act \<Rightarrow> ('e \<Rightarrow> bool) \<Rightarrow> bool" where
  "emits_only m P \<equiv> emits m (\<lambda>_ es. \<forall>e\<in>set es. P e)"

text \<open>A computation whose events are irrelevant to the goal is stepped over with this rule.\<close>

lemma emits_step:
  assumes "emits m P" "\<And>a es. P a es \<Longrightarrow> emits (f a) (\<lambda>b es'. Q b (es @ es'))"
  shows "emits (State_Monad.bind m f) Q"
  by (rule emits_bind, rule emits_mono [OF assms(1)]) (rule assms(2))

lemma emits_only_bind:
  assumes "emits_only m P" "\<And>a. emits_only (f a) P"
  shows "emits_only (State_Monad.bind m f) P"
  by (rule emits_step [OF assms(1)]) (rule emits_mono [OF assms(2)], auto)

lemma emits_for_each:
  assumes "\<And>x. x \<in> set xs \<Longrightarrow> emits_only (f x) P"
  shows "emits_only (for_each xs f) P"
  using assms
proof (induction xs)
  case Nil
  show ?case by (simp add: emits_return)
next
  case (Cons x xs)
  have "emits_only (f x) P" "emits_only (for_each xs f) P" using Cons by simp_all
  then show ?case
    unfolding for_each.simps by (rule emits_only_bind)
qed

text \<open>Exact events: a loop that logs one event per element logs the mapped list.\<close>

lemma run_for_each_signal:
  "run_state (for_each xs (\<lambda>x. signal (g x))) s = ((), s\<lparr>log := log s @ map g xs\<rparr>)"
  by (induction xs arbitrary: s) simp_all

lemma emits_for_each_signal [emits_intros]:
  "Q () (map g xs) \<Longrightarrow> emits (for_each xs (\<lambda>x. signal (g x))) Q"
  by (simp add: emits_def run_for_each_signal)

lemma emits_exists:
  assumes "emits m Q"
  shows "\<exists>r s' es. run_state m s = (r, s') \<and> log s' = log s @ es \<and> Q r es"
proof -
  obtain r s' where "run_state m s = (r, s')" by fastforce
  then show ?thesis using emitsD [OF assms] by blast
qed

end
