(* ===== verification/ApiTypes.thy ===== *)
theory ApiTypes
  imports Prelude
begin

text \<open>
  The \<open>Application\<close> API (\<open>api/v1alpha1/application_types.go\<close>) and the Kubernetes objects
  it is built from or refers to. A Go map is an association list here (looked up with
  \<^const>\<open>map_of\<close>), a pointer that may be nil an option, \<open>int32\<close> a 32-bit word. Fields of
  library types the program never reads or writes are left out.
\<close>

section \<open>Phases and conditions\<close>

text \<open>\<open>ApplicationPhase\<close> is a string type; \<open>PhaseUnset\<close> is its zero value, the empty string.\<close>

datatype ApplicationPhase =
    PhaseUnset | PhasePending | PhaseDeploying | PhaseDeployed
  | PhaseDegraded | PhaseRollingBack | PhaseFailed

fun phase_string :: "ApplicationPhase \<Rightarrow> string" where
  "phase_string PhaseUnset = ''''"
| "phase_string PhasePending = ''Pending''"
| "phase_string PhaseDeploying = ''Deploying''"
| "phase_string PhaseDeployed = ''Deployed''"
| "phase_string PhaseDegraded = ''Degraded''"
| "phase_string PhaseRollingBack = ''RollingBack''"
| "phase_string PhaseFailed = ''Failed''"

lemma phase_string_inject: "phase_string p = phase_string q \<longleftrightarrow> p = q"
  by (cases p; cases q) simp_all

definition ConditionReleased :: string where
  "ConditionReleased = ''Released''"

definition ConditionHealthy :: string where
  "ConditionHealthy = ''Healthy''"

definition ConditionReady :: string where
  "ConditionReady = ''Ready''"

lemma condition_types_distinct [simp]:
  "ConditionReleased \<noteq> ConditionHealthy" "ConditionHealthy \<noteq> ConditionReleased"
  "ConditionReleased \<noteq> ConditionReady" "ConditionReady \<noteq> ConditionReleased"
  "ConditionHealthy \<noteq> ConditionReady" "ConditionReady \<noteq> ConditionHealthy"
  by (simp_all add: ConditionReleased_def ConditionHealthy_def ConditionReady_def)

datatype ConditionStatus = ConditionTrue | ConditionFalse | ConditionUnknown

record Condition =
  condType :: string
  condStatus :: ConditionStatus
  condObservedGeneration :: int
  condLastTransitionTime :: "time option"
  condReason :: string
  condMessage :: string

text \<open>The condition of a type, the way the API reads a list keyed by type.\<close>

definition find_condition :: "string \<Rightarrow> Condition list \<Rightarrow> Condition option" where
  "find_condition t cs = find (\<lambda>c. condType c = t) cs"

section \<open>The Application object\<close>

record ValuesSecretRef =
  refName :: string
  refKey :: string

record ApplicationSpec =
  ChartName :: string
  RepoURL :: string
  Version :: string
  Namespace :: string
  ValuesSecretRef :: "ValuesSecretRef option"
  ProgressDeadlineSeconds :: "32 word"

record ApplicationStatus =
  Phase :: ApplicationPhase
  Conditions :: "Condition list"
  ObservedGeneration :: int
  HelmReleaseName :: string
  HelmRevision :: int
  LastAppliedValuesHash :: string
  LastFailedRevision :: int
  LastDeployStartTime :: "time option"

record ObjectMeta =
  metaName :: string
  metaNamespace :: string
  UID :: string
  Generation :: int
  ResourceVersion :: string
  DeletionTimestamp :: "time option"
  Finalizers :: "string list"

record Application =
  Meta :: ObjectMeta
  Spec :: ApplicationSpec
  Status :: ApplicationStatus

text \<open>An update of the status in place, as the code writes \<open>app.Status.X = ...\<close>.\<close>

definition with_status :: "(ApplicationStatus \<Rightarrow> ApplicationStatus) \<Rightarrow> Application \<Rightarrow> Application" where
  "with_status f app = app\<lparr>Status := f (Status app)\<rparr>"

lemma with_status_simps [simp]:
  "Meta (with_status f app) = Meta app"
  "Spec (with_status f app) = Spec app"
  "Status (with_status f app) = f (Status app)"
  by (simp_all add: with_status_def)

lemma Application_eqI:
  fixes a b :: Application
  shows "Meta a = Meta b \<Longrightarrow> Spec a = Spec b \<Longrightarrow> Status a = Status b \<Longrightarrow> a = b"
  by simp

text \<open>The key of a request: \<open>types.NamespacedName\<close>.\<close>

record NamespacedName =
  nnNamespace :: string
  nnName :: string

definition app_key :: "Application \<Rightarrow> NamespacedName" where
  "app_key app = \<lparr>nnNamespace = metaNamespace (Meta app), nnName = metaName (Meta app)\<rparr>"

section \<open>Other Kubernetes objects\<close>

record NamespaceObj =
  nsName :: string
  nsAnnotations :: "(string \<times> string) list"

record Secret =
  secretData :: "(string \<times> string) list"

text \<open>A document of a YAML or JSON text, and an unstructured object: its top-level map.\<close>

datatype yaml =
    YNull | YBool bool | YNum string | YStr string
  | YSeq "yaml list" | YMap "(string \<times> yaml) list"

type_synonym unstructured = "(string \<times> yaml) list"

record GroupVersionKind =
  gvkGroup :: string
  gvkVersion :: string
  gvkKind :: string

text \<open>A missing key of a Go map of strings reads as the empty string.\<close>

definition go_lookup :: "(string \<times> string) list \<Rightarrow> string \<Rightarrow> string" where
  "go_lookup m k = (case map_of m k of None \<Rightarrow> '''' | Some v \<Rightarrow> v)"

section \<open>The results of the readiness engine\<close>

datatype kstatus =
  InProgressStatus | FailedStatus | CurrentStatus | TerminatingStatus | NotFoundStatus | UnknownStatus

end
