(* ===== verification/Environment.thy ===== *)
theory Environment
  imports Trace ApiTypes
begin

text \<open>
  What the program calls and does not contain, as parameters of the model. The record
  \<open>env\<close> holds one function per external call: the Kubernetes client of the reconciler
  (\<open>client.Client\<close>), the Helm SDK (\<open>action\<close>, \<open>loader\<close>), and the pure library functions
  (\<open>controllerutil\<close>, \<open>apimeta\<close>, \<open>kstatus\<close>, the YAML decoder, SHA-256). A call that
  reaches the cluster takes the world and returns its answer and the next world, so
  anything else that happens in the cluster may happen at every call. Each such call is
  an \<open>event\<close> of the log.
\<close>

section \<open>Data exchanged with the Helm SDK\<close>

type_synonym helm_values = "(string \<times> yaml) list"

datatype chart = Chart "(string \<times> string) list"

datatype wait_strategy = StatusWatcherStrategy | HookOnlyStrategy | LegacyStrategy

text \<open>An initialised \<open>action.Configuration\<close> is determined by what \<open>Init\<close> was given.\<close>

record ActionConfig =
  cfgGetterNamespace :: string
  cfgNamespace :: string
  cfgDriver :: string

record UpgradeAction =
  upgConfig :: ActionConfig
  upgNamespace :: string
  upgMaxHistory :: int
  upgWaitStrategy :: wait_strategy
  upgTimeout :: duration

record InstallAction =
  instConfig :: ActionConfig
  instReleaseName :: string
  instNamespace :: string
  instCreateNamespace :: bool
  instWaitStrategy :: wait_strategy
  instTimeout :: duration

record RollbackAction =
  rbConfig :: ActionConfig
  rbVersion :: int
  rbWaitStrategy :: wait_strategy
  rbTimeout :: duration

record UninstallAction =
  unConfig :: ActionConfig
  unWaitStrategy :: wait_strategy
  unTimeout :: duration

record ChartPathOptions =
  cpoRepoURL :: string
  cpoVersion :: string

text \<open>
  A release as Helm returns it behind its interface: the concrete v1 release, whose
  \<open>Info\<close> may be nil, or a value of another type (named by its \<open>%T\<close>).
\<close>

record ReleaseV1 =
  relName :: string
  relVersion :: int
  relManifest :: string
  relInfoStatus :: "string option"

datatype Releaser = V1Release ReleaseV1 | OtherRelease string

record ListOptions =
  InNamespace :: "string option"
  MatchingFields :: "(string \<times> string) list"

section \<open>Events\<close>

datatype (discs_sels) event =
    EvGetApplication NamespacedName "go_error + Application"
  | EvGetNamespace string "go_error + NamespaceObj"
  | EvGetSecret NamespacedName "go_error + Secret"
  | EvGetLive GroupVersionKind NamespacedName "go_error + unstructured"
  | EvListApplications ListOptions "go_error + Application list"
  | EvUpdate Application "go_error + Application"
  | EvStatusUpdate Application "go_error + Application"
  | EvCreateNamespace NamespaceObj "go_error option"
  | EvDeleteNamespace NamespaceObj "go_error option"
  | EvActionInit ActionConfig "go_error option"
  | EvLocateChart ChartPathOptions string "go_error + string"
  | EvLoadChart string "go_error + chart"
  | EvHistory ActionConfig string "go_error option"
  | EvUpgrade UpgradeAction string chart helm_values "go_error + Releaser"
  | EvInstall InstallAction chart helm_values "go_error + Releaser"
  | EvRollback RollbackAction string "go_error option"
  | EvGetRelease ActionConfig string "go_error + Releaser"
  | EvUninstall UninstallAction string "go_error option"
  | EvDeploymentSuccess string string
  | EvObserveLatency string string
  | EvGaugeReset
  | EvGaugeSet string int

type_synonym ('w, 'a) eff = "('w, event, 'a) act"

section \<open>The environment\<close>

record 'w env =
  Now :: "'w \<Rightarrow> time"
  GetApplication :: "NamespacedName \<Rightarrow> 'w \<Rightarrow> (go_error + Application) \<times> 'w"
  GetNamespace :: "string \<Rightarrow> 'w \<Rightarrow> (go_error + NamespaceObj) \<times> 'w"
  GetSecret :: "NamespacedName \<Rightarrow> 'w \<Rightarrow> (go_error + Secret) \<times> 'w"
  GetLive :: "GroupVersionKind \<Rightarrow> NamespacedName \<Rightarrow> 'w \<Rightarrow> (go_error + unstructured) \<times> 'w"
  ListApplications :: "ListOptions \<Rightarrow> 'w \<Rightarrow> (go_error + Application list) \<times> 'w"
  UpdateApplication :: "Application \<Rightarrow> 'w \<Rightarrow> (go_error + Application) \<times> 'w"
  UpdateStatus :: "Application \<Rightarrow> 'w \<Rightarrow> (go_error + Application) \<times> 'w"
  CreateNamespace :: "NamespaceObj \<Rightarrow> 'w \<Rightarrow> go_error option \<times> 'w"
  DeleteNamespace :: "NamespaceObj \<Rightarrow> 'w \<Rightarrow> go_error option \<times> 'w"
  ActionInit :: "ActionConfig \<Rightarrow> 'w \<Rightarrow> go_error option \<times> 'w"
  LocateChart :: "ChartPathOptions \<Rightarrow> string \<Rightarrow> 'w \<Rightarrow> (go_error + string) \<times> 'w"
  LoadChart :: "string \<Rightarrow> 'w \<Rightarrow> (go_error + chart) \<times> 'w"
  RunHistory :: "ActionConfig \<Rightarrow> string \<Rightarrow> 'w \<Rightarrow> go_error option \<times> 'w"
  RunUpgrade :: "UpgradeAction \<Rightarrow> string \<Rightarrow> chart \<Rightarrow> helm_values \<Rightarrow> 'w \<Rightarrow> (go_error + Releaser) \<times> 'w"
  RunInstall :: "InstallAction \<Rightarrow> chart \<Rightarrow> helm_values \<Rightarrow> 'w \<Rightarrow> (go_error + Releaser) \<times> 'w"
  RunRollback :: "RollbackAction \<Rightarrow> string \<Rightarrow> 'w \<Rightarrow> go_error option \<times> 'w"
  RunGet :: "ActionConfig \<Rightarrow> string \<Rightarrow> 'w \<Rightarrow> (go_error + Releaser) \<times> 'w"
  RunUninstall :: "UninstallAction \<Rightarrow> string \<Rightarrow> 'w \<Rightarrow> go_error option \<times> 'w"
  ReadValues :: "string \<Rightarrow> go_error + helm_values option"
  DecodeManifest :: "string \<Rightarrow> (go_error + unstructured) list"
  GetKind :: "unstructured \<Rightarrow> string"
  GetName :: "unstructured \<Rightarrow> string"
  GetObjNamespace :: "unstructured \<Rightarrow> string"
  GVKOf :: "unstructured \<Rightarrow> GroupVersionKind"
  ComputeStatus :: "unstructured \<Rightarrow> go_error + (kstatus \<times> string)"
  SetStatusCondition :: "time \<Rightarrow> Condition list \<Rightarrow> Condition \<Rightarrow> Condition list"
  AddFinalizer :: "Application \<Rightarrow> string \<Rightarrow> Application \<times> bool"
  ContainsFinalizer :: "Application \<Rightarrow> string \<Rightarrow> bool"
  RemoveFinalizer :: "Application \<Rightarrow> string \<Rightarrow> Application"
  IgnoreNotFound :: "go_error \<Rightarrow> go_error option"
  Sha256Sum :: "string \<Rightarrow> string"
  RangeOrder :: "(string \<times> int) list \<Rightarrow> (string \<times> int) list"

text \<open>
  \<open>DecodeManifest m\<close> lists the answers of the successive \<open>Decode\<close> calls on the manifest
  up to the end of its text, where \<open>Decode\<close> answers \<open>io.EOF\<close>. \<open>RangeOrder\<close> is the order in
  which Go happens to iterate over a map. \<open>SetStatusCondition\<close> takes the clock it reads.
\<close>

section \<open>The client's calls\<close>

definition c_GetApplication :: "'w env \<Rightarrow> NamespacedName \<Rightarrow> ('w, go_error + Application) eff" where
  "c_GetApplication E k = call (GetApplication E k) (EvGetApplication k)"

definition c_GetNamespace :: "'w env \<Rightarrow> string \<Rightarrow> ('w, go_error + NamespaceObj) eff" where
  "c_GetNamespace E n = call (GetNamespace E n) (EvGetNamespace n)"

definition c_GetSecret :: "'w env \<Rightarrow> NamespacedName \<Rightarrow> ('w, go_error + Secret) eff" where
  "c_GetSecret E k = call (GetSecret E k) (EvGetSecret k)"

definition c_GetLive ::
  "'w env \<Rightarrow> GroupVersionKind \<Rightarrow> NamespacedName \<Rightarrow> ('w, go_error + unstructured) eff" where
  "c_GetLive E g k = call (GetLive E g k) (EvGetLive g k)"

definition c_List :: "'w env \<Rightarrow> ListOptions \<Rightarrow> ('w, go_error + Application list) eff" where
  "c_List E opts = call (ListApplications E opts) (EvListApplications opts)"

definition c_Update :: "'w env \<Rightarrow> Application \<Rightarrow> ('w, go_error + Application) eff" where
  "c_Update E app = call (UpdateApplication E app) (EvUpdate app)"

definition c_StatusUpdate :: "'w env \<Rightarrow> Application \<Rightarrow> ('w, go_error + Application) eff" where
  "c_StatusUpdate E app = call (UpdateStatus E app) (EvStatusUpdate app)"

definition c_CreateNamespace :: "'w env \<Rightarrow> NamespaceObj \<Rightarrow> ('w, go_error option) eff" where
  "c_CreateNamespace E ns = call (CreateNamespace E ns) (EvCreateNamespace ns)"

definition c_DeleteNamespace :: "'w env \<Rightarrow> NamespaceObj \<Rightarrow> ('w, go_error option) eff" where
  "c_DeleteNamespace E ns = call (DeleteNamespace E ns) (EvDeleteNamespace ns)"

lemmas client_defs =
  c_GetApplication_def c_GetNamespace_def c_GetSecret_def c_GetLive_def c_List_def
  c_Update_def c_StatusUpdate_def c_CreateNamespace_def c_DeleteNamespace_def

lemma emits_client [emits_intros]:
  "(\<And>r. Q1 r [EvGetApplication k r]) \<Longrightarrow> emits (c_GetApplication E k) Q1"
  "(\<And>r. Q2 r [EvGetNamespace n r]) \<Longrightarrow> emits (c_GetNamespace E n) Q2"
  "(\<And>r. Q3 r [EvGetSecret k r]) \<Longrightarrow> emits (c_GetSecret E k) Q3"
  "(\<And>r. Q4 r [EvGetLive g k r]) \<Longrightarrow> emits (c_GetLive E g k) Q4"
  "(\<And>r. Q5 r [EvListApplications opts r]) \<Longrightarrow> emits (c_List E opts) Q5"
  "(\<And>r. Q6 r [EvUpdate app r]) \<Longrightarrow> emits (c_Update E app) Q6"
  "(\<And>r. Q7 r [EvStatusUpdate app r]) \<Longrightarrow> emits (c_StatusUpdate E app) Q7"
  "(\<And>r. Q8 r [EvCreateNamespace ns r]) \<Longrightarrow> emits (c_CreateNamespace E ns) Q8"
  "(\<And>r. Q9 r [EvDeleteNamespace ns r]) \<Longrightarrow> emits (c_DeleteNamespace E ns) Q9"
  by (simp_all add: client_defs emits_call)

section \<open>Documented behaviour the program relies on\<close>

text \<open>\<open>controllerutil\<close>: adding, testing and removing a finalizer.\<close>

definition finalizer_laws :: "'w env \<Rightarrow> bool" where
  "finalizer_laws E \<longleftrightarrow>
     (\<forall>app f. ContainsFinalizer E app f \<longleftrightarrow> f \<in> set (Finalizers (Meta app))) \<and>
     (\<forall>app f. f \<in> set (Finalizers (Meta app)) \<longrightarrow> AddFinalizer E app f = (app, False)) \<and>
     (\<forall>app f. f \<notin> set (Finalizers (Meta app)) \<longrightarrow>
        (\<exists>fs. AddFinalizer E app f = (app\<lparr>Meta := (Meta app)\<lparr>Finalizers := fs\<rparr>\<rparr>, True) \<and>
              set fs = insert f (set (Finalizers (Meta app))))) \<and>
     (\<forall>app f. \<exists>fs. RemoveFinalizer E app f = app\<lparr>Meta := (Meta app)\<lparr>Finalizers := fs\<rparr>\<rparr> \<and>
        set fs = set (Finalizers (Meta app)) - {f})"

lemma finalizer_lawsD:
  assumes "finalizer_laws E"
  shows contains_finalizer_iff: "ContainsFinalizer E app f \<longleftrightarrow> f \<in> set (Finalizers (Meta app))"
    and add_finalizer_False: "AddFinalizer E app f = (app', False) \<Longrightarrow>
      app' = app \<and> f \<in> set (Finalizers (Meta app))"
    and add_finalizer_present: "f \<in> set (Finalizers (Meta app)) \<Longrightarrow> AddFinalizer E app f = (app, False)"
    and add_finalizer_absent: "f \<notin> set (Finalizers (Meta app)) \<Longrightarrow>
      \<exists>fs. AddFinalizer E app f = (app\<lparr>Meta := (Meta app)\<lparr>Finalizers := fs\<rparr>\<rparr>, True) \<and>
           set fs = insert f (set (Finalizers (Meta app)))"
    and remove_finalizer: "\<exists>fs. RemoveFinalizer E app f = app\<lparr>Meta := (Meta app)\<lparr>Finalizers := fs\<rparr>\<rparr> \<and>
      set fs = set (Finalizers (Meta app)) - {f}"
proof -
  show "ContainsFinalizer E app f \<longleftrightarrow> f \<in> set (Finalizers (Meta app))"
    "f \<in> set (Finalizers (Meta app)) \<Longrightarrow> AddFinalizer E app f = (app, False)"
    "f \<notin> set (Finalizers (Meta app)) \<Longrightarrow>
      \<exists>fs. AddFinalizer E app f = (app\<lparr>Meta := (Meta app)\<lparr>Finalizers := fs\<rparr>\<rparr>, True) \<and>
           set fs = insert f (set (Finalizers (Meta app)))"
    "\<exists>fs. RemoveFinalizer E app f = app\<lparr>Meta := (Meta app)\<lparr>Finalizers := fs\<rparr>\<rparr> \<and>
      set fs = set (Finalizers (Meta app)) - {f}"
    using assms by (simp_all add: finalizer_laws_def)
  then show "AddFinalizer E app f = (app', False) \<Longrightarrow> app' = app \<and> f \<in> set (Finalizers (Meta app))"
    by (cases "f \<in> set (Finalizers (Meta app))") auto
qed

text \<open>
  \<open>apimeta.SetStatusCondition\<close>: afterwards the condition of that type has the given
  status, reason, message and generation, every other type is untouched, and nothing at
  all changes when the condition already has those values.
\<close>

definition same_condition :: "Condition \<Rightarrow> Condition \<Rightarrow> bool" where
  "same_condition c d \<longleftrightarrow> condType c = condType d \<and> condStatus c = condStatus d \<and>
     condReason c = condReason d \<and> condMessage c = condMessage d \<and>
     condObservedGeneration c = condObservedGeneration d"

definition condition_laws :: "'w env \<Rightarrow> bool" where
  "condition_laws E \<longleftrightarrow>
     (\<forall>t cs c. \<exists>d. find_condition (condType c) (SetStatusCondition E t cs c) = Some d \<and> same_condition d c) \<and>
     (\<forall>t cs c k. k \<noteq> condType c \<longrightarrow>
        find_condition k (SetStatusCondition E t cs c) = find_condition k cs) \<and>
     (\<forall>t cs c d. find_condition (condType c) cs = Some d \<longrightarrow> same_condition d c \<longrightarrow>
        SetStatusCondition E t cs c = cs)"

lemma condition_lawsD:
  assumes "condition_laws E"
  shows condition_found: "\<exists>d. find_condition (condType c) (SetStatusCondition E t cs c) = Some d \<and> same_condition d c"
    and condition_other: "k \<noteq> condType c \<Longrightarrow> find_condition k (SetStatusCondition E t cs c) = find_condition k cs"
    and condition_same: "find_condition (condType c) cs = Some d \<Longrightarrow> same_condition d c \<Longrightarrow>
      SetStatusCondition E t cs c = cs"
  using assms unfolding condition_laws_def by blast+

text \<open>\<open>client.IgnoreNotFound\<close>.\<close>

definition ignore_law :: "'w env \<Rightarrow> bool" where
  "ignore_law E \<longleftrightarrow>
     (\<forall>e. IgnoreNotFound E e = (if errors_Is e NotFoundErr then None else Some e))"

text \<open>Go's iteration over a map visits every entry once, in some order.\<close>

definition range_law :: "'w env \<Rightarrow> bool" where
  "range_law E \<longleftrightarrow> (\<forall>m. distinct (map fst m) \<longrightarrow>
     distinct (map fst (RangeOrder E m)) \<and> set (RangeOrder E m) = set m)"

end
