(* ===== verification/HelmRelease.thy ===== *)
theory HelmRelease
  imports Environment
begin

text \<open>
  \<open>internal/helm/release.go\<close> and the action configuration of \<open>internal/helm/manager.go\<close>:
  the wrapper around the Helm SDK the reconciler drives releases with. Each operation
  builds its own action configuration for the target namespace and runs SDK actions; an
  SDK error is returned wrapped.
\<close>

section \<open>Constants and data\<close>

definition storageDriver :: string where
  "storageDriver = ''secret''"

definition defaultMaxHistory :: int where
  "defaultMaxHistory = 10"

definition defaultTimeout :: duration where
  "defaultTimeout = 5 * minute"

definition waitStrategy :: wait_strategy where
  "waitStrategy = HookOnlyStrategy"

record ReleaseSpec =
  rsReleaseName :: string
  rsChartName :: string
  rsRepoURL :: string
  rsVersion :: string
  rsNamespace :: string
  rsValues :: "helm_values option"

record ReleaseResult =
  rrName :: string
  rrRevision :: int
  rrStatus :: string
  rrManifest :: string

section \<open>Operations\<close>

definition ParseValues :: "'w env \<Rightarrow> string \<Rightarrow> go_error + helm_values option" where
  "ParseValues E raw =
     (case ReadValues E raw of
        Inl err \<Rightarrow> Inl (Errorf ''parse values: '' (Some err))
      | Inr vals \<Rightarrow> Inr vals)"

definition newActionConfig :: "'w env \<Rightarrow> string \<Rightarrow> ('w, go_error + ActionConfig) eff" where
  "newActionConfig E ns = do {
     let cfg = \<lparr>cfgGetterNamespace = ns, cfgNamespace = ns, cfgDriver = storageDriver\<rparr>;
     res \<leftarrow> call (ActionInit E cfg) (EvActionInit cfg);
     case res of
       Some err \<Rightarrow> ret (Inl (Errorf (''init helm action config for namespace '' @ fmt_q ns @ '': '') (Some err)))
     | None \<Rightarrow> ret (Inr cfg)
   }"

definition loadChart :: "'w env \<Rightarrow> ReleaseSpec \<Rightarrow> ('w, go_error + chart) eff" where
  "loadChart E spec = do {
     let cpo = \<lparr>cpoRepoURL = rsRepoURL spec, cpoVersion = rsVersion spec\<rparr>;
     located \<leftarrow> call (LocateChart E cpo (rsChartName spec)) (EvLocateChart cpo (rsChartName spec));
     case located of
       Inl err \<Rightarrow> ret (Inl (Errorf (''locate chart '' @ fmt_q (rsChartName spec) @ '' ('' @
         rsRepoURL spec @ ''@'' @ rsVersion spec @ ''): '') (Some err)))
     | Inr path \<Rightarrow> do {
         loaded \<leftarrow> call (LoadChart E path) (EvLoadChart path);
         case loaded of
           Inl err \<Rightarrow> ret (Inl (Errorf (''load chart from '' @ fmt_q path @ '': '') (Some err)))
         | Inr ch \<Rightarrow> ret (Inr ch)
       }
   }"

definition releaseExists :: "'w env \<Rightarrow> ActionConfig \<Rightarrow> string \<Rightarrow> ('w, go_error + bool) eff" where
  "releaseExists E cfg name = do {
     res \<leftarrow> call (RunHistory E cfg name) (EvHistory cfg name);
     case res of
       None \<Rightarrow> ret (Inr True)
     | Some err \<Rightarrow>
         (if errors_Is err ReleaseNotFoundErr then ret (Inr False)
          else ret (Inl (Errorf (''helm history '' @ fmt_q name @ '': '') (Some err))))
   }"

definition toResult :: "Releaser \<Rightarrow> go_error + ReleaseResult" where
  "toResult raw = (case raw of
     OtherRelease ty \<Rightarrow> Inl (Errorf (''unexpected release type '' @ ty @ '' returned by helm'') None)
   | V1Release rel \<Rightarrow>
       (let res = \<lparr>rrName = relName rel, rrRevision = relVersion rel, rrStatus = '''',
                   rrManifest = relManifest rel\<rparr>
        in case relInfoStatus rel of
             None \<Rightarrow> Inr res
           | Some st \<Rightarrow> Inr (res\<lparr>rrStatus := st\<rparr>)))"

definition InstallOrUpgrade :: "'w env \<Rightarrow> ReleaseSpec \<Rightarrow> ('w, go_error + ReleaseResult) eff" where
  "InstallOrUpgrade E spec = do {
     c \<leftarrow> newActionConfig E (rsNamespace spec);
     case c of Inl err \<Rightarrow> ret (Inl err) | Inr cfg \<Rightarrow> do {
     l \<leftarrow> loadChart E spec;
     case l of Inl err \<Rightarrow> ret (Inl err) | Inr ch \<Rightarrow> do {
     let vals = (case rsValues spec of None \<Rightarrow> [] | Some v \<Rightarrow> v);
     x \<leftarrow> releaseExists E cfg (rsReleaseName spec);
     case x of
       Inl err \<Rightarrow> ret (Inl err)
     | Inr True \<Rightarrow> do {
         let upg = \<lparr>upgConfig = cfg, upgNamespace = rsNamespace spec, upgMaxHistory = defaultMaxHistory,
                    upgWaitStrategy = waitStrategy, upgTimeout = defaultTimeout\<rparr>;
         raw \<leftarrow> call (RunUpgrade E upg (rsReleaseName spec) ch vals)
                  (EvUpgrade upg (rsReleaseName spec) ch vals);
         case raw of
           Inl err \<Rightarrow> ret (Inl (Errorf (''helm upgrade '' @ fmt_q (rsReleaseName spec) @ '': '') (Some err)))
         | Inr rel \<Rightarrow> ret (toResult rel)
       }
     | Inr False \<Rightarrow> do {
         let inst = \<lparr>instConfig = cfg, instReleaseName = rsReleaseName spec, instNamespace = rsNamespace spec,
                     instCreateNamespace = False, instWaitStrategy = waitStrategy,
                     instTimeout = defaultTimeout\<rparr>;
         raw \<leftarrow> call (RunInstall E inst ch vals) (EvInstall inst ch vals);
         case raw of
           Inl err \<Rightarrow> ret (Inl (Errorf (''helm install '' @ fmt_q (rsReleaseName spec) @ '': '') (Some err)))
         | Inr rel \<Rightarrow> ret (toResult rel)
       }
   }}}"

definition Rollback :: "'w env \<Rightarrow> string \<Rightarrow> string \<Rightarrow> ('w, go_error option) eff" where
  "Rollback E releaseName ns = do {
     c \<leftarrow> newActionConfig E ns;
     case c of Inl err \<Rightarrow> ret (Some err) | Inr cfg \<Rightarrow> do {
       let rb = \<lparr>rbConfig = cfg, rbVersion = 0, rbWaitStrategy = waitStrategy, rbTimeout = defaultTimeout\<rparr>;
       res \<leftarrow> call (RunRollback E rb releaseName) (EvRollback rb releaseName);
       case res of
         Some err \<Rightarrow> ret (Some (Errorf (''helm rollback '' @ fmt_q releaseName @ '': '') (Some err)))
       | None \<Rightarrow> ret None
     }
   }"

definition GetRelease :: "'w env \<Rightarrow> string \<Rightarrow> string \<Rightarrow> ('w, go_error + ReleaseResult) eff" where
  "GetRelease E releaseName ns = do {
     c \<leftarrow> newActionConfig E ns;
     case c of Inl err \<Rightarrow> ret (Inl err) | Inr cfg \<Rightarrow> do {
       raw \<leftarrow> call (RunGet E cfg releaseName) (EvGetRelease cfg releaseName);
       case raw of
         Inl err \<Rightarrow> ret (Inl (Errorf (''helm get '' @ fmt_q releaseName @ '': '') (Some err)))
       | Inr rel \<Rightarrow> ret (toResult rel)
     }
   }"

definition Uninstall :: "'w env \<Rightarrow> string \<Rightarrow> string \<Rightarrow> ('w, go_error option) eff" where
  "Uninstall E releaseName ns = do {
     c \<leftarrow> newActionConfig E ns;
     case c of Inl err \<Rightarrow> ret (Some err) | Inr cfg \<Rightarrow> do {
       x \<leftarrow> releaseExists E cfg releaseName;
       case x of
         Inl err \<Rightarrow> ret (Some err)
       | Inr False \<Rightarrow> ret None
       | Inr True \<Rightarrow> do {
           let un = \<lparr>unConfig = cfg, unWaitStrategy = waitStrategy, unTimeout = defaultTimeout\<rparr>;
           res \<leftarrow> call (RunUninstall E un releaseName) (EvUninstall un releaseName);
           case res of
             Some err \<Rightarrow> ret (Some (Errorf (''helm uninstall '' @ fmt_q releaseName @ '': '') (Some err)))
           | None \<Rightarrow> ret None
         }
     }
   }"

end
