(* ===== verification/HelmContract.thy ===== *)
theory HelmContract
  imports HelmRelease
begin

text \<open>
  What the Helm wrapper promises its client, the reconciler: the traces of its operations,
  whatever the SDK answers. The promise is stated as a locale over the four operations,
  the lemmas the reconciler uses are proved from it, and it is interpreted on the model
  of \<open>internal/helm\<close>.
\<close>

section \<open>Reading a trace\<close>

definition config_for :: "string \<Rightarrow> ActionConfig" where
  "config_for ns = \<lparr>cfgGetterNamespace = ns, cfgNamespace = ns, cfgDriver = storageDriver\<rparr>"

fun sdk_mutation :: "event \<Rightarrow> bool" where
  "sdk_mutation (EvUpgrade _ _ _ _ _) = True"
| "sdk_mutation (EvInstall _ _ _ _) = True"
| "sdk_mutation (EvRollback _ _ _) = True"
| "sdk_mutation (EvUninstall _ _ _) = True"
| "sdk_mutation _ = False"

text \<open>Helm events for the target namespace, with release state kept in its Secrets.\<close>

fun in_scope :: "string \<Rightarrow> event \<Rightarrow> bool" where
  "in_scope ns (EvActionInit cfg _) = (cfg = config_for ns)"
| "in_scope ns (EvLocateChart _ _ _) = True"
| "in_scope ns (EvLoadChart _ _) = True"
| "in_scope ns (EvHistory cfg _ _) = (cfg = config_for ns)"
| "in_scope ns (EvGetRelease cfg _ _) = (cfg = config_for ns)"
| "in_scope ns (EvUpgrade a _ _ _ _) = (upgConfig a = config_for ns \<and> upgNamespace a = ns)"
| "in_scope ns (EvInstall a _ _ _) = (instConfig a = config_for ns \<and> instNamespace a = ns)"
| "in_scope ns (EvRollback a _ _) = (rbConfig a = config_for ns)"
| "in_scope ns (EvUninstall a _ _) = (unConfig a = config_for ns)"
| "in_scope ns _ = False"

definition upgrade_action :: "string \<Rightarrow> UpgradeAction" where
  "upgrade_action ns = \<lparr>upgConfig = config_for ns, upgNamespace = ns, upgMaxHistory = 10,
     upgWaitStrategy = HookOnlyStrategy, upgTimeout = 300000000000\<rparr>"

definition install_action :: "string \<Rightarrow> string \<Rightarrow> InstallAction" where
  "install_action name ns = \<lparr>instConfig = config_for ns, instReleaseName = name, instNamespace = ns,
     instCreateNamespace = False, instWaitStrategy = HookOnlyStrategy, instTimeout = 300000000000\<rparr>"

definition rollback_action :: "string \<Rightarrow> RollbackAction" where
  "rollback_action ns = \<lparr>rbConfig = config_for ns, rbVersion = 0, rbWaitStrategy = HookOnlyStrategy,
     rbTimeout = 300000000000\<rparr>"

definition uninstall_action :: "string \<Rightarrow> UninstallAction" where
  "uninstall_action ns = \<lparr>unConfig = config_for ns, unWaitStrategy = HookOnlyStrategy,
     unTimeout = 300000000000\<rparr>"

definition vals_of :: "ReleaseSpec \<Rightarrow> helm_values" where
  "vals_of spec = (case rsValues spec of None \<Rightarrow> [] | Some v \<Rightarrow> v)"

lemma defaultTimeout_ns: "defaultTimeout = 300000000000"
  by (simp add: defaultTimeout_def minute_def second_def)

lemmas action_defs = upgrade_action_def install_action_def rollback_action_def
  uninstall_action_def config_for_def defaultTimeout_ns waitStrategy_def defaultMaxHistory_def

text \<open>How an SDK answer is passed on: an error wrapped, a release summarised.\<close>

definition helm_answer :: "string \<Rightarrow> go_error + Releaser \<Rightarrow> go_error + ReleaseResult" where
  "helm_answer prefix raw =
     (case raw of Inl err \<Rightarrow> Inl (Errorf prefix (Some err)) | Inr rel \<Rightarrow> toResult rel)"

lemma helm_answer_simps [simp]:
  "helm_answer p (Inl err) = Inl (Errorf p (Some err))"
  "helm_answer p (Inr rel) = toResult rel"
  by (simp_all add: helm_answer_def)

lemma toResult_Inr_iff:
  "toResult raw = Inr res \<longleftrightarrow>
     (\<exists>rel. raw = V1Release rel \<and>
        res = \<lparr>rrName = relName rel, rrRevision = relVersion rel,
               rrStatus = (case relInfoStatus rel of None \<Rightarrow> '''' | Some st \<Rightarrow> st),
               rrManifest = relManifest rel\<rparr>)"
  by (auto simp: toResult_def Let_def split: Releaser.splits option.splits)

section \<open>The traces of the operations\<close>

text \<open>
  An install-or-upgrade makes at most one change to the cluster. It upgrades exactly when
  the history query found the release, installs exactly when it reported the release as
  absent, only after the chart was loaded, and its result is that action's answer. A run
  that made no change returns an error.
\<close>

definition install_contract :: "ReleaseSpec \<Rightarrow> go_error + ReleaseResult \<Rightarrow> event list \<Rightarrow> bool" where
  "install_contract spec r es \<longleftrightarrow>
     (let ns = rsNamespace spec; n = rsReleaseName spec in
      (\<forall>e\<in>set es. in_scope ns e) \<and>
      (filter sdk_mutation es = [] \<and> (\<exists>err. r = Inl err) \<or>
       (\<exists>path ch. EvLoadChart path (Inr ch) \<in> set es \<and>
         ((\<exists>raw. EvHistory (config_for ns) n None \<in> set es \<and>
            filter sdk_mutation es = [EvUpgrade (upgrade_action ns) n ch (vals_of spec) raw] \<and>
            r = helm_answer (''helm upgrade '' @ fmt_q n @ '': '') raw) \<or>
         (\<exists>raw err. EvHistory (config_for ns) n (Some err) \<in> set es \<and> errors_Is err ReleaseNotFoundErr \<and>
            filter sdk_mutation es = [EvInstall (install_action n ns) ch (vals_of spec) raw] \<and>
            r = helm_answer (''helm install '' @ fmt_q n @ '': '') raw)))))"

lemma InstallOrUpgrade_contract: "emits (InstallOrUpgrade E spec) (install_contract spec)"
  unfolding InstallOrUpgrade_def newActionConfig_def loadChart_def releaseExists_def Let_def
  by (auto intro!: emits_intros simp: install_contract_def action_defs vals_of_def
      split: sum.split option.split bool.split)

definition get_contract :: "string \<Rightarrow> string \<Rightarrow> go_error + ReleaseResult \<Rightarrow> event list \<Rightarrow> bool" where
  "get_contract n ns r es \<longleftrightarrow>
     (\<forall>e\<in>set es. in_scope ns e \<and> \<not> sdk_mutation e) \<and>
     (\<forall>res. r = Inr res \<longrightarrow> (\<exists>rel. EvGetRelease (config_for ns) n (Inr (V1Release rel)) \<in> set es \<and>
        rrName res = relName rel \<and> rrRevision res = relVersion rel \<and> rrManifest res = relManifest rel))"

lemma GetRelease_contract: "emits (GetRelease E n ns) (get_contract n ns)"
  unfolding GetRelease_def newActionConfig_def Let_def
  by (auto intro!: emits_intros simp: get_contract_def action_defs toResult_Inr_iff
      split: sum.split option.split)

text \<open>A rollback asks for version 0, the revision before the current one, exactly once.\<close>

definition rollback_contract :: "string \<Rightarrow> string \<Rightarrow> go_error option \<Rightarrow> event list \<Rightarrow> bool" where
  "rollback_contract n ns r es \<longleftrightarrow>
     (\<forall>e\<in>set es. in_scope ns e) \<and>
     (filter sdk_mutation es = [] \<and> r \<noteq> None \<or>
      (\<exists>res. filter sdk_mutation es = [EvRollback (rollback_action ns) n res] \<and>
         (r = None \<longleftrightarrow> res = None)))"

lemma Rollback_contract: "emits (Rollback E n ns) (rollback_contract n ns)"
  unfolding Rollback_def newActionConfig_def Let_def
  by (auto intro!: emits_intros simp: rollback_contract_def action_defs split: sum.split option.split)

text \<open>An uninstall that returns nil either removed the release or was told there is none.\<close>

definition uninstall_contract :: "string \<Rightarrow> string \<Rightarrow> go_error option \<Rightarrow> event list \<Rightarrow> bool" where
  "uninstall_contract n ns r es \<longleftrightarrow>
     (\<forall>e\<in>set es. in_scope ns e) \<and>
     (filter sdk_mutation es = [] \<and>
        (r = None \<longrightarrow> (\<exists>err. EvHistory (config_for ns) n (Some err) \<in> set es \<and> errors_Is err ReleaseNotFoundErr)) \<or>
      (\<exists>res. EvHistory (config_for ns) n None \<in> set es \<and>
         filter sdk_mutation es = [EvUninstall (uninstall_action ns) n res] \<and>
         (r = None \<longleftrightarrow> res = None)))"

lemma Uninstall_contract: "emits (Uninstall E n ns) (uninstall_contract n ns)"
  unfolding Uninstall_def newActionConfig_def releaseExists_def Let_def
  by (auto intro!: emits_intros simp: uninstall_contract_def action_defs
      split: sum.split option.split bool.split)

section \<open>The interface\<close>

locale release_backend =
  fixes install :: "ReleaseSpec \<Rightarrow> ('w, go_error + ReleaseResult) eff"
    and get_release :: "string \<Rightarrow> string \<Rightarrow> ('w, go_error + ReleaseResult) eff"
    and rollback :: "string \<Rightarrow> string \<Rightarrow> ('w, go_error option) eff"
    and uninstall :: "string \<Rightarrow> string \<Rightarrow> ('w, go_error option) eff"
  assumes install_law: "emits (install spec) (install_contract spec)"
    and get_law: "emits (get_release n ns) (get_contract n ns)"
    and rollback_law: "emits (rollback n ns) (rollback_contract n ns)"
    and uninstall_law: "emits (uninstall n ns) (uninstall_contract n ns)"
begin

text \<open>No operation of the backend touches a Kubernetes object or a metric.\<close>

lemma install_scoped: "emits_only (install spec) (in_scope (rsNamespace spec))"
  by (rule emits_mono [OF install_law]) (simp add: install_contract_def Let_def)

lemma get_scoped: "emits_only (get_release n ns) (\<lambda>e. in_scope ns e \<and> \<not> sdk_mutation e)"
  by (rule emits_mono [OF get_law]) (simp add: get_contract_def)

lemma rollback_scoped: "emits_only (rollback n ns) (in_scope ns)"
  by (rule emits_mono [OF rollback_law]) (simp add: rollback_contract_def)

lemma uninstall_scoped: "emits_only (uninstall n ns) (in_scope ns)"
  by (rule emits_mono [OF uninstall_law]) (simp add: uninstall_contract_def)

text \<open>A removal that is retried until it succeeds, as a finalizer retries it, is safe to repeat.\<close>

lemma uninstall_twice_scoped:
  "emits_only (uninstall n ns \<bind> (\<lambda>_. uninstall n ns)) (in_scope ns)"
  by (intro emits_only_bind uninstall_scoped)

end

interpretation hm: release_backend "InstallOrUpgrade E" "GetRelease E" "Rollback E" "Uninstall E"
  for E :: "'w env"
  by unfold_locales
    (rule InstallOrUpgrade_contract GetRelease_contract Rollback_contract Uninstall_contract)+

end
