(* ===== verification/Health.thy ===== *)
theory Health
  imports HelmContract
begin

text \<open>
  \<open>internal/controller/health.go\<close>, with the two helpers of
  \<open>application_controller.go\<close> that write conditions: the workloads of a release manifest,
  the aggregate health of a release, the progress deadline, and what is done about a
  release that is unhealthy.
\<close>

section \<open>Conditions and results\<close>

record Result =
  RequeueAfter :: duration

definition emptyResult :: Result where
  "emptyResult = \<lparr>RequeueAfter = 0\<rparr>"

definition healthPollInterval :: duration where
  "healthPollInterval = 30 * second"

definition steadyPollInterval :: duration where
  "steadyPollInterval = 5 * minute"

definition new_condition ::
  "Application \<Rightarrow> string \<Rightarrow> ConditionStatus \<Rightarrow> string \<Rightarrow> string \<Rightarrow> Condition" where
  "new_condition app ty st reason msg =
     \<lparr>condType = ty, condStatus = st, condObservedGeneration = Generation (Meta app),
      condLastTransitionTime = None, condReason = reason, condMessage = msg\<rparr>"

definition setCondition ::
  "'w env \<Rightarrow> Application \<Rightarrow> string \<Rightarrow> ConditionStatus \<Rightarrow> string \<Rightarrow> string \<Rightarrow> ('w, Application) eff" where
  "setCondition E app ty st reason msg = do {
     t \<leftarrow> peek (Now E);
     ret (with_status (\<lambda>s. s\<lparr>Conditions :=
       SetStatusCondition E t (Conditions s) (new_condition app ty st reason msg)\<rparr>) app)
   }"

section \<open>Workloads of a manifest\<close>

definition workloadKinds :: "string list" where
  "workloadKinds = [''Deployment'', ''StatefulSet'', ''DaemonSet'', ''Job'']"

text \<open>The loop around \<open>Decode\<close>: one list element for each answer before the end of the text.\<close>

fun decode_loop ::
  "'w env \<Rightarrow> (go_error + unstructured) list \<Rightarrow> unstructured list \<Rightarrow> go_error + unstructured list" where
  "decode_loop E [] workloads = Inr workloads"
| "decode_loop E (Inl err # ds) workloads =
     (if errors_Is err EOFErr then Inr workloads else Inl err)"
| "decode_loop E (Inr u # ds) workloads =
     (if u = [] then decode_loop E ds workloads
      else if GetKind E u \<in> set workloadKinds then decode_loop E ds (workloads @ [u])
      else decode_loop E ds workloads)"

definition workloadsFromManifest :: "'w env \<Rightarrow> string \<Rightarrow> go_error + unstructured list" where
  "workloadsFromManifest E manifest = decode_loop E (DecodeManifest E manifest) []"

section \<open>Aggregate health\<close>

definition workload_ref :: "'w env \<Rightarrow> unstructured \<Rightarrow> string" where
  "workload_ref E w = GetKind E w @ ''/'' @ GetName E w"

definition workload_key :: "'w env \<Rightarrow> string \<Rightarrow> unstructured \<Rightarrow> NamespacedName" where
  "workload_key E defaultNamespace w =
     (let ns = GetObjNamespace E w
      in \<lparr>nnNamespace = (if ns = '''' then defaultNamespace else ns), nnName = GetName E w\<rparr>)"

fun health_loop ::
  "'w env \<Rightarrow> string \<Rightarrow> unstructured list \<Rightarrow> kstatus \<Rightarrow> string \<Rightarrow> ('w, go_error + kstatus \<times> string) eff" where
  "health_loop E dns [] aggregate detail = ret (Inr (aggregate, detail))"
| "health_loop E dns (w # ws) aggregate detail = do {
     live \<leftarrow> c_GetLive E (GVKOf E w) (workload_key E dns w);
     case live of
       Inl err \<Rightarrow>
         (if errors_Is err NotFoundErr
          then health_loop E dns ws InProgressStatus (workload_ref E w @ '' not created yet'')
          else ret (Inl err))
     | Inr obj \<Rightarrow>
         (case ComputeStatus E obj of
            Inl err \<Rightarrow> ret (Inl (Errorf (''compute status for '' @ workload_ref E w @ '': '') (Some err)))
          | Inr (FailedStatus, msg) \<Rightarrow> ret (Inr (FailedStatus, workload_ref E w @ '': '' @ msg))
          | Inr (CurrentStatus, msg) \<Rightarrow> health_loop E dns ws aggregate detail
          | Inr (_, msg) \<Rightarrow>
              health_loop E dns ws InProgressStatus (workload_ref E w @ '': '' @ msg))
   }"

definition releaseHealth ::
  "'w env \<Rightarrow> string \<Rightarrow> string \<Rightarrow> ('w, go_error + kstatus \<times> string) eff" where
  "releaseHealth E manifest defaultNamespace =
     (case workloadsFromManifest E manifest of
        Inl err \<Rightarrow> ret (Inl (Errorf ''parse release manifest: '' (Some err)))
      | Inr workloads \<Rightarrow>
          (if workloads = [] then ret (Inr (CurrentStatus, ''no workloads to check''))
           else health_loop E defaultNamespace workloads CurrentStatus ''all workloads current''))"

section \<open>The progress deadline\<close>

text \<open>\<open>time.Duration(int32) * time.Second\<close>: a sign extension and a wrapping multiplication.\<close>

definition deadline_of :: "32 word \<Rightarrow> duration" where
  "deadline_of secs = (scast secs :: duration) * second"

definition deadline_passed :: "Application \<Rightarrow> time \<Rightarrow> bool" where
  "deadline_passed app now =
     (case LastDeployStartTime (Status app) of
        None \<Rightarrow> False
      | Some start \<Rightarrow>
          sint (time_Sub now start) > sint (deadline_of (ProgressDeadlineSeconds (Spec app))))"

definition deadlineExceeded :: "'w env \<Rightarrow> Application \<Rightarrow> ('w, bool) eff" where
  "deadlineExceeded E app = do {
     now \<leftarrow> peek (Now E);
     ret (deadline_passed app now)
   }"

section \<open>Unhealthy releases\<close>

definition setDegraded ::
  "'w env \<Rightarrow> Application \<Rightarrow> string \<Rightarrow> string \<Rightarrow> duration \<Rightarrow> ('w, Result \<times> go_error option) eff" where
  "setDegraded E app0 reason msg requeueAfter = do {
     let before = Status app0;
     let app1 = with_status (\<lambda>s. s\<lparr>Phase := PhaseDegraded\<rparr>) app0;
     app2 \<leftarrow> setCondition E app1 ConditionHealthy ConditionFalse reason msg;
     app \<leftarrow> setCondition E app2 ConditionReady ConditionFalse ''Degraded'' msg;
     if before \<noteq> Status app
     then do {
       res \<leftarrow> c_StatusUpdate E app;
       case res of
         Inl err \<Rightarrow> ret (emptyResult, Some err)
       | Inr _ \<Rightarrow> ret (\<lparr>RequeueAfter = requeueAfter\<rparr>, None)
     }
     else ret (\<lparr>RequeueAfter = requeueAfter\<rparr>, None)
   }"

definition handleUnhealthy ::
  "'w env \<Rightarrow> Application \<Rightarrow> kstatus \<Rightarrow> string \<Rightarrow> ('w, Result \<times> go_error option) eff" where
  "handleUnhealthy E app0 health detail0 = (
     let (reason, detail) =
           (if health \<noteq> FailedStatus
            then (''ProgressDeadlineExceeded'', ''workloads not ready within '' @
                    fmt_d (sint (ProgressDeadlineSeconds (Spec app0))) @ ''s'')
            else (''WorkloadFailed'', detail0));
         failedRevision = HelmRevision (Status app0)
     in if LastFailedRevision (Status app0) \<noteq> 0
        then setDegraded E app0 reason (detail @ '' (already rolled back; awaiting a spec fix)'') steadyPollInterval
        else if failedRevision \<le> 1
        then setDegraded E app0 reason (detail @ '' (no previous revision to roll back to)'') healthPollInterval
        else do {
          let app1 = with_status (\<lambda>s. s\<lparr>Phase := PhaseRollingBack, LastFailedRevision := failedRevision\<rparr>) app0;
          app2 \<leftarrow> setCondition E app1 ConditionHealthy ConditionFalse reason detail;
          app3 \<leftarrow> setCondition E app2 ConditionReady ConditionFalse ''RollingBack''
                    (''revision '' @ fmt_d failedRevision @ '' unhealthy; rolling back'');
          upd \<leftarrow> c_StatusUpdate E app3;
          case upd of
            Inl err \<Rightarrow> ret (emptyResult, Some err)
          | Inr app4 \<Rightarrow> do {
              rb \<leftarrow> Rollback E (metaName (Meta app4)) (Namespace (Spec app4));
              case rb of
                Some err \<Rightarrow> setDegraded E app4 ''RollbackFailed'' (error_text err) healthPollInterval
              | None \<Rightarrow> do {
                  g \<leftarrow> GetRelease E (metaName (Meta app4)) (Namespace (Spec app4));
                  let app5 = (case g of
                    Inr rel \<Rightarrow> with_status (\<lambda>s. s\<lparr>HelmRevision := rrRevision rel\<rparr>) app4
                  | Inl _ \<Rightarrow> app4);
                  setDegraded E app5 ''RolledBack''
                    (''revision '' @ fmt_d failedRevision @
                     '' failed health checks; rolled back to the previous revision'') steadyPollInterval
                }
            }
        })"

end
