(* ===== verification/Lifecycle.thy ===== *)
theory Lifecycle
  imports Health
begin

text \<open>
  The abstract specification of an Application's status: a labelled step relation on
  \<^typ>\<open>ApplicationStatus\<close> that says which status may follow which, with no word about API
  calls, SDK calls or messages. The reconciler is shown elsewhere to write only statuses
  this machine allows. A status with \<open>LastFailedRevision = 0\<close> is armed: it has a rollback
  left. The locale states what that means for any machine, and the lemma that two
  rollbacks have a new release between them is proved there.
\<close>

section \<open>The machine\<close>

datatype lifecycle_label = LApply | LFail | LHealthy | LProgress | LRollback | LDegrade

text \<open>Two statuses that differ in their phase and their conditions only.\<close>

definition same_record :: "ApplicationStatus \<Rightarrow> ApplicationStatus \<Rightarrow> bool" where
  "same_record s t \<longleftrightarrow> (\<exists>p cs. t = s\<lparr>Phase := p, Conditions := cs\<rparr>)"

inductive lifecycle_step :: "ApplicationStatus \<Rightarrow> lifecycle_label \<Rightarrow> ApplicationStatus \<Rightarrow> bool" where
  apply_step: "Phase t = PhaseDeploying \<Longrightarrow> LastFailedRevision t = 0 \<Longrightarrow> LastDeployStartTime t \<noteq> None \<Longrightarrow>
    lifecycle_step s LApply t"
| fail_step: "same_record s t \<Longrightarrow> Phase t = PhaseFailed \<Longrightarrow> lifecycle_step s LFail t"
| healthy_step: "LastFailedRevision s = 0 \<Longrightarrow> same_record s t \<Longrightarrow> Phase t = PhaseDeployed \<Longrightarrow>
    lifecycle_step s LHealthy t"
| progress_step: "same_record s t \<Longrightarrow> Phase t = PhaseDeploying \<Longrightarrow> lifecycle_step s LProgress t"
| rollback_step: "LastFailedRevision s = 0 \<Longrightarrow> HelmRevision s > 1 \<Longrightarrow> Phase t = PhaseRollingBack \<Longrightarrow>
    same_record (s\<lparr>LastFailedRevision := HelmRevision s\<rparr>) t \<Longrightarrow> lifecycle_step s LRollback t"
| degrade_step: "same_record s t \<Longrightarrow> Phase t = PhaseDegraded \<Longrightarrow> lifecycle_step s LDegrade t"
| degrade_new_revision_step: "LastFailedRevision s \<noteq> 0 \<Longrightarrow>
    same_record (s\<lparr>HelmRevision := n\<rparr>) t \<Longrightarrow> Phase t = PhaseDegraded \<Longrightarrow> lifecycle_step s LDegrade t"

inductive_cases lifecycle_applyE: "lifecycle_step s LApply t"
inductive_cases lifecycle_rollbackE: "lifecycle_step s LRollback t"
inductive_simps lifecycle_fail_iff: "lifecycle_step s LFail t"
inductive_simps lifecycle_healthy_iff: "lifecycle_step s LHealthy t"
inductive_simps lifecycle_progress_iff: "lifecycle_step s LProgress t"
inductive_simps lifecycle_rollback_iff: "lifecycle_step s LRollback t"
inductive_simps lifecycle_degrade_iff: "lifecycle_step s LDegrade t"
inductive_simps lifecycle_apply_iff: "lifecycle_step s LApply t"

lemmas lifecycle_iffs = lifecycle_fail_iff lifecycle_healthy_iff lifecycle_progress_iff
  lifecycle_rollback_iff lifecycle_degrade_iff lifecycle_apply_iff

lemma same_record_LFR: "same_record s t \<Longrightarrow> LastFailedRevision t = LastFailedRevision s"
  by (auto simp: same_record_def)

lemma same_record_intro [simp]: "same_record s (s\<lparr>Phase := p, Conditions := cs\<rparr>)"
  by (auto simp: same_record_def)

text \<open>Which of the recorded numbers a step keeps.\<close>

lemma step_keeps_failed:
  "lifecycle_step s l t \<Longrightarrow> l \<noteq> LApply \<Longrightarrow> LastFailedRevision s \<noteq> 0 \<Longrightarrow>
   LastFailedRevision t = LastFailedRevision s \<and> l \<noteq> LRollback"
  by (cases rule: lifecycle_step.cases) (auto dest!: same_record_LFR)

lemma same_record_revision: "same_record s t \<Longrightarrow> HelmRevision t = HelmRevision s"
  by (auto simp: same_record_def)

lemma step_keeps_revision:
  "lifecycle_step s l t \<Longrightarrow> l \<noteq> LApply \<Longrightarrow> LastFailedRevision s = 0 \<Longrightarrow> HelmRevision t = HelmRevision s"
  by (cases rule: lifecycle_step.cases) (auto dest!: same_record_revision)

lemma rollback_records_revision:
  "lifecycle_step s LRollback t \<Longrightarrow> LastFailedRevision t = HelmRevision s \<and> LastFailedRevision t \<noteq> 0"
  by (auto simp: lifecycle_rollback_iff dest!: same_record_LFR)

text \<open>What the fields of a written status have to do with each other.\<close>

definition status_inv :: "ApplicationStatus \<Rightarrow> bool" where
  "status_inv s \<longleftrightarrow>
     (Phase s = PhaseDeployed \<longrightarrow> LastFailedRevision s = 0) \<and>
     (Phase s = PhaseRollingBack \<longrightarrow> LastFailedRevision s > 1) \<and>
     (LastFailedRevision s = 0 \<or> LastFailedRevision s > 1) \<and>
     Phase s \<noteq> PhasePending"

lemma lifecycle_step_inv: "lifecycle_step s l t \<Longrightarrow> status_inv s \<Longrightarrow> status_inv t"
  by (induction rule: lifecycle_step.induct) (auto simp: status_inv_def dest!: same_record_LFR)

section \<open>Paths\<close>

fun path :: "('s \<Rightarrow> 'l \<Rightarrow> 's \<Rightarrow> bool) \<Rightarrow> 's \<Rightarrow> 'l list \<Rightarrow> 's \<Rightarrow> bool" where
  "path step s [] t \<longleftrightarrow> s = t"
| "path step s (l # ls) t \<longleftrightarrow> (\<exists>u. step s l u \<and> path step u ls t)"

lemma path_append: "path step s (xs @ ys) t \<longleftrightarrow> (\<exists>u. path step s xs u \<and> path step u ys t)"
  by (induction xs arbitrary: s) auto

text \<open>A failed revision stays recorded, and a rollback records the revision it started at.\<close>

lemma path_keeps_failed:
  "path lifecycle_step s ls t \<Longrightarrow> LApply \<notin> set ls \<Longrightarrow> LastFailedRevision s \<noteq> 0 \<Longrightarrow>
   LastFailedRevision t = LastFailedRevision s \<and> LRollback \<notin> set ls"
proof (induction ls arbitrary: s)
  case (Cons l ls)
  then obtain u where u: "lifecycle_step s l u" "path lifecycle_step u ls t" by auto
  from step_keeps_failed [OF u(1)] Cons.prems have "LastFailedRevision u = LastFailedRevision s" "l \<noteq> LRollback"
    by auto
  with Cons.IH [OF u(2)] Cons.prems show ?case by auto
qed simp

lemma path_records_revision:
  "path lifecycle_step s ls t \<Longrightarrow> LApply \<notin> set ls \<Longrightarrow> LRollback \<in> set ls \<Longrightarrow>
   LastFailedRevision t = HelmRevision s \<and> LastFailedRevision t \<noteq> 0"
proof (induction ls arbitrary: s)
  case (Cons l ls)
  then obtain u where u: "lifecycle_step s l u" "path lifecycle_step u ls t" by auto
  have armed: "LastFailedRevision s = 0" using path_keeps_failed [OF Cons.prems(1,2)] Cons.prems(3) by blast
  show ?case
  proof (cases "l = LRollback")
    case True
    with u(1) rollback_records_revision have "LastFailedRevision u = HelmRevision s" "LastFailedRevision u \<noteq> 0"
      by blast+
    with path_keeps_failed [OF u(2)] Cons.prems(2) show ?thesis by auto
  next
    case False
    with Cons.prems(2,3) step_keeps_revision [OF u(1) _ armed] Cons.IH [OF u(2)] show ?thesis by auto
  qed
qed simp

section \<open>Invariants and one-shot actions\<close>

locale invariant_machine =
  fixes step :: "'s \<Rightarrow> 'l \<Rightarrow> 's \<Rightarrow> bool" and inv :: "'s \<Rightarrow> bool"
  assumes inv_step: "step s l t \<Longrightarrow> inv s \<Longrightarrow> inv t"
begin

lemma inv_path: "path step s ls t \<Longrightarrow> inv s \<Longrightarrow> inv t"
  by (induction ls arbitrary: s) (auto intro: inv_step)

end

text \<open>
  A machine with an action that uses up a permission which only another action gives back.
\<close>

locale one_shot = invariant_machine +
  fixes armed :: "'s \<Rightarrow> bool" and fires :: "'l \<Rightarrow> bool" and rearms :: "'l \<Rightarrow> bool"
  assumes fire: "step s l t \<Longrightarrow> inv s \<Longrightarrow> fires l \<Longrightarrow> armed s \<and> \<not> armed t"
    and keep: "step s l t \<Longrightarrow> inv s \<Longrightarrow> \<not> rearms l \<Longrightarrow> \<not> armed s \<Longrightarrow> \<not> armed t"
begin

lemma disarmed_path:
  "path step s ls t \<Longrightarrow> inv s \<Longrightarrow> \<not> armed s \<Longrightarrow> \<forall>l\<in>set ls. \<not> rearms l \<Longrightarrow> \<not> armed t"
  by (induction ls arbitrary: s) (auto dest: keep inv_step)

lemma rearmed_between:
  assumes "path step s (xs @ a # ys @ b # zs) t" "inv s" "fires a" "fires b"
  shows "\<exists>l\<in>set ys. rearms l"
proof (rule ccontr)
  assume none: "\<not> (\<exists>l\<in>set ys. rearms l)"
  obtain u v w where uv: "path step s xs u" "step u a v" and vw: "path step v ys w"
      and wb: "path step w (b # zs) t"
    using assms(1) by (auto simp: path_append)
  have iu: "inv u" using inv_path [OF uv(1) assms(2)] .
  then have v: "inv v" "\<not> armed v" using inv_step [OF uv(2)] fire [OF uv(2) _ assms(3)] by auto
  have "\<not> armed w" using disarmed_path [OF vw v] none by blast
  moreover have "inv w" using inv_path [OF vw v(1)] .
  ultimately show False using wb fire assms(4) by auto
qed

end

interpretation status_machine: invariant_machine lifecycle_step status_inv
  by unfold_locales (rule lifecycle_step_inv)

interpretation rollback_budget: one_shot lifecycle_step status_inv
  "\<lambda>s. LastFailedRevision s = 0" "\<lambda>l. l = LRollback" "\<lambda>l. l = LApply"
proof unfold_locales
  fix s l t
  assume st: "lifecycle_step s l t" and "status_inv s"
  show "l = LRollback \<Longrightarrow> LastFailedRevision s = 0 \<and> LastFailedRevision t \<noteq> 0"
    using st by (auto simp: lifecycle_rollback_iff dest!: same_record_LFR)
  show "l \<noteq> LApply \<Longrightarrow> LastFailedRevision s \<noteq> 0 \<Longrightarrow> LastFailedRevision t \<noteq> 0"
    using st by (cases rule: lifecycle_step.cases) (auto dest!: same_record_LFR)
qed

end
