(* ===== verification/HealthTraces.thy ===== *)
theory HealthTraces
  imports Lifecycle
begin

text \<open>
  The traces of the health half of the reconciler: which status writes and which Helm
  actions \<open>setDegraded\<close>, \<open>handleUnhealthy\<close> and \<open>releaseHealth\<close> make, and how the
  written statuses follow from one another in the abstract machine of \<open>Lifecycle\<close>.
\<close>

section \<open>Status writes of a trace\<close>

fun status_write :: "event \<Rightarrow> (Application \<times> (go_error + Application)) list" where
  "status_write (EvStatusUpdate sent res) = [(sent, res)]"
| "status_write _ = []"

definition status_writes :: "event list \<Rightarrow> (Application \<times> (go_error + Application)) list" where
  "status_writes es = concat (map status_write es)"

lemma status_writes_simps [simp]:
  "status_writes [] = []"
  "status_writes (e # es) = status_write e @ status_writes es"
  "status_writes (es @ fs) = status_writes es @ status_writes fs"
  by (simp_all add: status_writes_def)

lemma status_writes_none: "\<forall>e\<in>set es. \<not> is_EvStatusUpdate e \<Longrightarrow> status_writes es = []"
proof (induction es)
  case (Cons e es)
  then show ?case by (cases e) simp_all
qed simp

lemma status_writes_mem: "(sent, res) \<in> set (status_writes es) \<longleftrightarrow> EvStatusUpdate sent res \<in> set es"
proof (induction es)
  case (Cons e es)
  then show ?case by (cases e) auto
qed simp

lemma in_scope_not_write: "in_scope ns e \<Longrightarrow> \<not> is_EvStatusUpdate e"
  by (cases e) simp_all

lemma scoped_writes [simp]: "\<forall>e\<in>set es. in_scope ns e \<Longrightarrow> status_writes es = []"
  by (rule status_writes_none) (auto dest: in_scope_not_write)

lemma scoped_reads_writes [simp]:
  "\<forall>e\<in>set es. in_scope ns e \<and> \<not> sdk_mutation e \<Longrightarrow> status_writes es = []"
  by (rule scoped_writes [of es ns]) simp

lemma scoped_reads_mutations [simp]:
  "\<forall>e\<in>set es. in_scope ns e \<and> \<not> sdk_mutation e \<Longrightarrow> filter sdk_mutation es = []"
  by simp

section \<open>Chains of writes\<close>

text \<open>A write of a status onto an object the program holds: nothing but the status differs.\<close>

definition on_base :: "Application \<Rightarrow> Application \<Rightarrow> bool" where
  "on_base app sent \<longleftrightarrow> Meta sent = Meta app \<and> Spec sent = Spec app"

text \<open>
  Each write is a step of the abstract machine from the object it was computed from: the
  object that was read, later the object the server returned for the write before. A
  refused write is the last one.
\<close>

fun chain :: "Application \<Rightarrow> lifecycle_label list \<Rightarrow> (Application \<times> (go_error + Application)) list \<Rightarrow> bool" where
  "chain app ls [] \<longleftrightarrow> ls = []"
| "chain app ls ((sent, Inl err) # ws) \<longleftrightarrow>
     ls = [] \<and> ws = [] \<and> on_base app sent \<and> (\<exists>l. lifecycle_step (Status app) l (Status sent))"
| "chain app ls ((sent, Inr stored) # ws) \<longleftrightarrow>
     (\<exists>l ls'. ls = l # ls' \<and> on_base app sent \<and> lifecycle_step (Status app) l (Status sent) \<and>
        chain stored ls' ws)"

text \<open>
  The server returns the status it was sent. Timestamps travel as text with whole seconds,
  so what it returns may differ in them: \<open>recorded\<close> is the part of a status that survives
  the journey unchanged, with conditions and the value of the start time left out.
\<close>

definition recorded :: "ApplicationStatus \<Rightarrow> ApplicationStatus" where
  "recorded s = s\<lparr>Conditions := [], LastDeployStartTime := map_option (\<lambda>_. 0) (LastDeployStartTime s)\<rparr>"

lemma recorded_simps [simp]:
  "Phase (recorded s) = Phase s" "LastFailedRevision (recorded s) = LastFailedRevision s"
  "HelmRevision (recorded s) = HelmRevision s" "ObservedGeneration (recorded s) = ObservedGeneration s"
  "LastAppliedValuesHash (recorded s) = LastAppliedValuesHash s"
  by (simp_all add: recorded_def)

lemma recorded_fields:
  assumes "recorded s = recorded t"
  shows "Phase s = Phase t" "LastFailedRevision s = LastFailedRevision t" "HelmRevision s = HelmRevision t"
    "ObservedGeneration s = ObservedGeneration t" "LastAppliedValuesHash s = LastAppliedValuesHash t"
  using assms by (metis recorded_simps)+

definition echoed :: "(Application \<times> (go_error + Application)) list \<Rightarrow> bool" where
  "echoed ws \<longleftrightarrow> (\<forall>(sent, res)\<in>set ws. case res of Inl _ \<Rightarrow> True
     | Inr stored \<Rightarrow> recorded (Status stored) = recorded (Status sent))"

lemma echoed_simps [simp]:
  "echoed []"
  "echoed ((sent, Inl err) # ws) = echoed ws"
  "echoed ((sent, Inr stored) # ws) \<longleftrightarrow>
     recorded (Status stored) = recorded (Status sent) \<and> echoed ws"
  "echoed (ws @ vs) \<longleftrightarrow> echoed ws \<and> echoed vs"
  by (auto simp: echoed_def)

section \<open>Setting conditions\<close>

lemma emits_setCondition [emits_intros]:
  "(\<And>t. Q (with_status (\<lambda>s. s\<lparr>Conditions := SetStatusCondition E t (Conditions s)
       (new_condition app ty st reason msg)\<rparr>) app) []) \<Longrightarrow>
   emits (setCondition E app ty st reason msg) Q"
  unfolding setCondition_def by (auto intro!: emits_intros)

lemma emits_setCondition_any:
  "(\<And>cs. Q (with_status (\<lambda>s. s\<lparr>Conditions := cs\<rparr>) app) []) \<Longrightarrow>
   emits (setCondition E app ty st reason msg) Q"
  unfolding setCondition_def with_status_def by (auto intro!: emits_intros)

lemma new_condition_with_status [simp]:
  "new_condition (with_status f app) ty st reason msg = new_condition app ty st reason msg"
  by (simp add: new_condition_def)

lemma condType_new [simp]: "condType (new_condition app ty st reason msg) = ty"
  by (simp add: new_condition_def)

text \<open>What a handler returns after its last write: the error, or its result.\<close>

fun write_answer :: "Result \<Rightarrow> go_error + Application \<Rightarrow> Result \<times> go_error option" where
  "write_answer result (Inl err) = (emptyResult, Some err)"
| "write_answer result (Inr _) = (result, None)"

text \<open>A degraded status is written once, or not at all when nothing would change.\<close>

definition degraded_trace ::
  "Application \<Rightarrow> duration \<Rightarrow> Result \<times> go_error option \<Rightarrow> event list \<Rightarrow> bool" where
  "degraded_trace app d r es \<longleftrightarrow>
     es = [] \<and> Phase (Status app) = PhaseDegraded \<and> r = (\<lparr>RequeueAfter = d\<rparr>, None) \<or>
     (\<exists>sent res. es = [EvStatusUpdate sent res] \<and> on_base app sent \<and>
        same_record (Status app) (Status sent) \<and> Phase (Status sent) = PhaseDegraded \<and>
        r = write_answer \<lparr>RequeueAfter = d\<rparr> res)"

lemma setDegraded_trace: "emits (setDegraded E app reason msg d) (degraded_trace app d)"
proof -
  have ph: "Phase s = PhaseDegraded" if "s = s\<lparr>Phase := PhaseDegraded, Conditions := cs\<rparr>" for s cs
    using arg_cong [OF that, of Phase] by simp
  show ?thesis
    unfolding setDegraded_def Let_def
    by (auto intro!: emits_intros simp: degraded_trace_def on_base_def
        split: sum.split dest!: ph)
qed

section \<open>The rollback path\<close>

text \<open>
  What \<open>handleUnhealthy\<close> does, in one statement. Without a rollback left, or without an
  earlier revision, it only degrades. Otherwise the failed revision is recorded first; if
  that write is refused nothing else happens, and if it is accepted one rollback of the
  release is asked for, followed by at most one more write.
\<close>

definition unhealthy_trace :: "Application \<Rightarrow> event list \<Rightarrow> bool" where
  "unhealthy_trace app es \<longleftrightarrow>
     (filter sdk_mutation es = [] \<and> (\<exists>d r. degraded_trace app d r es)) \<or>
     (LastFailedRevision (Status app) = 0 \<and> HelmRevision (Status app) > 1 \<and>
      (\<exists>sent. on_base app sent \<and> lifecycle_step (Status app) LRollback (Status sent) \<and>
        ((\<exists>err. es = [EvStatusUpdate sent (Inl err)]) \<or>
         (\<exists>stored es1 es2 n r d app5. es = EvStatusUpdate sent (Inr stored) # es1 @ es2 \<and>
            (\<forall>e\<in>set es1. in_scope (Namespace (Spec stored)) e) \<and>
            (filter sdk_mutation es1 = [] \<or>
             (\<exists>res. filter sdk_mutation es1 =
                [EvRollback (rollback_action (Namespace (Spec stored))) (metaName (Meta stored)) res])) \<and>
            app5 = with_status (\<lambda>s. s\<lparr>HelmRevision := n\<rparr>) stored \<and>
            degraded_trace app5 d r es2))))"

lemma unhealthy_intros:
  assumes "LastFailedRevision (Status app) = 0" "HelmRevision (Status app) > 1" "on_base app sent"
    "lifecycle_step (Status app) LRollback (Status sent)"
  shows "es = [EvStatusUpdate sent (Inl err)] \<Longrightarrow> unhealthy_trace app es"
    and "es = EvStatusUpdate sent (Inr stored) # mid @ rest \<Longrightarrow>
      \<forall>e\<in>set mid. in_scope (Namespace (Spec stored)) e \<Longrightarrow>
      filter sdk_mutation mid = [] \<or> (\<exists>res. filter sdk_mutation mid =
        [EvRollback (rollback_action (Namespace (Spec stored))) (metaName (Meta stored)) res]) \<Longrightarrow>
      degraded_trace (with_status (\<lambda>s. s\<lparr>HelmRevision := n\<rparr>) stored) d r rest \<Longrightarrow>
      unhealthy_trace app es"
  using assms unfolding unhealthy_trace_def by blast+

lemma with_status_revision_id: "with_status (\<lambda>s. s\<lparr>HelmRevision := HelmRevision (Status app)\<rparr>) app = app"
  by (simp add: with_status_def)

lemma degraded_no_mutation: "degraded_trace app d r es \<Longrightarrow> filter sdk_mutation es = []"
  by (auto simp: degraded_trace_def)

lemma degraded_unhealthy: "degraded_trace app d r es \<Longrightarrow> unhealthy_trace app es"
  unfolding unhealthy_trace_def by (blast dest: degraded_no_mutation)

lemma setDegraded_unhealthy: "emits (setDegraded E app reason msg d) (\<lambda>_ es. unhealthy_trace app es)"
  by (rule emits_mono [OF setDegraded_trace]) (rule degraded_unhealthy)

text \<open>The part after the accepted write: the rollback, a look at the new revision, the last write.\<close>

lemma after_write_trace:
  fixes E :: "'w env"
  defines "n app \<equiv> metaName (Meta app)" and "ns app \<equiv> Namespace (Spec app)"
  assumes "LastFailedRevision (Status app) = 0" "HelmRevision (Status app) > 1" "on_base app sent"
    "lifecycle_step (Status app) LRollback (Status sent)"
  shows "emits (Rollback E (n st) (ns st) \<bind> (\<lambda>rb. case rb of
       Some err \<Rightarrow> setDegraded E st ''RollbackFailed'' (error_text err) healthPollInterval
     | None \<Rightarrow> GetRelease E (n st) (ns st) \<bind> (\<lambda>g. setDegraded E
         (case g of Inr rel \<Rightarrow> with_status (\<lambda>s. s\<lparr>HelmRevision := rrRevision rel\<rparr>) st | Inl _ \<Rightarrow> st)
         ''RolledBack'' msg steadyPollInterval)))
     (\<lambda>_ es. unhealthy_trace app (EvStatusUpdate sent (Inr st) # es))"
proof (rule emits_step [OF hm.rollback_law])
  note intro = unhealthy_intros(2) [OF assms(3-6)]
  fix rb es
  assume rb: "rollback_contract (n st) (ns st) rb es"
  then have sc: "\<forall>e\<in>set es. in_scope (Namespace (Spec st)) e"
    and mu: "filter sdk_mutation es = [] \<or> (\<exists>res. filter sdk_mutation es =
        [EvRollback (rollback_action (Namespace (Spec st))) (metaName (Meta st)) res])"
    by (auto simp: rollback_contract_def n_def ns_def)
  have fin: "unhealthy_trace app (EvStatusUpdate sent (Inr st) # es @ es1 @ es2)"
    if "\<forall>e\<in>set es1. in_scope (Namespace (Spec st)) e \<and> \<not> sdk_mutation e"
      "degraded_trace (with_status (\<lambda>s. s\<lparr>HelmRevision := k\<rparr>) st) d r es2" for es1 es2 k d r
    by (rule intro [where stored = st and mid = "es @ es1" and rest = es2 and n = k and d = d and r = r])
      (use sc mu that in auto)
  show "emits (case rb of
       Some err \<Rightarrow> setDegraded E st ''RollbackFailed'' (error_text err) healthPollInterval
     | None \<Rightarrow> GetRelease E (n st) (ns st) \<bind> (\<lambda>g. setDegraded E
         (case g of Inr rel \<Rightarrow> with_status (\<lambda>s. s\<lparr>HelmRevision := rrRevision rel\<rparr>) st | Inl _ \<Rightarrow> st)
         ''RolledBack'' msg steadyPollInterval))
     (\<lambda>_ es'. unhealthy_trace app (EvStatusUpdate sent (Inr st) # es @ es'))"
  proof (cases rb)
    case (Some err)
    show ?thesis unfolding Some option.case
      by (rule emits_mono [OF setDegraded_trace])
        (use fin [of "[]" "HelmRevision (Status st)"] in \<open>simp add: with_status_revision_id\<close>)
  next
    case None
    show ?thesis unfolding None option.case
    proof (rule emits_step [OF hm.get_scoped])
      fix g es1
      assume "\<forall>e\<in>set es1. in_scope (ns st) e \<and> \<not> sdk_mutation e"
      then have q: "\<forall>e\<in>set es1. in_scope (Namespace (Spec st)) e \<and> \<not> sdk_mutation e"
        by (simp add: ns_def)
      let ?st = "case g of Inr rel \<Rightarrow> with_status (\<lambda>s. s\<lparr>HelmRevision := rrRevision rel\<rparr>) st | Inl _ \<Rightarrow> st"
      obtain k where k: "?st = with_status (\<lambda>s. s\<lparr>HelmRevision := k\<rparr>) st"
        by (cases g) (auto intro: with_status_revision_id [symmetric])
      show "emits (setDegraded E ?st ''RolledBack'' msg steadyPollInterval)
          (\<lambda>_ es'. unhealthy_trace app (EvStatusUpdate sent (Inr st) # es @ es1 @ es'))"
        unfolding k by (rule emits_mono [OF setDegraded_trace]) (rule fin [OF q])
    qed
  qed
qed

lemma handleUnhealthy_trace:
  "emits (handleUnhealthy E app health detail) (\<lambda>_ es. unhealthy_trace app es)"
proof (cases "LastFailedRevision (Status app) \<noteq> 0 \<or> HelmRevision (Status app) \<le> 1")
  case True
  then show ?thesis
    by (auto simp: handleUnhealthy_def Let_def intro!: setDegraded_unhealthy)
next
  case False
  then have armed: "LastFailedRevision (Status app) = 0" "HelmRevision (Status app) > 1" by auto
  have lc: "lifecycle_step s LRollback
      (s\<lparr>Phase := PhaseRollingBack, LastFailedRevision := HelmRevision s, Conditions := cs\<rparr>)"
    if "LastFailedRevision s = 0" "HelmRevision s > 1" for s cs
  proof -
    have "s\<lparr>Phase := PhaseRollingBack, LastFailedRevision := HelmRevision s, Conditions := cs\<rparr> =
        s\<lparr>LastFailedRevision := HelmRevision s\<rparr>\<lparr>Phase := PhaseRollingBack, Conditions := cs\<rparr>"
      by simp
    then show ?thesis
      using that by (simp only: lifecycle_rollback_iff same_record_intro) simp
  qed
  obtain reason d where rd: "(if health \<noteq> FailedStatus
            then (''ProgressDeadlineExceeded'', ''workloads not ready within '' @
                    fmt_d (sint (ProgressDeadlineSeconds (Spec app))) @ ''s'')
            else (''WorkloadFailed'', detail)) = (reason, d)"
    by fastforce
  have no_early: "\<not> LastFailedRevision (Status app) \<noteq> 0" "\<not> HelmRevision (Status app) \<le> 1"
    using armed by simp_all
  let ?sent = "\<lambda>cs cs'. with_status (\<lambda>s. s\<lparr>Conditions := cs'\<rparr>) (with_status (\<lambda>s. s\<lparr>Conditions := cs\<rparr>)
    (with_status (\<lambda>s. s\<lparr>Phase := PhaseRollingBack, LastFailedRevision := HelmRevision (Status app)\<rparr>) app))"
  have base: "on_base app (?sent cs cs')" for cs cs'
    by (simp add: on_base_def)
  have sent: "lifecycle_step (Status app) LRollback (Status (?sent cs cs'))" for cs cs'
    using lc [OF armed] by simp
  show ?thesis
    unfolding handleUnhealthy_def Let_def rd prod.case if_not_P [OF no_early(1)] if_not_P [OF no_early(2)]
    apply (rule emits_bind, rule emits_setCondition_any, rule emits_bind, rule emits_setCondition_any)
    apply (rule emits_bind, rule emits_client(7), rule emits_case_sum)
     apply (rule emits_return, rule unhealthy_intros(1) [OF armed base sent], simp)
    apply (rule emits_mono [OF after_write_trace [OF armed base sent]], simp)
    done
qed

end
