(* ===== verification/HealthSpec.thy ===== *)
theory HealthSpec
  imports HealthTraces
begin

text \<open>
  The aggregation rule of \<open>releaseHealth\<close> as a reference definition: the health of a
  release is the worst level among its workloads, in the order current, in progress,
  failed. The loop of the code, with its running aggregate and its early exits, is shown to
  compute that maximum.
\<close>

section \<open>Levels of health\<close>

datatype health_level = LevelCurrent | LevelInProgress | LevelFailed

fun level_rank :: "health_level \<Rightarrow> nat" where
  "level_rank LevelCurrent = 0"
| "level_rank LevelInProgress = 1"
| "level_rank LevelFailed = 2"

lemma level_rank_inject: "level_rank a = level_rank b \<longleftrightarrow> a = b"
  by (cases a; cases b) simp_all

instantiation health_level :: linorder
begin

definition less_eq_health_level :: "health_level \<Rightarrow> health_level \<Rightarrow> bool" where
  "less_eq_health_level a b \<longleftrightarrow> level_rank a \<le> level_rank b"

definition less_health_level :: "health_level \<Rightarrow> health_level \<Rightarrow> bool" where
  "less_health_level a b \<longleftrightarrow> level_rank a < level_rank b"

instance
  by standard (auto simp: less_eq_health_level_def less_health_level_def level_rank_inject)

end

lemma level_extremes [simp]: "LevelCurrent \<le> l" "l \<le> LevelFailed"
  by (cases l; simp add: less_eq_health_level_def)+

lemma max_level_simps [simp]:
  "max LevelCurrent l = l" "max l LevelCurrent = l"
  "max LevelFailed l = LevelFailed" "max l LevelFailed = LevelFailed"
  by (simp_all add: max_def order_antisym)

lemma max_eq_current_iff [simp]: "max a b = LevelCurrent \<longleftrightarrow> a = LevelCurrent \<and> b = LevelCurrent"
  by (cases a; cases b; simp add: max_def less_eq_health_level_def)

text \<open>The level a readiness result stands for, and the level of an aggregate.\<close>

fun kstatus_level :: "kstatus \<Rightarrow> health_level" where
  "kstatus_level FailedStatus = LevelFailed"
| "kstatus_level CurrentStatus = LevelCurrent"
| "kstatus_level _ = LevelInProgress"

text \<open>The level of one workload, from the answer to the read of its live object.\<close>

definition answer_level :: "'w env \<Rightarrow> go_error + unstructured \<Rightarrow> health_level" where
  "answer_level E a = (case a of
     Inl _ \<Rightarrow> LevelInProgress
   | Inr obj \<Rightarrow> (case ComputeStatus E obj of Inl _ \<Rightarrow> LevelInProgress | Inr (st, _) \<Rightarrow> kstatus_level st))"

text \<open>Answers that end the check with an error instead of a level.\<close>

definition answer_error :: "'w env \<Rightarrow> go_error + unstructured \<Rightarrow> bool" where
  "answer_error E a = (case a of
     Inl err \<Rightarrow> \<not> errors_Is err NotFoundErr
   | Inr obj \<Rightarrow> (case ComputeStatus E obj of Inl _ \<Rightarrow> True | Inr _ \<Rightarrow> False))"

definition worst :: "health_level list \<Rightarrow> health_level" where
  "worst ls = foldr max ls LevelCurrent"

lemma worst_simps [simp]: "worst [] = LevelCurrent" "worst (l # ls) = max l (worst ls)"
  by (simp_all add: worst_def)

lemma worst_current_iff: "worst ls = LevelCurrent \<longleftrightarrow> (\<forall>l\<in>set ls. l = LevelCurrent)"
  by (induction ls) simp_all

lemma worst_upper: "l \<in> set ls \<Longrightarrow> l \<le> worst ls"
  by (induction ls) (auto simp: le_max_iff_disj)

lemma worst_attained: "worst ls \<in> insert LevelCurrent (set ls)"
  by (induction ls) (auto simp: max_def)

section \<open>The reads of a health check\<close>

definition live_read :: "'w env \<Rightarrow> string \<Rightarrow> unstructured \<Rightarrow> go_error + unstructured \<Rightarrow> event" where
  "live_read E dns w a = EvGetLive (GVKOf E w) (workload_key E dns w) a"

text \<open>
  A health check reads the workloads in order, one read each. It ends at the first answer
  that is an error, at the first failed workload, or after the last one; a status it
  returns has the level of the worst answer.
\<close>

definition health_trace ::
  "'w env \<Rightarrow> string \<Rightarrow> unstructured list \<Rightarrow> health_level \<Rightarrow> go_error + kstatus \<times> string \<Rightarrow> event list \<Rightarrow> bool" where
  "health_trace E dns ws lvl r es \<longleftrightarrow>
     (\<exists>as. length as \<le> length ws \<and> es = map2 (live_read E dns) (take (length as) ws) as \<and>
       (case r of
          Inl _ \<Rightarrow> as \<noteq> [] \<and> answer_error E (last as) \<and> (\<forall>a\<in>set (butlast as). \<not> answer_error E a)
        | Inr (st, _) \<Rightarrow> (\<forall>a\<in>set as. \<not> answer_error E a) \<and>
            kstatus_level st = max lvl (worst (map (answer_level E) as)) \<and>
            (length as = length ws \<or> st = FailedStatus)))"

lemma health_trace_Nil: "kstatus_level st = lvl \<Longrightarrow> health_trace E dns [] lvl (Inr (st, d)) []"
  by (simp add: health_trace_def)

lemma health_trace_stop:
  "answer_error E a \<Longrightarrow> health_trace E dns (w # ws) lvl (Inl err) [live_read E dns w a]"
  unfolding health_trace_def by (rule exI [of _ "[a]"]) simp

lemma health_trace_failed:
  "\<not> answer_error E a \<Longrightarrow> answer_level E a = LevelFailed \<Longrightarrow>
   health_trace E dns (w # ws) lvl (Inr (FailedStatus, d)) [live_read E dns w a]"
  unfolding health_trace_def by (rule exI [of _ "[a]"]) simp

lemma health_trace_Cons:
  assumes "\<not> answer_error E a" "health_trace E dns ws (max lvl (answer_level E a)) r es"
  shows "health_trace E dns (w # ws) lvl r (live_read E dns w a # es)"
proof -
  obtain as where as: "length as \<le> length ws" "es = map2 (live_read E dns) (take (length as) ws) as"
    "case r of Inl _ \<Rightarrow> as \<noteq> [] \<and> answer_error E (last as) \<and> (\<forall>a\<in>set (butlast as). \<not> answer_error E a)
     | Inr (st, _) \<Rightarrow> (\<forall>a\<in>set as. \<not> answer_error E a) \<and>
         kstatus_level st = max (max lvl (answer_level E a)) (worst (map (answer_level E) as)) \<and>
         (length as = length ws \<or> st = FailedStatus)"
    using assms(2) unfolding health_trace_def by blast
  then show ?thesis
    unfolding health_trace_def using assms(1)
    by (intro exI [of _ "a # as"]) (auto split: sum.splits simp: max.assoc)
qed

text \<open>The running aggregate is only ever current or in progress.\<close>

lemma health_loop_trace:
  "agg \<in> {CurrentStatus, InProgressStatus} \<Longrightarrow>
   emits (health_loop E dns ws agg detail) (health_trace E dns ws (kstatus_level agg))"
proof (induction ws arbitrary: agg detail)
  case Nil
  show ?case by (auto intro!: emits_return health_trace_Nil)
next
  case (Cons w ws)
  obtain lvl where lvl: "kstatus_level agg = lvl" by simp
  have cont: "emits (health_loop E dns ws agg' detail')
      (\<lambda>r es. health_trace E dns (w # ws) lvl r (EvGetLive (GVKOf E w) (workload_key E dns w) a # es))"
    if "\<not> answer_error E a" "kstatus_level agg' = max lvl (answer_level E a)"
      "agg' \<in> {CurrentStatus, InProgressStatus}"
    for a agg' detail'
    by (rule emits_mono [OF Cons.IH [OF that(3)]])
      (use that(2) health_trace_Cons [OF that(1)] in \<open>simp add: live_read_def\<close>)
  have "max lvl LevelInProgress = LevelInProgress"
    using Cons.prems lvl by (auto simp: max_def less_eq_health_level_def)
  then have progress: "emits (health_loop E dns ws InProgressStatus detail')
      (\<lambda>r es. health_trace E dns (w # ws) lvl r (EvGetLive (GVKOf E w) (workload_key E dns w) a # es))"
    if "\<not> answer_error E a" "answer_level E a = LevelInProgress" for a detail'
    by (intro cont) (simp_all add: that)
  have current: "emits (health_loop E dns ws agg detail)
      (\<lambda>r es. health_trace E dns (w # ws) lvl r (EvGetLive (GVKOf E w) (workload_key E dns w) a # es))"
    if "\<not> answer_error E a" "answer_level E a = LevelCurrent" for a
    using Cons.prems by (intro cont) (simp_all add: that lvl)
  note ends = health_trace_stop [unfolded live_read_def] health_trace_failed [unfolded live_read_def]
  show ?case
    unfolding health_loop.simps lvl
    apply (rule emits_bind, rule emits_client(4), rule emits_case_sum)
    subgoal for a err
      by (auto intro!: emits_return progress ends simp: answer_error_def answer_level_def)
    subgoal for a obj
      by (auto intro!: emits_return progress current ends simp: answer_error_def answer_level_def
          split: sum.split kstatus.split)
    done
qed

lemma kstatus_level_current: "kstatus_level st = LevelCurrent \<longleftrightarrow> st = CurrentStatus"
  by (cases st) simp_all

text \<open>A release is current only if every workload was read, and read as current.\<close>

lemma health_current_reads:
  assumes "health_trace E dns ws LevelCurrent (Inr (CurrentStatus, d)) es" "w \<in> set ws"
  shows "\<exists>obj msg. ComputeStatus E obj = Inr (CurrentStatus, msg) \<and>
    EvGetLive (GVKOf E w) (workload_key E dns w) (Inr obj) \<in> set es"
proof -
  obtain as where as: "es = map2 (live_read E dns) ws as" "length as = length ws"
      "worst (map (answer_level E) as) = LevelCurrent" "\<forall>a\<in>set as. \<not> answer_error E a"
    using assms(1) by (auto simp: health_trace_def)
  obtain i where i: "i < length ws" "w = ws ! i" using assms(2) by (auto simp: in_set_conv_nth)
  have mem: "as ! i \<in> set as" using i as(2) by simp
  then have "answer_level E (as ! i) = LevelCurrent" using as(3) by (simp add: worst_current_iff)
  with mem as(4) obtain obj msg where "as ! i = Inr obj" "ComputeStatus E obj = Inr (CurrentStatus, msg)"
    by (auto simp: answer_level_def answer_error_def kstatus_level_current split: sum.splits prod.splits)
  moreover have "live_read E dns w (as ! i) \<in> set es"
    using nth_mem [of i es] i as(1,2) by simp
  ultimately show ?thesis unfolding live_read_def by metis
qed

text \<open>The workloads of a manifest: the decoded documents of the four kinds, in order.\<close>

definition decoded_prefix :: "(go_error + unstructured) list \<Rightarrow> (go_error + unstructured) list" where
  "decoded_prefix = takeWhile (\<lambda>d. case d of Inl err \<Rightarrow> \<not> errors_Is err EOFErr | Inr _ \<Rightarrow> True)"

definition is_workload :: "'w env \<Rightarrow> unstructured \<Rightarrow> bool" where
  "is_workload E u \<longleftrightarrow> u \<noteq> [] \<and> GetKind E u \<in> set workloadKinds"

definition documents :: "(go_error + unstructured) list \<Rightarrow> unstructured list" where
  "documents ds = map projr (filter (\<lambda>d. \<not> isl d) ds)"

lemma document_simps [simp]:
  "decoded_prefix [] = []"
  "decoded_prefix (Inl err # ds) =
     (if errors_Is err EOFErr then [] else Inl err # decoded_prefix ds)"
  "decoded_prefix (Inr u # ds) = Inr u # decoded_prefix ds"
  "documents [] = []"
  "documents (Inl err # ds) = documents ds"
  "documents (Inr u # ds) = u # documents ds"
  by (simp_all add: decoded_prefix_def documents_def)

lemma decode_loop_spec:
  "decode_loop E ds acc =
     (case filter isl (decoded_prefix ds) of
        d # _ \<Rightarrow> Inl (projl d)
      | [] \<Rightarrow> Inr (acc @ filter (is_workload E) (documents (decoded_prefix ds))))"
  by (induction E ds acc rule: decode_loop.induct)
    (auto simp: is_workload_def [abs_def] split: list.split)

lemma workloads_spec:
  "workloadsFromManifest E m = Inr ws \<longleftrightarrow>
     (\<forall>d\<in>set (decoded_prefix (DecodeManifest E m)). \<not> isl d) \<and>
     ws = filter (is_workload E) (documents (decoded_prefix (DecodeManifest E m)))"
  unfolding workloadsFromManifest_def decode_loop_spec
  by (auto split: list.splits simp: filter_empty_conv)

section \<open>The health of a release\<close>

definition release_health_trace ::
  "'w env \<Rightarrow> string \<Rightarrow> string \<Rightarrow> go_error + kstatus \<times> string \<Rightarrow> event list \<Rightarrow> bool" where
  "release_health_trace E m dns r es \<longleftrightarrow>
     (case workloadsFromManifest E m of
        Inl err \<Rightarrow> es = [] \<and> r = Inl (Errorf ''parse release manifest: '' (Some err))
      | Inr ws \<Rightarrow> health_trace E dns ws LevelCurrent r es)"

lemma releaseHealth_trace: "emits (releaseHealth E m dns) (release_health_trace E m dns)"
proof (cases "workloadsFromManifest E m")
  case (Inl err)
  then show ?thesis
    by (simp add: releaseHealth_def release_health_trace_def emits_return)
next
  case (Inr ws)
  show ?thesis
  proof (cases "ws = []")
    case True
    with Inr show ?thesis
      by (simp add: releaseHealth_def release_health_trace_def emits_return health_trace_Nil)
  next
    case False
    with Inr health_loop_trace [of CurrentStatus E dns ws] show ?thesis
      by (simp add: releaseHealth_def release_health_trace_def [abs_def])
  qed
qed

lemma release_health_reads:
  "release_health_trace E m dns r es \<Longrightarrow> \<forall>e\<in>set es. is_EvGetLive e"
proof -
  assume t: "release_health_trace E m dns r es"
  then obtain ws as where "es = [] \<or> es = map2 (live_read E dns) (take (length as) ws) as"
    by (cases r) (auto simp: release_health_trace_def health_trace_def split: sum.splits)
  then show ?thesis by (auto simp: live_read_def)
qed

lemma releaseHealth_reads: "emits_only (releaseHealth E m dns) is_EvGetLive"
  by (rule emits_mono [OF releaseHealth_trace]) (rule release_health_reads)

end
