(* ===== verification/Controller.thy ===== *)
theory Controller
  imports Health
begin

text \<open>
  \<open>internal/controller/application_controller.go\<close> and the gauge of
  \<open>internal/controller/metrics.go\<close>: the reconciler. \<open>Reconcile\<close> reads an Application and
  takes one of five ways: it was not found, it is being deleted, its finalizer has to be
  registered, its release has to be applied, or the applied release's health is checked.
\<close>

section \<open>Constants\<close>

definition finalizerName :: string where
  "finalizerName = ''apps.helmwarden.dev/finalizer''"

definition managedByAnnotation :: string where
  "managedByAnnotation = ''helmwarden.dev/managed-by''"

definition managedByValue :: string where
  "managedByValue = ''operator''"

definition namespaceIndexKey :: string where
  "namespaceIndexKey = ''spec.namespace''"

definition secretRefIndexKey :: string where
  "secretRefIndexKey = ''spec.valuesSecretRef.name''"

section \<open>Failures\<close>

definition fail :: "'w env \<Rightarrow> Application \<Rightarrow> string \<Rightarrow> go_error \<Rightarrow> ('w, go_error) eff" where
  "fail E app0 reason cause = do {
     let app1 = with_status (\<lambda>s. s\<lparr>Phase := PhaseFailed\<rparr>) app0;
     app2 \<leftarrow> setCondition E app1 ConditionReleased ConditionFalse reason (error_text cause);
     app3 \<leftarrow> setCondition E app2 ConditionReady ConditionFalse reason (error_text cause);
     res \<leftarrow> c_StatusUpdate E app3;
     case res of
       Inl uerr \<Rightarrow> ret uerr
     | Inr _ \<Rightarrow> ret cause
   }"

section \<open>Namespaces\<close>

definition operator_namespace :: "string \<Rightarrow> NamespaceObj" where
  "operator_namespace name =
     \<lparr>nsName = name, nsAnnotations = [(managedByAnnotation, managedByValue)]\<rparr>"

definition ensureNamespace :: "'w env \<Rightarrow> string \<Rightarrow> ('w, go_error option) eff" where
  "ensureNamespace E name = do {
     res \<leftarrow> c_GetNamespace E name;
     case res of
       Inr _ \<Rightarrow> ret None
     | Inl err \<Rightarrow>
         (if \<not> errors_Is err NotFoundErr then ret (Some err)
          else do {
            created \<leftarrow> c_CreateNamespace E (operator_namespace name);
            case created of
              Some cerr \<Rightarrow> (if errors_Is cerr AlreadyExistsErr then ret None else ret (Some cerr))
            | None \<Rightarrow> ret None
          })
   }"

definition live_app :: "Application \<Rightarrow> bool" where
  "live_app app \<longleftrightarrow> DeletionTimestamp (Meta app) = None"

text \<open>The loop of \<open>otherApplicationsInNamespace\<close>, with its running count.\<close>

fun count_others :: "Application \<Rightarrow> Application list \<Rightarrow> int \<Rightarrow> int" where
  "count_others app [] count = count"
| "count_others app (other # rest) count =
     (if UID (Meta other) = UID (Meta app) \<or> \<not> live_app other
      then count_others app rest count
      else count_others app rest (count + 1))"

definition otherApplicationsInNamespace ::
  "'w env \<Rightarrow> Application \<Rightarrow> ('w, go_error + int) eff" where
  "otherApplicationsInNamespace E app = do {
     res \<leftarrow> c_List E \<lparr>InNamespace = None,
              MatchingFields = [(namespaceIndexKey, Namespace (Spec app))]\<rparr>;
     case res of
       Inl err \<Rightarrow> ret (Inl err)
     | Inr items \<Rightarrow> ret (Inr (count_others app items 0))
   }"

definition maybeDeleteNamespace :: "'w env \<Rightarrow> Application \<Rightarrow> ('w, go_error option) eff" where
  "maybeDeleteNamespace E app = do {
     res \<leftarrow> c_GetNamespace E (Namespace (Spec app));
     case res of
       Inl err \<Rightarrow> ret (IgnoreNotFound E err)
     | Inr ns \<Rightarrow>
         (if go_lookup (nsAnnotations ns) managedByAnnotation \<noteq> managedByValue then ret None
          else do {
            others \<leftarrow> otherApplicationsInNamespace E app;
            case others of
              Inl err \<Rightarrow> ret (Some err)
            | Inr n \<Rightarrow>
                (if n > 0 then ret None
                 else do {
                   deleted \<leftarrow> c_DeleteNamespace E ns;
                   case deleted of
                     Some err \<Rightarrow> ret (IgnoreNotFound E err)
                   | None \<Rightarrow> ret None
                 })
          })
   }"

section \<open>Deletion\<close>

definition reconcileDelete :: "'w env \<Rightarrow> Application \<Rightarrow> ('w, go_error option) eff" where
  "reconcileDelete E app = (
     if \<not> ContainsFinalizer E app finalizerName then ret None
     else do {
       u \<leftarrow> Uninstall E (metaName (Meta app)) (Namespace (Spec app));
       case u of
         Some err \<Rightarrow> ret (Some (Errorf (''uninstall release '' @ fmt_q (metaName (Meta app)) @ '': '') (Some err)))
       | None \<Rightarrow> do {
           d \<leftarrow> maybeDeleteNamespace E app;
           case d of
             Some err \<Rightarrow> ret (Some err)
           | None \<Rightarrow> do {
               upd \<leftarrow> c_Update E (RemoveFinalizer E app finalizerName);
               case upd of
                 Inl err \<Rightarrow> ret (Some err)
               | Inr _ \<Rightarrow> ret None
             }
         }
     })"

section \<open>Values\<close>

definition resolveValues ::
  "'w env \<Rightarrow> Application \<Rightarrow> ('w, go_error + helm_values option \<times> string) eff" where
  "resolveValues E app = (
     case ValuesSecretRef (Spec app) of
       None \<Rightarrow> ret (Inr (None, ''''))
     | Some ref \<Rightarrow> do {
         let key = (if refKey ref = '''' then ''values.yaml'' else refKey ref);
         res \<leftarrow> c_GetSecret E \<lparr>nnNamespace = metaNamespace (Meta app), nnName = refName ref\<rparr>;
         case res of
           Inl err \<Rightarrow> ret (Inl (Errorf (''get values secret '' @ fmt_q (refName ref) @ '': '') (Some err)))
         | Inr secret \<Rightarrow>
             (case map_of (secretData secret) key of
                None \<Rightarrow> ret (Inl (Errorf (''values secret '' @ fmt_q (refName ref) @ '' has no key '' @ fmt_q key) None))
              | Some raw \<Rightarrow>
                  (case ParseValues E raw of
                     Inl err \<Rightarrow> ret (Inl err)
                   | Inr vals \<Rightarrow> ret (Inr (vals, hex_EncodeToString (Sha256Sum E raw)))))
       })"

section \<open>Applying a release\<close>

definition needsApply :: "Application \<Rightarrow> string \<Rightarrow> bool" where
  "needsApply app valuesHash \<longleftrightarrow>
     ObservedGeneration (Status app) \<noteq> Generation (Meta app) \<or>
     LastAppliedValuesHash (Status app) \<noteq> valuesHash"

definition release_spec :: "Application \<Rightarrow> helm_values option \<Rightarrow> ReleaseSpec" where
  "release_spec app values =
     \<lparr>rsReleaseName = metaName (Meta app), rsChartName = ChartName (Spec app),
      rsRepoURL = RepoURL (Spec app), rsVersion = Version (Spec app),
      rsNamespace = Namespace (Spec app), rsValues = values\<rparr>"

definition applied_status ::
  "Application \<Rightarrow> ReleaseResult \<Rightarrow> string \<Rightarrow> time \<Rightarrow> ApplicationStatus \<Rightarrow> ApplicationStatus" where
  "applied_status app res valuesHash now s =
     s\<lparr>HelmReleaseName := rrName res, HelmRevision := rrRevision res,
       ObservedGeneration := Generation (Meta app), LastAppliedValuesHash := valuesHash,
       LastDeployStartTime := Some now, LastFailedRevision := 0, Phase := PhaseDeploying\<rparr>"

definition applyRelease ::
  "'w env \<Rightarrow> Application \<Rightarrow> helm_values option \<Rightarrow> string \<Rightarrow> ('w, Result \<times> go_error option) eff" where
  "applyRelease E app values valuesHash = do {
     ens \<leftarrow> ensureNamespace E (Namespace (Spec app));
     case ens of
       Some err \<Rightarrow> do {
         e \<leftarrow> fail E app ''NamespaceError''
                (Errorf (''ensure namespace '' @ fmt_q (Namespace (Spec app)) @ '': '') (Some err));
         ret (emptyResult, Some e)
       }
     | None \<Rightarrow> do {
         r \<leftarrow> InstallOrUpgrade E (release_spec app values);
         case r of
           Inl err \<Rightarrow> do {
             e \<leftarrow> fail E app ''HelmError'' err;
             ret (emptyResult, Some e)
           }
         | Inr res \<Rightarrow> do {
             now \<leftarrow> peek (Now E);
             let app1 = with_status (applied_status app res valuesHash now) app;
             app2 \<leftarrow> setCondition E app1 ConditionReleased ConditionTrue ''ReleaseApplied''
                       (''release '' @ fmt_q (rrName res) @ '' at revision '' @ fmt_d (rrRevision res));
             app3 \<leftarrow> setCondition E app2 ConditionReady ConditionFalse ''Progressing''
                       ''release applied, waiting for workloads'';
             upd \<leftarrow> c_StatusUpdate E app3;
             case upd of
               Inl err \<Rightarrow> ret (emptyResult, Some err)
             | Inr _ \<Rightarrow> ret (\<lparr>RequeueAfter = healthPollInterval\<rparr>, None)
           }
       }
   }"

section \<open>Health\<close>

text \<open>The last lines of \<open>reconcileHealth\<close>: write the status only when it changed.\<close>

definition write_if_changed ::
  "'w env \<Rightarrow> ApplicationStatus \<Rightarrow> Application \<Rightarrow> Result \<Rightarrow> ('w, Result \<times> go_error option) eff" where
  "write_if_changed E before app result = (
     if before \<noteq> Status app
     then do {
       upd \<leftarrow> c_StatusUpdate E app;
       case upd of
         Inl err \<Rightarrow> ret (emptyResult, Some err)
       | Inr _ \<Rightarrow> ret (result, None)
     }
     else ret (result, None))"

text \<open>The end of \<open>reconcileHealth\<close>: what the health that was read makes of the phase.\<close>

definition drivePhase ::
  "'w env \<Rightarrow> Application \<Rightarrow> kstatus \<Rightarrow> string \<Rightarrow> ('w, Result \<times> go_error option) eff" where
  "drivePhase E app health detail = do {
     late \<leftarrow> (if health = FailedStatus then ret True
              else if health \<noteq> CurrentStatus then deadlineExceeded E app
              else ret False);
     if late then handleUnhealthy E app health detail
     else do {
       let before = Status app;
       if health = CurrentStatus \<and> LastFailedRevision (Status app) = 0
       then do {
         (if Phase before \<noteq> PhaseDeployed
          then signal (EvDeploymentSuccess (metaName (Meta app)) (metaNamespace (Meta app)))
          else ret ());
         let app1 = with_status (\<lambda>s. s\<lparr>Phase := PhaseDeployed\<rparr>) app;
         app2 \<leftarrow> setCondition E app1 ConditionHealthy ConditionTrue ''AllWorkloadsCurrent'' detail;
         app3 \<leftarrow> setCondition E app2 ConditionReady ConditionTrue ''Deployed'' ''release deployed and healthy'';
         write_if_changed E before app3 \<lparr>RequeueAfter = steadyPollInterval\<rparr>
       }
       else if health = CurrentStatus
       then write_if_changed E before app \<lparr>RequeueAfter = steadyPollInterval\<rparr>
       else do {
         let app1 = with_status (\<lambda>s. s\<lparr>Phase := PhaseDeploying\<rparr>) app;
         app2 \<leftarrow> setCondition E app1 ConditionHealthy ConditionFalse ''Progressing'' detail;
         app3 \<leftarrow> setCondition E app2 ConditionReady ConditionFalse ''Progressing'' detail;
         write_if_changed E before app3 \<lparr>RequeueAfter = healthPollInterval\<rparr>
       }
     }
   }"

definition reconcileHealth :: "'w env \<Rightarrow> Application \<Rightarrow> ('w, Result \<times> go_error option) eff" where
  "reconcileHealth E app = do {
     g \<leftarrow> GetRelease E (metaName (Meta app)) (Namespace (Spec app));
     case g of
       Inl err \<Rightarrow> ret (emptyResult,
         Some (Errorf (''get release '' @ fmt_q (metaName (Meta app)) @ '': '') (Some err)))
     | Inr rel \<Rightarrow> do {
         h \<leftarrow> releaseHealth E (rrManifest rel) (Namespace (Spec app));
         case h of
           Inl err \<Rightarrow> ret (emptyResult, Some err)
         | Inr (health, detail) \<Rightarrow> drivePhase E app health detail
       }
   }"

section \<open>The gauge of managed applications\<close>

text \<open>\<open>counts[k]++\<close> on a Go map, kept as an association list.\<close>

fun bump :: "string \<Rightarrow> (string \<times> int) list \<Rightarrow> (string \<times> int) list" where
  "bump k [] = [(k, 1)]"
| "bump k ((k', n) # m) = (if k = k' then (k', n + 1) # m else (k', n) # bump k m)"

fun count_namespaces :: "Application list \<Rightarrow> (string \<times> int) list \<Rightarrow> (string \<times> int) list" where
  "count_namespaces [] counts = counts"
| "count_namespaces (app # rest) counts =
     (if \<not> live_app app then count_namespaces rest counts
      else count_namespaces rest (bump (Namespace (Spec app)) counts))"

definition refreshActiveGauge :: "'w env \<Rightarrow> ('w, unit) eff" where
  "refreshActiveGauge E = do {
     res \<leftarrow> c_List E \<lparr>InNamespace = None, MatchingFields = []\<rparr>;
     case res of
       Inl _ \<Rightarrow> ret ()
     | Inr items \<Rightarrow> do {
         let counts = count_namespaces items [];
         signal EvGaugeReset;
         for_each (RangeOrder E counts) (\<lambda>(ns, n). signal (EvGaugeSet ns n))
       }
   }"

section \<open>Reconcile\<close>

text \<open>The pass over a live Application that carries the finalizer.\<close>

definition reconcile_live :: "'w env \<Rightarrow> Application \<Rightarrow> ('w, Result \<times> go_error option) eff" where
  "reconcile_live E app = do {
     v \<leftarrow> resolveValues E app;
     case v of
       Inl err \<Rightarrow> do { e \<leftarrow> fail E app ''ValuesError'' err; ret (emptyResult, Some e) }
     | Inr (values, valuesHash) \<Rightarrow>
         (if needsApply app valuesHash then applyRelease E app values valuesHash
          else reconcileHealth E app)
   }"

definition reconcile_body :: "'w env \<Rightarrow> NamespacedName \<Rightarrow> ('w, Result \<times> go_error option) eff" where
  "reconcile_body E req = do {
     g \<leftarrow> c_GetApplication E req;
     case g of
       Inl err \<Rightarrow> ret (emptyResult, IgnoreNotFound E err)
     | Inr app0 \<Rightarrow>
         (if \<not> live_app app0
          then do { e \<leftarrow> reconcileDelete E app0; ret (emptyResult, e) }
          else (case AddFinalizer E app0 finalizerName of (app, added) \<Rightarrow>
            if added
            then do {
              upd \<leftarrow> c_Update E app;
              case upd of
                Inl err \<Rightarrow> ret (emptyResult, Some err)
              | Inr _ \<Rightarrow> ret (emptyResult, None)
            }
            else reconcile_live E app))
   }"

text \<open>The deferred calls run last to first: the gauge is refreshed, then the timer observed.\<close>

definition Reconcile :: "'w env \<Rightarrow> NamespacedName \<Rightarrow> ('w, Result \<times> go_error option) eff" where
  "Reconcile E req = do {
     result \<leftarrow> reconcile_body E req;
     refreshActiveGauge E;
     signal (EvObserveLatency (nnName req) (nnNamespace req));
     ret result
   }"

section \<open>Wiring\<close>

text \<open>The two index functions \<open>SetupWithManager\<close> registers, and the watch on Secrets.\<close>

definition namespaceIndex :: "Application \<Rightarrow> string list" where
  "namespaceIndex app = [Namespace (Spec app)]"

definition secretRefIndex :: "Application \<Rightarrow> string list" where
  "secretRefIndex app =
     (case ValuesSecretRef (Spec app) of
        Some ref \<Rightarrow> (if refName ref \<noteq> '''' then [refName ref] else [])
      | None \<Rightarrow> [])"

text \<open>The two indexes \<open>SetupWithManager\<close> registers, by their keys.\<close>

definition field_index :: "string \<Rightarrow> Application \<Rightarrow> string list" where
  "field_index k app =
     (if k = namespaceIndexKey then namespaceIndex app
      else if k = secretRefIndexKey then secretRefIndex app else [])"

definition applicationsForSecret ::
  "'w env \<Rightarrow> NamespacedName \<Rightarrow> ('w, NamespacedName list) eff" where
  "applicationsForSecret E obj = do {
     res \<leftarrow> c_List E \<lparr>InNamespace = Some (nnNamespace obj),
              MatchingFields = [(secretRefIndexKey, nnName obj)]\<rparr>;
     case res of
       Inl _ \<Rightarrow> ret []
     | Inr items \<Rightarrow> ret (map app_key items)
   }"

end
