(* ===== verification/ControllerTraces.thy ===== *)
theory ControllerTraces
  imports HealthSpec Controller
begin

text \<open>
  The traces of the reconciler's operations, one contract per operation, and the two rules
  by which a fact about every branch becomes a fact about \<open>Reconcile\<close>.
\<close>

section \<open>Failures\<close>

text \<open>How the answers of single calls become results: the error of a failed call is returned.\<close>

fun fail_answer :: "go_error \<Rightarrow> go_error + Application \<Rightarrow> go_error" where
  "fail_answer cause (Inl uerr) = uerr"
| "fail_answer cause (Inr _) = cause"

fun create_answer :: "go_error option \<Rightarrow> go_error option" where
  "create_answer None = None"
| "create_answer (Some err) = (if errors_Is err AlreadyExistsErr then None else Some err)"

fun delete_answer :: "'w env \<Rightarrow> go_error option \<Rightarrow> go_error option" where
  "delete_answer E None = None"
| "delete_answer E (Some err) = IgnoreNotFound E err"

fun update_answer :: "go_error + Application \<Rightarrow> go_error option" where
  "update_answer (Inl err) = Some err"
| "update_answer (Inr _) = None"

definition fail_trace :: "Application \<Rightarrow> go_error \<Rightarrow> go_error \<Rightarrow> event list \<Rightarrow> bool" where
  "fail_trace app cause r es \<longleftrightarrow>
     (\<exists>sent res. es = [EvStatusUpdate sent res] \<and> on_base app sent \<and>
        same_record (Status app) (Status sent) \<and> Phase (Status sent) = PhaseFailed \<and>
        r = fail_answer cause res)"

lemma fail_contract: "emits (fail E app reason cause) (fail_trace app cause)"
  unfolding fail_def Let_def
  by (auto intro!: emits_intros simp: fail_trace_def on_base_def split: sum.split)

section \<open>Namespaces\<close>

fun namespace_event :: "event \<Rightarrow> bool" where
  "namespace_event (EvGetNamespace _ _) = True"
| "namespace_event (EvCreateNamespace _ _) = True"
| "namespace_event _ = False"

text \<open>
  A namespace is created only after a read that said it does not exist, with the mark of
  the operator on it; a creation that lost a race with another one counts as success.
\<close>

definition ensure_trace :: "string \<Rightarrow> go_error option \<Rightarrow> event list \<Rightarrow> bool" where
  "ensure_trace name r es \<longleftrightarrow>
     (\<exists>ns. es = [EvGetNamespace name (Inr ns)] \<and> r = None) \<or>
     (\<exists>err. \<not> errors_Is err NotFoundErr \<and> es = [EvGetNamespace name (Inl err)] \<and> r = Some err) \<or>
     (\<exists>err created. errors_Is err NotFoundErr \<and>
        es = [EvGetNamespace name (Inl err), EvCreateNamespace (operator_namespace name) created] \<and>
        r = create_answer created)"

lemma ensureNamespace_contract: "emits (ensureNamespace E name) (ensure_trace name)"
  unfolding ensureNamespace_def
  by (auto intro!: emits_intros simp: ensure_trace_def split: sum.split option.split)

lemma ensure_events: "ensure_trace name r es \<Longrightarrow> \<forall>e\<in>set es. namespace_event e"
  by (auto simp: ensure_trace_def)

text \<open>The count of the loop is the number of other live Applications in the list.\<close>

lemma count_others_eq:
  "count_others app items n = n + int (length (filter (\<lambda>a. UID (Meta a) \<noteq> UID (Meta app) \<and> live_app a) items))"
  by (induction app items n rule: count_others.induct) auto

definition others_alive :: "Application \<Rightarrow> Application list \<Rightarrow> bool" where
  "others_alive app items \<longleftrightarrow> (\<exists>a\<in>set items. UID (Meta a) \<noteq> UID (Meta app) \<and> live_app a)"

lemma count_others_positive: "0 < count_others app items 0 \<longleftrightarrow> others_alive app items"
  by (auto simp: count_others_eq others_alive_def filter_empty_conv)

definition namespace_list :: "string \<Rightarrow> ListOptions" where
  "namespace_list ns = \<lparr>InNamespace = None, MatchingFields = [(namespaceIndexKey, ns)]\<rparr>"

text \<open>
  The cleanup of a namespace ends at the first answer that settles it. It is deleted only
  when the read showed the operator's mark and the list showed nobody else alive in it.
\<close>

definition cleanup_trace :: "'w env \<Rightarrow> Application \<Rightarrow> go_error option \<Rightarrow> event list \<Rightarrow> bool" where
  "cleanup_trace E app r es \<longleftrightarrow>
     (let ns = Namespace (Spec app); opts = namespace_list ns in
      (\<exists>err. es = [EvGetNamespace ns (Inl err)] \<and> r = IgnoreNotFound E err) \<or>
      (\<exists>obj. go_lookup (nsAnnotations obj) managedByAnnotation \<noteq> managedByValue \<and>
         es = [EvGetNamespace ns (Inr obj)] \<and> r = None) \<or>
      (\<exists>obj. go_lookup (nsAnnotations obj) managedByAnnotation = managedByValue \<and>
         ((\<exists>err. es = [EvGetNamespace ns (Inr obj), EvListApplications opts (Inl err)] \<and> r = Some err) \<or>
          (\<exists>items. others_alive app items \<and>
             es = [EvGetNamespace ns (Inr obj), EvListApplications opts (Inr items)] \<and> r = None) \<or>
          (\<exists>items deleted. \<not> others_alive app items \<and>
             es = [EvGetNamespace ns (Inr obj), EvListApplications opts (Inr items),
                   EvDeleteNamespace obj deleted] \<and>
             r = delete_answer E deleted))))"

lemma maybeDeleteNamespace_contract: "emits (maybeDeleteNamespace E app) (cleanup_trace E app)"
  unfolding maybeDeleteNamespace_def otherApplicationsInNamespace_def
  by (auto intro!: emits_intros
      simp: cleanup_trace_def Let_def namespace_list_def count_others_positive
      split: sum.split option.split)

section \<open>Deletion\<close>

definition delete_trace :: "'w env \<Rightarrow> Application \<Rightarrow> go_error option \<Rightarrow> event list \<Rightarrow> bool" where
  "delete_trace E app r es \<longleftrightarrow>
     (let n = metaName (Meta app); ns = Namespace (Spec app) in
      (\<not> ContainsFinalizer E app finalizerName \<and> es = [] \<and> r = None) \<or>
      (ContainsFinalizer E app finalizerName \<and>
       ((\<exists>err. uninstall_contract n ns (Some err) es \<and>
           r = Some (Errorf (''uninstall release '' @ fmt_q n @ '': '') (Some err))) \<or>
        (\<exists>es1 es2. uninstall_contract n ns None es1 \<and>
           ((\<exists>err. cleanup_trace E app (Some err) es2 \<and> es = es1 @ es2 \<and> r = Some err) \<or>
            (\<exists>upd. cleanup_trace E app None es2 \<and>
               es = es1 @ es2 @ [EvUpdate (RemoveFinalizer E app finalizerName) upd] \<and>
               r = update_answer upd))))))"

lemma delete_trace_intros:
  assumes "ContainsFinalizer E app finalizerName"
  shows "uninstall_contract (metaName (Meta app)) (Namespace (Spec app)) (Some err) es \<Longrightarrow>
      delete_trace E app (Some (Errorf (''uninstall release '' @ fmt_q (metaName (Meta app)) @ '': '') (Some err))) es"
    and "uninstall_contract (metaName (Meta app)) (Namespace (Spec app)) None es1 \<Longrightarrow>
      cleanup_trace E app (Some err) es2 \<Longrightarrow> delete_trace E app (Some err) (es1 @ es2)"
    and "uninstall_contract (metaName (Meta app)) (Namespace (Spec app)) None es1 \<Longrightarrow>
      cleanup_trace E app None es2 \<Longrightarrow>
      delete_trace E app (update_answer upd) (es1 @ es2 @ [EvUpdate (RemoveFinalizer E app finalizerName) upd])"
  using assms unfolding delete_trace_def Let_def by blast+

lemma reconcileDelete_contract: "emits (reconcileDelete E app) (delete_trace E app)"
proof (cases "ContainsFinalizer E app finalizerName")
  case False
  then show ?thesis
    by (simp add: reconcileDelete_def delete_trace_def emits_return)
next
  case True
  let ?n = "metaName (Meta app)" and ?ns = "Namespace (Spec app)"
  show ?thesis
    unfolding reconcileDelete_def if_not_P [OF iffD2 [OF not_not True]]
    apply (rule emits_step [OF hm.uninstall_law], rule emits_case_option)
     apply (rule emits_step [OF maybeDeleteNamespace_contract], rule emits_case_option)
      apply (rule emits_bind, rule emits_client(6), rule emits_case_sum)
    using delete_trace_intros [OF True]
    by (fastforce intro!: emits_return dest: delete_trace_intros(3) [OF True, of _ _ "Inl _"]
        delete_trace_intros(3) [OF True, of _ _ "Inr _"])+
qed

section \<open>Values\<close>

definition values_key :: "ValuesSecretRef \<Rightarrow> string" where
  "values_key ref = (if refKey ref = '''' then ''values.yaml'' else refKey ref)"

definition values_answer ::
  "'w env \<Rightarrow> ValuesSecretRef \<Rightarrow> go_error + Secret \<Rightarrow> go_error + helm_values option \<times> string" where
  "values_answer E ref ans = (case ans of
     Inl err \<Rightarrow> Inl (Errorf (''get values secret '' @ fmt_q (refName ref) @ '': '') (Some err))
   | Inr secret \<Rightarrow> (case map_of (secretData secret) (values_key ref) of
       None \<Rightarrow> Inl (Errorf (''values secret '' @ fmt_q (refName ref) @ '' has no key '' @
         fmt_q (values_key ref)) None)
     | Some raw \<Rightarrow> (case ReadValues E raw of
         Inl err \<Rightarrow> Inl (Errorf ''parse values: '' (Some err))
       | Inr vals \<Rightarrow> Inr (vals, hex_EncodeToString (Sha256Sum E raw)))))"

definition values_trace ::
  "'w env \<Rightarrow> Application \<Rightarrow> go_error + helm_values option \<times> string \<Rightarrow> event list \<Rightarrow> bool" where
  "values_trace E app r es \<longleftrightarrow>
     (case ValuesSecretRef (Spec app) of
        None \<Rightarrow> es = [] \<and> r = Inr (None, '''')
      | Some ref \<Rightarrow> (\<exists>ans. es = [EvGetSecret \<lparr>nnNamespace = metaNamespace (Meta app), nnName = refName ref\<rparr> ans] \<and>
          r = values_answer E ref ans))"

lemma resolveValues_contract: "emits (resolveValues E app) (values_trace E app)"
proof (cases "ValuesSecretRef (Spec app)")
  case None
  then show ?thesis by (simp add: resolveValues_def values_trace_def emits_return)
next
  case (Some ref)
  have prog: "resolveValues E app =
      c_GetSecret E \<lparr>nnNamespace = metaNamespace (Meta app), nnName = refName ref\<rparr> \<bind>
        (\<lambda>ans. ret (values_answer E ref ans))"
    unfolding resolveValues_def Some option.case values_answer_def values_key_def ParseValues_def Let_def
    by (rule arg_cong [of _ _ "State_Monad.bind _"], rule ext)
      (simp split: sum.split option.split)
  show ?thesis
    unfolding prog by (intro emits_bind emits_client(3) emits_return) (simp add: values_trace_def Some)
qed

text \<open>What \<open>resolveValues\<close> computes, as one equation.\<close>

lemma resolveValues_run:
  "run_state (resolveValues E app) s = (case ValuesSecretRef (Spec app) of
     None \<Rightarrow> (Inr (None, ''''), s)
   | Some ref \<Rightarrow> (let key = \<lparr>nnNamespace = metaNamespace (Meta app), nnName = refName ref\<rparr> in
       case GetSecret E key (world s) of (ans, w) \<Rightarrow>
         (values_answer E ref ans, s\<lparr>world := w, log := log s @ [EvGetSecret key ans]\<rparr>)))"
  unfolding resolveValues_def values_answer_def values_key_def ParseValues_def c_GetSecret_def
  by (auto simp: Let_def split: option.split prod.split sum.split)

lemma values_events: "values_trace E app r es \<Longrightarrow> \<forall>e\<in>set es. is_EvGetSecret e"
  by (auto simp: values_trace_def split: option.splits)

section \<open>Applying a release\<close>

definition applied :: "Application \<Rightarrow> ReleaseResult \<Rightarrow> string \<Rightarrow> Application \<Rightarrow> bool" where
  "applied app res valuesHash sent \<longleftrightarrow> on_base app sent \<and>
     (\<exists>now cs. Status sent = (applied_status app res valuesHash now (Status app))\<lparr>Conditions := cs\<rparr>)"

definition apply_trace ::
  "Application \<Rightarrow> helm_values option \<Rightarrow> string \<Rightarrow> Result \<times> go_error option \<Rightarrow> event list \<Rightarrow> bool" where
  "apply_trace app values valuesHash r es \<longleftrightarrow>
     (let ns = Namespace (Spec app); spec = release_spec app values in
      (\<exists>err f es1 es2. ensure_trace ns (Some err) es1 \<and>
         fail_trace app (Errorf (''ensure namespace '' @ fmt_q ns @ '': '') (Some err)) f es2 \<and>
         es = es1 @ es2 \<and> r = (emptyResult, Some f)) \<or>
      (\<exists>err f es1 es2 es3. ensure_trace ns None es1 \<and> install_contract spec (Inl err) es2 \<and>
         fail_trace app err f es3 \<and> es = es1 @ es2 @ es3 \<and> r = (emptyResult, Some f)) \<or>
      (\<exists>res sent upd es1 es2. ensure_trace ns None es1 \<and> install_contract spec (Inr res) es2 \<and>
         applied app res valuesHash sent \<and> es = es1 @ es2 @ [EvStatusUpdate sent upd] \<and>
         r = write_answer \<lparr>RequeueAfter = healthPollInterval\<rparr> upd))"

lemma apply_trace_intros:
  assumes "ensure_trace (Namespace (Spec app)) x es1"
  shows "x = Some err \<Longrightarrow>
      fail_trace app (Errorf (''ensure namespace '' @ fmt_q (Namespace (Spec app)) @ '': '') (Some err)) f es2 \<Longrightarrow>
      apply_trace app vs h (emptyResult, Some f) (es1 @ es2)"
    and "x = None \<Longrightarrow> install_contract (release_spec app vs) (Inl err) es2 \<Longrightarrow> fail_trace app err f es3 \<Longrightarrow>
      apply_trace app vs h (emptyResult, Some f) (es1 @ es2 @ es3)"
    and "x = None \<Longrightarrow> install_contract (release_spec app vs) (Inr res) es2 \<Longrightarrow> applied app res h sent \<Longrightarrow>
      apply_trace app vs h (write_answer \<lparr>RequeueAfter = healthPollInterval\<rparr> upd)
        (es1 @ es2 @ [EvStatusUpdate sent upd])"
  using assms unfolding apply_trace_def Let_def by blast+

lemma applied_intro:
  "applied app res h (with_status (\<lambda>s. s\<lparr>Conditions := cs'\<rparr>) (with_status (\<lambda>s. s\<lparr>Conditions := cs\<rparr>)
     (with_status (applied_status app res h now) app)))"
  unfolding applied_def on_base_def by auto

lemma applyRelease_contract: "emits (applyRelease E app vs h) (apply_trace app vs h)"
  unfolding applyRelease_def Let_def
  apply (rule emits_step [OF ensureNamespace_contract], rule emits_case_option)
   apply (rule emits_step [OF hm.install_law], rule emits_case_sum)
    apply (rule emits_step [OF fail_contract])
    apply (auto intro!: emits_return dest: apply_trace_intros(2)) [1]
   apply (rule emits_bind, rule emits_peek, rule emits_bind, rule emits_setCondition_any,
      rule emits_bind, rule emits_setCondition_any, rule emits_bind, rule emits_client(7),
      rule emits_case_sum)
    subgoal for x es1 y es2 res now cs cs' upd err
      using apply_trace_intros(3) [OF _ _ _ applied_intro [of app res h cs' cs now], of x es1 vs es2 "Inl err"]
      by (simp add: emits_return)
   subgoal for x es1 y es2 res now cs cs' upd obj
     using apply_trace_intros(3) [OF _ _ _ applied_intro [of app res h cs' cs now], of x es1 vs es2 "Inr obj"]
     by (simp add: emits_return)
  apply (rule emits_step [OF fail_contract])
  apply (auto intro!: emits_return dest: apply_trace_intros(1))
  done

section \<open>Checking health\<close>

text \<open>A phase is settled with one status write, or with none when the status is already so.\<close>

definition settle_trace ::
  "Application \<Rightarrow> ApplicationPhase \<Rightarrow> duration \<Rightarrow> Result \<times> go_error option \<Rightarrow> event list \<Rightarrow> bool" where
  "settle_trace app p d r es \<longleftrightarrow>
     es = [] \<and> Phase (Status app) = p \<and> r = (\<lparr>RequeueAfter = d\<rparr>, None) \<or>
     (\<exists>sent upd. es = [EvStatusUpdate sent upd] \<and> on_base app sent \<and> same_record (Status app) (Status sent) \<and>
        Phase (Status sent) = p \<and> r = write_answer \<lparr>RequeueAfter = d\<rparr> upd)"

lemma write_if_changed_settles:
  assumes "app' = with_status (\<lambda>s. s\<lparr>Conditions := cs'\<rparr>) (with_status (\<lambda>s. s\<lparr>Conditions := cs\<rparr>)
     (with_status (\<lambda>s. s\<lparr>Phase := p\<rparr>) app))"
  shows "emits (write_if_changed E (Status app) app' \<lparr>RequeueAfter = d\<rparr>) (settle_trace app p d)"
proof -
  have st: "Status app' = (Status app)\<lparr>Phase := p, Conditions := cs'\<rparr>" "on_base app app'"
    by (simp_all add: assms on_base_def)
  have same: "Phase (Status app) = p" if "Status app = Status app'"
    using arg_cong [OF that, of Phase] st(1) by simp
  show ?thesis
    unfolding write_if_changed_def
    by (auto intro!: emits_intros simp: settle_trace_def st same split: sum.split)
qed

definition success_signal :: "Application \<Rightarrow> event list" where
  "success_signal app =
     (if Phase (Status app) \<noteq> PhaseDeployed
      then [EvDeploymentSuccess (metaName (Meta app)) (metaNamespace (Meta app))] else [])"

text \<open>
  What follows a reading of the health: a failed release, or one that is late, is handed to
  the rollback path; a current one is settled as deployed, or left alone when its spec has
  already been rolled back; anything else is settled as deploying.
\<close>

definition drive_trace ::
  "Application \<Rightarrow> kstatus \<Rightarrow> Result \<times> go_error option \<Rightarrow> event list \<Rightarrow> bool" where
  "drive_trace app health r es \<longleftrightarrow>
     (health \<noteq> CurrentStatus \<and> unhealthy_trace app es) \<or>
     (health = CurrentStatus \<and> LastFailedRevision (Status app) = 0 \<and>
        (\<exists>es'. es = success_signal app @ es' \<and> settle_trace app PhaseDeployed steadyPollInterval r es')) \<or>
     (health = CurrentStatus \<and> LastFailedRevision (Status app) \<noteq> 0 \<and> es = [] \<and>
        r = (\<lparr>RequeueAfter = steadyPollInterval\<rparr>, None)) \<or>
     (health \<noteq> CurrentStatus \<and> health \<noteq> FailedStatus \<and> settle_trace app PhaseDeploying healthPollInterval r es)"

definition check_trace :: "'w env \<Rightarrow> Application \<Rightarrow> Result \<times> go_error option \<Rightarrow> event list \<Rightarrow> bool" where
  "check_trace E app r es \<longleftrightarrow>
     (let n = metaName (Meta app); ns = Namespace (Spec app) in
      (\<exists>err. get_contract n ns (Inl err) es \<and>
         r = (emptyResult, Some (Errorf (''get release '' @ fmt_q n @ '': '') (Some err)))) \<or>
      (\<exists>rel es1 err es2. get_contract n ns (Inr rel) es1 \<and>
         release_health_trace E (rrManifest rel) ns (Inl err) es2 \<and> es = es1 @ es2 \<and>
         r = (emptyResult, Some err)) \<or>
      (\<exists>rel es1 health detail es2 es3. get_contract n ns (Inr rel) es1 \<and>
         release_health_trace E (rrManifest rel) ns (Inr (health, detail)) es2 \<and>
         drive_trace app health r es3 \<and> es = es1 @ es2 @ es3))"

lemma drivePhase_contract: "emits (drivePhase E app health detail) (drive_trace app health)"
proof -
  have unhealthy: "emits (handleUnhealthy E app health detail) (drive_trace app health)"
    if "health \<noteq> CurrentStatus"
    by (rule emits_mono [OF handleUnhealthy_trace]) (simp add: drive_trace_def that)
  show ?thesis
  proof (cases "health = CurrentStatus")
    case True
    show ?thesis
    proof (cases "LastFailedRevision (Status app) = 0")
      case armed: True
      have "drive_trace app health r (success_signal app @ es)"
        if "settle_trace app PhaseDeployed steadyPollInterval r es" for r es
        using that True armed by (auto simp: drive_trace_def)
      with True armed show ?thesis
        unfolding drivePhase_def Let_def success_signal_def
        by (auto intro!: emits_return emits_signal emits_bind emits_setCondition_any
            intro: emits_mono [OF write_if_changed_settles [OF refl]])
    next
      case False
      with True show ?thesis
        unfolding drivePhase_def Let_def write_if_changed_def
        by (auto intro!: emits_intros simp: drive_trace_def)
    qed
  next
    case False
    have settle: "drive_trace app health r es"
      if "settle_trace app PhaseDeploying healthPollInterval r es" "health \<noteq> FailedStatus" for r es
      using that False by (simp add: drive_trace_def)
    from False unhealthy show ?thesis
      unfolding drivePhase_def Let_def deadlineExceeded_def
      by (auto intro!: emits_return emits_peek emits_bind emits_if emits_setCondition_any
          intro: emits_mono [OF write_if_changed_settles [OF refl] settle])
  qed
qed

lemma check_trace_intros:
  shows "get_contract (metaName (Meta app)) (Namespace (Spec app)) (Inl err) es \<Longrightarrow>
      check_trace E app (emptyResult, Some (Errorf (''get release '' @ fmt_q (metaName (Meta app)) @ '': '') (Some err))) es"
    and "get_contract (metaName (Meta app)) (Namespace (Spec app)) (Inr rel) es1 \<Longrightarrow>
      release_health_trace E (rrManifest rel) (Namespace (Spec app)) (Inl err) es2 \<Longrightarrow>
      check_trace E app (emptyResult, Some err) (es1 @ es2)"
    and "get_contract (metaName (Meta app)) (Namespace (Spec app)) (Inr rel) es1 \<Longrightarrow>
      release_health_trace E (rrManifest rel) (Namespace (Spec app)) (Inr (health, detail)) es2 \<Longrightarrow>
      drive_trace app health r es3 \<Longrightarrow> check_trace E app r (es1 @ es2 @ es3)"
  unfolding check_trace_def Let_def by blast+

lemma reconcileHealth_contract: "emits (reconcileHealth E app) (check_trace E app)"
  unfolding reconcileHealth_def
  apply (rule emits_step [OF hm.get_law], rule emits_case_sum)
   apply (rule emits_return, simp, drule check_trace_intros(1), simp)
  apply (rule emits_step [OF releaseHealth_trace], rule emits_case_sum)
   apply (rule emits_return, simp, drule (1) check_trace_intros(2), simp)
  apply (clarsimp split: prod.split)
  apply (rule emits_mono [OF drivePhase_contract])
  apply (drule (2) check_trace_intros(3), simp)
  done

section \<open>A pass over a live Application\<close>

definition live_trace :: "'w env \<Rightarrow> Application \<Rightarrow> Result \<times> go_error option \<Rightarrow> event list \<Rightarrow> bool" where
  "live_trace E app r es \<longleftrightarrow>
     (\<exists>err f es1 es2. values_trace E app (Inl err) es1 \<and> fail_trace app err f es2 \<and>
        es = es1 @ es2 \<and> r = (emptyResult, Some f)) \<or>
     (\<exists>vs h es1 es2. values_trace E app (Inr (vs, h)) es1 \<and> needsApply app h \<and>
        apply_trace app vs h r es2 \<and> es = es1 @ es2) \<or>
     (\<exists>vs h es1 es2. values_trace E app (Inr (vs, h)) es1 \<and> \<not> needsApply app h \<and>
        check_trace E app r es2 \<and> es = es1 @ es2)"

lemma live_trace_intros:
  shows "values_trace E app (Inl err) es1 \<Longrightarrow> fail_trace app err f es2 \<Longrightarrow>
      live_trace E app (emptyResult, Some f) (es1 @ es2)"
    and "values_trace E app (Inr (vs, h)) es1 \<Longrightarrow> needsApply app h \<Longrightarrow> apply_trace app vs h r es2 \<Longrightarrow>
      live_trace E app r (es1 @ es2)"
    and "values_trace E app (Inr (vs, h)) es1 \<Longrightarrow> \<not> needsApply app h \<Longrightarrow> check_trace E app r es2 \<Longrightarrow>
      live_trace E app r (es1 @ es2)"
  unfolding live_trace_def by blast+

lemma reconcile_live_contract: "emits (reconcile_live E app) (live_trace E app)"
  unfolding reconcile_live_def
  apply (rule emits_step [OF resolveValues_contract], rule emits_case_sum)
   apply (rule emits_step [OF fail_contract], rule emits_return, simp, drule (1) live_trace_intros(1), simp)
  apply (rule emits_case_prod, rule emits_if)
   apply (rule emits_mono [OF applyRelease_contract], simp, erule (2) live_trace_intros(2))
  apply (rule emits_mono [OF reconcileHealth_contract], simp, erule (2) live_trace_intros(3))
  done

section \<open>Reconcile\<close>

fun gauge_event :: "event \<Rightarrow> bool" where
  "gauge_event (EvListApplications _ _) = True"
| "gauge_event EvGaugeReset = True"
| "gauge_event (EvGaugeSet _ _) = True"
| "gauge_event (EvObserveLatency _ _) = True"
| "gauge_event _ = False"

lemma refresh_events: "emits_only (refreshActiveGauge E) gauge_event"
  unfolding refreshActiveGauge_def Let_def
  apply (rule emits_only_bind)
   apply (rule emits_client(5), simp)
  apply (rule emits_case_sum)
   apply (simp add: emits_return)
  apply (rule emits_only_bind)
   apply (simp add: emits_signal)
  apply (rule emits_for_each)
  apply (simp add: emits_signal split: prod.split)
  done

text \<open>
  What a pass does before the deferred calls: it reads the Application and takes one way.
\<close>

definition body_trace ::
  "'w env \<Rightarrow> NamespacedName \<Rightarrow> Result \<times> go_error option \<Rightarrow> event list \<Rightarrow> bool" where
  "body_trace E req r es \<longleftrightarrow>
     (\<exists>err. es = [EvGetApplication req (Inl err)] \<and> r = (emptyResult, IgnoreNotFound E err)) \<or>
     (\<exists>app. \<not> live_app app \<and> (\<exists>e es'. delete_trace E app e es' \<and>
        es = EvGetApplication req (Inr app) # es' \<and> r = (emptyResult, e))) \<or>
     (\<exists>app app' upd. live_app app \<and> AddFinalizer E app finalizerName = (app', True) \<and>
        es = [EvGetApplication req (Inr app), EvUpdate app' upd] \<and> r = (emptyResult, update_answer upd)) \<or>
     (\<exists>app app' es'. live_app app \<and> AddFinalizer E app finalizerName = (app', False) \<and>
        live_trace E app' r es' \<and> es = EvGetApplication req (Inr app) # es')"

lemma reconcile_body_contract: "emits (reconcile_body E req) (body_trace E req)"
  unfolding reconcile_body_def
  apply (rule emits_bind, rule emits_client(1), rule emits_case_sum)
   apply (simp add: emits_return body_trace_def)
  apply (rule emits_if)
   apply (rule emits_step [OF reconcileDelete_contract], rule emits_return, simp add: body_trace_def)
  apply (clarsimp split: prod.split)
  apply (intro conjI impI)
   apply (rule emits_bind, rule emits_client(6), rule emits_case_sum)
    apply (rule emits_return, simp add: body_trace_def)
   apply (rule emits_return, simp add: body_trace_def)
  apply (rule emits_mono [OF reconcile_live_contract])
  apply (simp add: body_trace_def, blast)
  done

definition reconcile_trace ::
  "'w env \<Rightarrow> NamespacedName \<Rightarrow> Result \<times> go_error option \<Rightarrow> event list \<Rightarrow> bool" where
  "reconcile_trace E req r es \<longleftrightarrow>
     (\<exists>es1 es2. body_trace E req r es1 \<and> (\<forall>e\<in>set es2. gauge_event e) \<and> es = es1 @ es2)"

lemma Reconcile_contract: "emits (Reconcile E req) (reconcile_trace E req)"
  unfolding Reconcile_def
  apply (rule emits_step [OF reconcile_body_contract], rule emits_step [OF refresh_events])
  apply (rule emits_bind, rule emits_signal, rule emits_return)
  apply (auto simp: reconcile_trace_def)
  done

end
