(* ===== verification/ReconcileFacts.thy ===== *)
theory ReconcileFacts
  imports ControllerTraces
begin

text \<open>
  One pass of the reconciler as an object: its result and its events, and the case
  distinctions the properties are proved by. Each contract of \<open>ControllerTraces\<close> is first
  summarised by the Helm changes and the namespace changes it can contain.
\<close>

section \<open>A pass\<close>

definition reconcile_result ::
  "'w env \<Rightarrow> NamespacedName \<Rightarrow> ('w, event) st \<Rightarrow> Result \<times> go_error option" where
  "reconcile_result E req s = fst (run_state (Reconcile E req) s)"

definition reconcile_next :: "'w env \<Rightarrow> NamespacedName \<Rightarrow> ('w, event) st \<Rightarrow> ('w, event) st" where
  "reconcile_next E req s = snd (run_state (Reconcile E req) s)"

definition reconcile_events :: "'w env \<Rightarrow> NamespacedName \<Rightarrow> ('w, event) st \<Rightarrow> event list" where
  "reconcile_events E req s = drop (length (log s)) (log (reconcile_next E req s))"

lemma emits_Reconcile_events:
  assumes "emits (Reconcile E req) Q"
  shows "Q (reconcile_result E req s) (reconcile_events E req s)"
    and "log (reconcile_next E req s) = log s @ reconcile_events E req s"
proof -
  obtain r s' where r: "run_state (Reconcile E req) s = (r, s')" by fastforce
  obtain es where "log s' = log s @ es" "Q r es" using emitsD [OF assms r] .
  with r show "Q (reconcile_result E req s) (reconcile_events E req s)"
    and "log (reconcile_next E req s) = log s @ reconcile_events E req s"
    by (simp_all add: reconcile_result_def reconcile_events_def reconcile_next_def)
qed

lemma reconcile_events_trace:
  "reconcile_trace E req (reconcile_result E req s) (reconcile_events E req s)"
  by (rule emits_Reconcile_events [OF Reconcile_contract])

lemma reconcile_log: "log (reconcile_next E req s) = log s @ reconcile_events E req s"
  by (rule emits_Reconcile_events [OF Reconcile_contract])

section \<open>What the contracts leave untouched\<close>

text \<open>Changes the reconciler makes outside the Application object itself.\<close>

fun cluster_change :: "event \<Rightarrow> bool" where
  "cluster_change (EvCreateNamespace _ _) = True"
| "cluster_change (EvDeleteNamespace _ _) = True"
| "cluster_change e = sdk_mutation e"

fun any_write :: "event \<Rightarrow> bool" where
  "any_write (EvUpdate _ _) = True"
| "any_write (EvStatusUpdate _ _) = True"
| "any_write e = cluster_change e"

lemma change_is_write: "cluster_change e \<Longrightarrow> any_write e"
  by (cases e) simp_all

lemma mutation_is_change: "sdk_mutation e \<Longrightarrow> cluster_change e"
  by (cases e) simp_all

lemma change_examples:
  "cluster_change (EvDeleteNamespace obj res)" "cluster_change (EvRollback a n res')"
  "cluster_change (EvCreateNamespace obj res)" "cluster_change (EvUpgrade u n ch vs raw)"
  "cluster_change (EvInstall i ch vs raw)" "cluster_change (EvUninstall d n res')"
  by simp_all

lemma quiet_events:
  "is_EvGetLive e \<Longrightarrow> \<not> any_write e"
  "is_EvGetSecret e \<Longrightarrow> \<not> any_write e"
  "gauge_event e \<Longrightarrow> \<not> any_write e"
  "in_scope ns e \<Longrightarrow> \<not> sdk_mutation e \<Longrightarrow> \<not> any_write e"
  "in_scope ns e \<Longrightarrow> cluster_change e \<Longrightarrow> sdk_mutation e"
  "namespace_event e \<Longrightarrow> cluster_change e \<Longrightarrow> is_EvCreateNamespace e"
  by (cases e; simp)+

lemma no_writes_values: "values_trace E app r es \<Longrightarrow> \<forall>e\<in>set es. \<not> any_write e"
  using values_events quiet_events(2) by blast

lemma no_writes_get: "get_contract n ns r es \<Longrightarrow> \<forall>e\<in>set es. \<not> any_write e"
  unfolding get_contract_def using quiet_events(4) by blast

lemma no_writes_health: "release_health_trace E m dns r es \<Longrightarrow> \<forall>e\<in>set es. \<not> any_write e"
  using release_health_reads quiet_events(1) by blast

lemma no_writes_gauge: "\<forall>e\<in>set es. gauge_event e \<Longrightarrow> \<forall>e\<in>set es. \<not> any_write e"
  using quiet_events(3) by blast

lemmas no_writes = no_writes_values no_writes_get no_writes_health no_writes_gauge

lemma no_changes_fail: "fail_trace app cause r es \<Longrightarrow> \<forall>e\<in>set es. \<not> cluster_change e"
  by (auto simp: fail_trace_def)

lemma no_changes_settle: "settle_trace app p d r es \<Longrightarrow> \<forall>e\<in>set es. \<not> cluster_change e"
  by (auto simp: settle_trace_def)

lemma no_changes_success: "\<forall>e\<in>set (success_signal app). \<not> cluster_change e"
  by (simp add: success_signal_def)

lemma drive_changes:
  "drive_trace app health r es \<Longrightarrow> unhealthy_trace app es \<or> (\<forall>e\<in>set es. \<not> cluster_change e)"
  unfolding drive_trace_def
proof (elim disjE exE conjE)
  fix es' assume "es = success_signal app @ es'" "settle_trace app PhaseDeployed steadyPollInterval r es'"
  then show ?thesis using no_changes_success no_changes_settle by (metis Un_iff set_append)
qed (auto dest: no_changes_settle)

section \<open>Where a change of the cluster comes from\<close>

text \<open>The Application a pass works on, and the finalizer it was read with.\<close>

definition works_on :: "'w env \<Rightarrow> NamespacedName \<Rightarrow> event list \<Rightarrow> Application \<Rightarrow> bool" where
  "works_on E req es app \<longleftrightarrow> (\<exists>read. live_app read \<and> AddFinalizer E read finalizerName = (app, False) \<and>
     EvGetApplication req (Inr read) \<in> set es)"

lemma change_cases [consumes 3, case_names deletion release rollback]:
  assumes tr: "reconcile_trace E req r es" and m: "m \<in> set es" "cluster_change m"
  obtains app e es1 tail where "\<not> live_app app" "delete_trace E app e es1" "m \<in> set es1"
      "r = (emptyResult, e)" "es = EvGetApplication req (Inr app) # es1 @ tail"
      "\<forall>e\<in>set tail. gauge_event e"
  | app vs h es1 es2 tail where "works_on E req es app" "values_trace E app (Inr (vs, h)) es1"
      "needsApply app h" "apply_trace app vs h r es2" "m \<in> set es2"
      "\<exists>read. es = EvGetApplication req (Inr read) # es1 @ es2 @ tail" "\<forall>e\<in>set tail. gauge_event e"
  | app pre es3 tail where "works_on E req es app" "unhealthy_trace app es3" "m \<in> set es3"
      "es = pre @ es3 @ tail" "\<forall>e\<in>set pre. \<not> any_write e" "\<forall>e\<in>set tail. gauge_event e"
      "\<exists>read. EvGetApplication req (Inr read) \<in> set pre \<and> AddFinalizer E read finalizerName = (app, False)"
proof -
  obtain es1 tail where b: "body_trace E req r es1" and t: "\<forall>e\<in>set tail. gauge_event e"
      and es: "es = es1 @ tail"
    using tr unfolding reconcile_trace_def by blast
  have m1: "m \<in> set es1"
    using m es no_writes(4) [OF t] change_is_write by auto
  from b show thesis
    unfolding body_trace_def
  proof (elim disjE exE conjE)
    fix err assume "es1 = [EvGetApplication req (Inl err)]"
    with m1 m(2) show thesis by simp
  next
    fix app e es'
    assume "\<not> live_app app" "delete_trace E app e es'" "es1 = EvGetApplication req (Inr app) # es'"
      "r = (emptyResult, e)"
    with that(1) [of app e es' tail] t es m1 m(2) show thesis by auto
  next
    fix app app' upd assume "es1 = [EvGetApplication req (Inr app), EvUpdate app' upd]"
    with m1 m(2) show thesis by auto
  next
    fix read app es'
    assume rd: "live_app read" "AddFinalizer E read finalizerName = (app, False)"
      and lt: "live_trace E app r es'" and es1: "es1 = EvGetApplication req (Inr read) # es'"
    have w: "works_on E req es app" using rd es es1 by (auto simp: works_on_def)
    have m': "m \<in> set es'" using m1 m(2) es1 by auto
    from lt show thesis
      unfolding live_trace_def
    proof (elim disjE exE conjE)
      fix err f es2 es3
      assume "values_trace E app (Inl err) es2" "fail_trace app err f es3" "es' = es2 @ es3"
      then show thesis
        using m' m(2) no_writes(1) no_changes_fail change_is_write by fastforce
    next
      fix vs h es2 es3
      assume a: "values_trace E app (Inr (vs, h)) es2" "needsApply app h" "apply_trace app vs h r es3"
        "es' = es2 @ es3"
      then have "m \<in> set es3" using m' m(2) no_writes(1) change_is_write by fastforce
      with that(2) [OF w a(1-3) _ _ t] es es1 a(4) show thesis by auto
    next
      fix vs h es2 es3
      assume a: "values_trace E app (Inr (vs, h)) es2" "check_trace E app r es3" "es' = es2 @ es3"
      have q2: "\<forall>e\<in>set es2. \<not> any_write e" using no_writes(1) [OF a(1)] .
      then have m3: "m \<in> set es3" using m' m(2) a(3) change_is_write by auto
      from a(2) show thesis
        unfolding check_trace_def Let_def
      proof (elim disjE exE conjE)
        fix err assume "get_contract (metaName (Meta app)) (Namespace (Spec app)) (Inl err) es3"
        then show thesis using m3 m(2) no_writes(2) change_is_write by blast
      next
        fix rel g1 err g2
        assume "get_contract (metaName (Meta app)) (Namespace (Spec app)) (Inr rel) g1"
          "release_health_trace E (rrManifest rel) (Namespace (Spec app)) (Inl err) g2" "es3 = g1 @ g2"
        then show thesis using m3 m(2) no_writes(2,3) change_is_write by fastforce
      next
        fix rel g1 health detail g2 g3
        assume g: "get_contract (metaName (Meta app)) (Namespace (Spec app)) (Inr rel) g1"
          "release_health_trace E (rrManifest rel) (Namespace (Spec app)) (Inr (health, detail)) g2"
          "drive_trace app health r g3" "es3 = g1 @ g2 @ g3"
        have q: "\<forall>e\<in>set (g1 @ g2). \<not> any_write e" using no_writes(2) [OF g(1)] no_writes(3) [OF g(2)] by auto
        then have mg: "m \<in> set g3" using m3 m(2) g(4) change_is_write by auto
        then have u: "unhealthy_trace app g3"
          using drive_changes [OF g(3)] m(2) by blast
        show thesis
          by (rule that(3) [OF w u mg, of "EvGetApplication req (Inr read) # es2 @ g1 @ g2" tail])
            (use es es1 a(3) g(4) q q2 t rd in auto)
      qed
    qed
  qed
qed

section \<open>Which Application a pass works on\<close>

text \<open>A pass reads its Application once, first.\<close>

lemma scope_no_get: "in_scope ns e \<Longrightarrow> \<not> is_EvGetApplication e"
  by (cases e) simp_all

lemma gauge_event_no_get: "gauge_event e \<Longrightarrow> \<not> is_EvGetApplication e"
  by (cases e) simp_all

lemma live_read_no_get: "is_EvGetLive e \<Longrightarrow> \<not> is_EvGetApplication e"
  by (cases e) simp_all

lemma no_get_scoped: "\<forall>e\<in>set es. in_scope ns e \<Longrightarrow> \<forall>e\<in>set es. \<not> is_EvGetApplication e"
  using scope_no_get by blast

lemma no_get_uninstall: "uninstall_contract n ns x es \<Longrightarrow> \<forall>e\<in>set es. \<not> is_EvGetApplication e"
  by (rule no_get_scoped [of _ ns]) (simp add: uninstall_contract_def)

lemma no_get_install: "install_contract spec y es \<Longrightarrow> \<forall>e\<in>set es. \<not> is_EvGetApplication e"
  by (rule no_get_scoped [of _ "rsNamespace spec"]) (simp add: install_contract_def Let_def)

lemma no_get_get: "get_contract n ns z es \<Longrightarrow> \<forall>e\<in>set es. \<not> is_EvGetApplication e"
  by (rule no_get_scoped [of _ ns]) (simp add: get_contract_def)

lemma no_get_cleanup: "cleanup_trace E app x es \<Longrightarrow> \<forall>e\<in>set es. \<not> is_EvGetApplication e"
  unfolding cleanup_trace_def Let_def by (elim disjE exE conjE; simp)

lemma no_get_ensure: "ensure_trace ns x es \<Longrightarrow> \<forall>e\<in>set es. \<not> is_EvGetApplication e"
  unfolding ensure_trace_def by (elim disjE exE conjE; simp)

lemma no_get_fail: "fail_trace app cause f es \<Longrightarrow> \<forall>e\<in>set es. \<not> is_EvGetApplication e"
  unfolding fail_trace_def by (elim disjE exE conjE; simp)

lemma no_get_values: "values_trace E app v es \<Longrightarrow> \<forall>e\<in>set es. \<not> is_EvGetApplication e"
  unfolding values_trace_def by (cases "ValuesSecretRef (Spec app)"; clarsimp)

lemma no_get_degraded: "degraded_trace app d r es \<Longrightarrow> \<forall>e\<in>set es. \<not> is_EvGetApplication e"
  unfolding degraded_trace_def by (elim disjE exE conjE; simp)

lemma no_get_settle: "settle_trace app p d r es \<Longrightarrow> \<forall>e\<in>set es. \<not> is_EvGetApplication e"
  unfolding settle_trace_def by (elim disjE exE conjE; simp)

lemma no_get_health: "release_health_trace E m dns h es \<Longrightarrow> \<forall>e\<in>set es. \<not> is_EvGetApplication e"
  using release_health_reads live_read_no_get by blast

lemma no_get_gauge: "\<forall>e\<in>set es. gauge_event e \<Longrightarrow> \<forall>e\<in>set es. \<not> is_EvGetApplication e"
  using gauge_event_no_get by blast

lemmas no_get_lemmas = no_get_uninstall no_get_install no_get_get no_get_cleanup no_get_ensure no_get_fail
  no_get_values no_get_degraded no_get_settle no_get_health no_get_gauge

lemma delete_no_get: "delete_trace E app x es \<Longrightarrow> \<forall>e\<in>set es. \<not> is_EvGetApplication e"
  unfolding delete_trace_def Let_def
  by (elim disjE exE conjE; (drule no_get_uninstall)?; (drule no_get_cleanup)?; simp add: ball_Un)

lemma unhealthy_no_get: "unhealthy_trace app es \<Longrightarrow> \<forall>e\<in>set es. \<not> is_EvGetApplication e"
  unfolding unhealthy_trace_def
  by (elim disjE exE conjE; (drule no_get_scoped)?; (drule no_get_degraded)?; simp add: ball_Un)

lemma no_get_success: "\<forall>e\<in>set (success_signal app). \<not> is_EvGetApplication e"
  by (simp add: success_signal_def)

lemma drive_no_get: "drive_trace app health r es \<Longrightarrow> \<forall>e\<in>set es. \<not> is_EvGetApplication e"
  unfolding drive_trace_def
  by (elim disjE exE conjE; (drule no_get_settle)?; (drule unhealthy_no_get)?;
      simp add: ball_Un no_get_success)

lemma check_no_get: "check_trace E app r es \<Longrightarrow> \<forall>e\<in>set es. \<not> is_EvGetApplication e"
  unfolding check_trace_def Let_def
  by (elim disjE exE conjE; drule no_get_get; (drule no_get_health)?; (drule drive_no_get)?; simp add: ball_Un)

lemma apply_no_get: "apply_trace app vs h r es \<Longrightarrow> \<forall>e\<in>set es. \<not> is_EvGetApplication e"
  unfolding apply_trace_def Let_def
  by (elim disjE exE conjE; drule no_get_ensure; (drule no_get_install)?; (drule no_get_fail)?;
      simp add: ball_Un)

lemma live_no_get: "live_trace E app r es \<Longrightarrow> \<forall>e\<in>set es. \<not> is_EvGetApplication e"
  unfolding live_trace_def
  by (elim disjE exE conjE; drule no_get_values; (drule no_get_fail)?; (drule apply_no_get)?;
      (drule check_no_get)?; simp add: ball_Un)

text \<open>A pass reads no Application but the one it was asked for.\<close>

lemma read_key:
  assumes "reconcile_trace E req r es" "EvGetApplication k x \<in> set es"
  shows "k = req"
proof -
  obtain es1 tail where b: "body_trace E req r es1" and t: "\<forall>e\<in>set tail. gauge_event e"
      and es: "es = es1 @ tail"
    using assms(1) unfolding reconcile_trace_def by blast
  have m: "EvGetApplication k x \<in> set es1" using assms(2) es no_get_gauge [OF t] by auto
  from b show ?thesis
    unfolding body_trace_def
  proof (elim disjE exE conjE)
    fix a e es' assume "delete_trace E a e es'" "es1 = EvGetApplication req (Inr a) # es'"
    with m delete_no_get show ?thesis by fastforce
  next
    fix a app' es' assume "live_trace E app' r es'" "es1 = EvGetApplication req (Inr a) # es'"
    with m live_no_get show ?thesis by fastforce
  qed (use m in auto)
qed

text \<open>The branch a pass takes, from the Application it read.\<close>

lemma reconcile_branch:
  assumes "reconcile_trace E req r es" "EvGetApplication req (Inr app) \<in> set es"
  obtains e es1 tail where "\<not> live_app app" "delete_trace E app e es1" "r = (emptyResult, e)"
      "es = EvGetApplication req (Inr app) # es1 @ tail" "\<forall>e\<in>set tail. gauge_event e"
  | app' upd tail where "live_app app" "AddFinalizer E app finalizerName = (app', True)"
      "es = EvGetApplication req (Inr app) # EvUpdate app' upd # tail" "r = (emptyResult, update_answer upd)"
      "\<forall>e\<in>set tail. gauge_event e"
  | app' es1 tail where "live_app app" "AddFinalizer E app finalizerName = (app', False)"
      "live_trace E app' r es1" "es = EvGetApplication req (Inr app) # es1 @ tail"
      "\<forall>e\<in>set tail. gauge_event e"
proof -
  obtain es1 tail where b: "body_trace E req r es1" and t: "\<forall>e\<in>set tail. gauge_event e"
      and es: "es = es1 @ tail"
    using assms(1) unfolding reconcile_trace_def by blast
  have m: "EvGetApplication req (Inr app) \<in> set es1"
    using assms(2) es no_get_lemmas(11) [OF t] by auto
  from b show thesis
    unfolding body_trace_def
  proof (elim disjE exE conjE)
    fix err assume "es1 = [EvGetApplication req (Inl err)]"
    with m show thesis by simp
  next
    fix a e es' assume d: "\<not> live_app a" "delete_trace E a e es'"
      "es1 = EvGetApplication req (Inr a) # es'" "r = (emptyResult, e)"
    then have "a = app" using m delete_no_get [OF d(2)] by auto
    with that(1) d es t show thesis by auto
  next
    fix a app' upd assume d: "live_app a" "AddFinalizer E a finalizerName = (app', True)"
      "es1 = [EvGetApplication req (Inr a), EvUpdate app' upd]" "r = (emptyResult, update_answer upd)"
    then have "a = app" using m by auto
    with that(2) d es t show thesis by auto
  next
    fix a app' es' assume d: "live_app a" "AddFinalizer E a finalizerName = (app', False)"
      "live_trace E app' r es'" "es1 = EvGetApplication req (Inr a) # es'"
    then have "a = app" using m live_no_get [OF d(3)] by auto
    with that(3) d es t show thesis by auto
  qed
qed

section \<open>The Helm changes of a branch\<close>

lemma cleanup_mutations: "cleanup_trace E app r es \<Longrightarrow> filter sdk_mutation es = []"
  by (auto simp: cleanup_trace_def Let_def)

lemma ensure_mutations: "ensure_trace n r es \<Longrightarrow> filter sdk_mutation es = []"
  by (auto simp: ensure_trace_def)

lemma fail_mutations: "fail_trace app cause r es \<Longrightarrow> filter sdk_mutation es = []"
  by (auto simp: fail_trace_def)

lemma quiet_mutations: "\<forall>e\<in>set es. \<not> any_write e \<Longrightarrow> filter sdk_mutation es = []"
  using mutation_is_change change_is_write by (auto simp: filter_empty_conv)

lemma delete_mutations:
  "delete_trace E app r es \<Longrightarrow> filter sdk_mutation es = [] \<or>
     (\<exists>res. filter sdk_mutation es = [EvUninstall (uninstall_action (Namespace (Spec app))) (metaName (Meta app)) res])"
  unfolding delete_trace_def Let_def
  by (auto simp: uninstall_contract_def dest: cleanup_mutations)

definition is_apply_action :: "Application \<Rightarrow> helm_values option \<Rightarrow> event \<Rightarrow> bool" where
  "is_apply_action app vs e \<longleftrightarrow>
     (let ns = Namespace (Spec app); n = metaName (Meta app); v = vals_of (release_spec app vs) in
      (\<exists>ch raw. e = EvUpgrade (upgrade_action ns) n ch v raw) \<or>
      (\<exists>ch raw. e = EvInstall (install_action n ns) ch v raw))"

lemma install_mutations:
  "install_contract (release_spec app vs) r es \<Longrightarrow> filter sdk_mutation es = [] \<or>
     (\<exists>e. filter sdk_mutation es = [e] \<and> is_apply_action app vs e)"
  unfolding install_contract_def is_apply_action_def Let_def by (auto simp: release_spec_def)

lemma apply_mutations:
  "apply_trace app vs h r es \<Longrightarrow> filter sdk_mutation es = [] \<or>
     (\<exists>e. filter sdk_mutation es = [e] \<and> is_apply_action app vs e)"
  unfolding apply_trace_def Let_def
  by (elim disjE exE conjE; drule ensure_mutations; (drule fail_mutations)?; (drule install_mutations)?) auto

lemma unhealthy_mutations:
  "unhealthy_trace app es \<Longrightarrow> filter sdk_mutation es = [] \<or>
     (\<exists>a n res. filter sdk_mutation es = [EvRollback a n res])"
  unfolding unhealthy_trace_def by (auto dest: degraded_no_mutation)

lemma filter_mid:
  "\<forall>e\<in>set pre. \<not> any_write e \<Longrightarrow> \<forall>e\<in>set tail. gauge_event e \<Longrightarrow>
   filter sdk_mutation (pre @ es @ tail) = filter sdk_mutation es"
  by (simp only: filter_append quiet_mutations [OF no_writes(4)] quiet_mutations append_Nil append_Nil2)

lemma reconcile_mutations:
  assumes "reconcile_trace E req r es"
  shows "length (filter sdk_mutation es) \<le> 1"
proof (cases "filter sdk_mutation es = []")
  case False
  then obtain m where m: "m \<in> set es" "sdk_mutation m" by (auto simp: filter_empty_conv)
  from assms m(1) mutation_is_change [OF m(2)] show ?thesis
  proof (cases rule: change_cases)
    case (deletion app e es1 tail)
    have "filter sdk_mutation es = filter sdk_mutation es1"
      using filter_mid [of "[EvGetApplication req (Inr app)]" tail es1] deletion by simp
    with delete_mutations [OF deletion(2)] show ?thesis by auto
  next
    case (release app vs h es1 es2 tail)
    then obtain read where "es = (EvGetApplication req (Inr read) # es1) @ es2 @ tail" by auto
    moreover have "\<forall>e\<in>set (EvGetApplication req (Inr read) # es1). \<not> any_write e"
      using no_writes(1) [OF release(2)] by simp
    ultimately have "filter sdk_mutation es = filter sdk_mutation es2"
      using filter_mid release(7) by metis
    with apply_mutations [OF release(4)] show ?thesis by auto
  next
    case (rollback app pre es3 tail)
    then have "filter sdk_mutation es = filter sdk_mutation es3" using filter_mid by metis
    with unhealthy_mutations [OF rollback(2)] show ?thesis by auto
  qed
qed simp

section \<open>Where a status write comes from\<close>

lemma no_status_writes:
  "\<forall>e\<in>set es. \<not> any_write e \<Longrightarrow> EvStatusUpdate sent upd \<notin> set es"
  by fastforce

lemma delete_no_status: "delete_trace E app x es \<Longrightarrow> EvStatusUpdate sent upd \<notin> set es"
proof -
  have scoped: "EvStatusUpdate sent upd \<notin> set u" if "uninstall_contract n ns y u" for u n ns y
    using that unfolding uninstall_contract_def by force
  have cleaned: "EvStatusUpdate sent upd \<notin> set c" if "cleanup_trace E app y c" for c y
    using that unfolding cleanup_trace_def Let_def by (elim disjE exE conjE) simp_all
  show "delete_trace E app x es \<Longrightarrow> ?thesis"
    unfolding delete_trace_def Let_def by (elim disjE exE conjE; (drule scoped)?; (drule cleaned)?; simp)
qed

text \<open>
  A pass that writes a status took one of three ways: the values failed, the release was
  applied, or its health was checked.
\<close>

lemma write_cases [consumes 2, case_names bad_values applied_now checked]:
  assumes tr: "reconcile_trace E req r es" and m: "EvStatusUpdate sent upd \<in> set es"
  obtains app read err f es1 es2 tail where "AddFinalizer E read finalizerName = (app, False)"
      "values_trace E app (Inl err) es1" "fail_trace app err f es2" "EvStatusUpdate sent upd \<in> set es2"
      "es = EvGetApplication req (Inr read) # es1 @ es2 @ tail" "\<forall>e\<in>set tail. gauge_event e"
      "r = (emptyResult, Some f)"
  | app read vs h es1 es2 tail where "AddFinalizer E read finalizerName = (app, False)"
      "values_trace E app (Inr (vs, h)) es1" "needsApply app h" "apply_trace app vs h r es2"
      "EvStatusUpdate sent upd \<in> set es2"
      "es = EvGetApplication req (Inr read) # es1 @ es2 @ tail" "\<forall>e\<in>set tail. gauge_event e"
  | app read vs h es1 rel g health detail hs es2 tail where "AddFinalizer E read finalizerName = (app, False)"
      "values_trace E app (Inr (vs, h)) es1" "\<not> needsApply app h"
      "get_contract (metaName (Meta app)) (Namespace (Spec app)) (Inr rel) g"
      "release_health_trace E (rrManifest rel) (Namespace (Spec app)) (Inr (health, detail)) hs"
      "drive_trace app health r es2" "EvStatusUpdate sent upd \<in> set es2"
      "es = EvGetApplication req (Inr read) # es1 @ g @ hs @ es2 @ tail" "\<forall>e\<in>set tail. gauge_event e"
proof -
  obtain es1 tail where b: "body_trace E req r es1" and t: "\<forall>e\<in>set tail. gauge_event e"
      and es: "es = es1 @ tail"
    using tr unfolding reconcile_trace_def by blast
  have m1: "EvStatusUpdate sent upd \<in> set es1" using m es no_status_writes [OF no_writes(4) [OF t]] by auto
  from b show thesis
    unfolding body_trace_def
  proof (elim disjE exE conjE)
    fix app e es' assume "delete_trace E app e es'" "es1 = EvGetApplication req (Inr app) # es'"
    with m1 delete_no_status show thesis by fastforce
  next
    fix read app es'
    assume rd: "AddFinalizer E read finalizerName = (app, False)"
      and lt: "live_trace E app r es'" and es1: "es1 = EvGetApplication req (Inr read) # es'"
    have m': "EvStatusUpdate sent upd \<in> set es'" using m1 es1 by simp
    from lt show thesis
      unfolding live_trace_def
    proof (elim disjE exE conjE)
      fix err f es2 es3
      assume a: "values_trace E app (Inl err) es2" "fail_trace app err f es3" "es' = es2 @ es3" "r = (emptyResult, Some f)"
      with m' no_status_writes [OF no_writes(1) [OF a(1)]] have "EvStatusUpdate sent upd \<in> set es3" by auto
      from that(1) [OF rd a(1,2) this _ t a(4)] es es1 a(3) show thesis by simp
    next
      fix vs h es2 es3
      assume a: "values_trace E app (Inr (vs, h)) es2" "needsApply app h" "apply_trace app vs h r es3" "es' = es2 @ es3"
      with m' no_status_writes [OF no_writes(1) [OF a(1)]] have "EvStatusUpdate sent upd \<in> set es3" by auto
      from that(2) [OF rd a(1-3) this _ t] es es1 a(4) show thesis by simp
    next
      fix vs h es2 es3
      assume a: "values_trace E app (Inr (vs, h)) es2" "\<not> needsApply app h" "check_trace E app r es3" "es' = es2 @ es3"
      with m' no_status_writes [OF no_writes(1) [OF a(1)]] have m3: "EvStatusUpdate sent upd \<in> set es3" by auto
      from a(3) show thesis
        unfolding check_trace_def Let_def
      proof (elim disjE exE conjE)
        fix err assume "get_contract (metaName (Meta app)) (Namespace (Spec app)) (Inl err) es3"
        with m3 no_status_writes [OF no_writes(2)] show thesis by blast
      next
        fix rel g1 err g2
        assume g: "get_contract (metaName (Meta app)) (Namespace (Spec app)) (Inr rel) g1"
          "release_health_trace E (rrManifest rel) (Namespace (Spec app)) (Inl err) g2" "es3 = g1 @ g2"
        with m3 no_status_writes [OF no_writes(2) [OF g(1)]] no_status_writes [OF no_writes(3) [OF g(2)]]
        show thesis by simp
      next
        fix rel g1 health detail g2 g3
        assume g: "get_contract (metaName (Meta app)) (Namespace (Spec app)) (Inr rel) g1"
          "release_health_trace E (rrManifest rel) (Namespace (Spec app)) (Inr (health, detail)) g2"
          "drive_trace app health r g3" "es3 = g1 @ g2 @ g3"
        with m3 no_status_writes [OF no_writes(2) [OF g(1)]] no_status_writes [OF no_writes(3) [OF g(2)]]
        have "EvStatusUpdate sent upd \<in> set g3" by simp
        from that(3) [OF rd a(1,2) g(1-3) this _ t] es es1 a(4) g(4) show thesis by simp
      qed
    qed
  qed (use m1 in simp_all)
qed

end
