(* ===== verification/Cache.thy ===== *)
theory Cache
  imports ControllerTraces "HOL-Library.Multiset"
begin

text \<open>
  The cache behind the client's \<open>List\<close>, described by what it holds and by the field indexes
  that \<open>SetupWithManager\<close> registers.
\<close>

definition list_matches :: "ListOptions \<Rightarrow> Application \<Rightarrow> bool" where
  "list_matches opts app \<longleftrightarrow>
     (case InNamespace opts of None \<Rightarrow> True | Some ns \<Rightarrow> metaNamespace (Meta app) = ns) \<and>
     (\<forall>(k, v)\<in>set (MatchingFields opts). v \<in> set (field_index k app))"

text \<open>
  \<open>client.List\<close> on a cache that holds \<open>apps w\<close>: when it answers, it answers the objects that
  match the options, each once, in some order.
\<close>

definition list_law :: "'w env \<Rightarrow> ('w \<Rightarrow> Application list) \<Rightarrow> bool" where
  "list_law E apps \<longleftrightarrow> (\<forall>opts w items w'. ListApplications E opts w = (Inr items, w') \<longrightarrow>
     mset items = mset (filter (list_matches opts) (apps w)))"

lemma list_lawD:
  "list_law E apps \<Longrightarrow> ListApplications E opts w = (Inr items, w') \<Longrightarrow>
   mset items = mset (filter (list_matches opts) (apps w))"
  unfolding list_law_def by blast

lemma list_law_set:
  "list_law E apps \<Longrightarrow> ListApplications E opts w = (Inr items, w') \<Longrightarrow>
   set items = {a \<in> set (apps w). list_matches opts a}"
  by (drule (1) list_lawD, drule arg_cong [of _ _ set_mset]) simp

lemma keys_differ: "namespaceIndexKey \<noteq> secretRefIndexKey"
  by (simp add: namespaceIndexKey_def secretRefIndexKey_def)

lemma matches_namespace: "list_matches (namespace_list ns) app \<longleftrightarrow> Namespace (Spec app) = ns"
  by (auto simp: list_matches_def namespace_list_def field_index_def namespaceIndex_def)

lemma matches_secret:
  "list_matches \<lparr>InNamespace = Some ns, MatchingFields = [(secretRefIndexKey, n)]\<rparr> app \<longleftrightarrow>
     metaNamespace (Meta app) = ns \<and> n \<noteq> '''' \<and>
     (\<exists>ref. ValuesSecretRef (Spec app) = Some ref \<and> refName ref = n)"
  using keys_differ
  by (cases "ValuesSecretRef (Spec app)") (auto simp: list_matches_def field_index_def secretRefIndex_def)

end
