(* ===== verification/Demo.thy ===== *)
theory Demo
  imports Cache
begin

text \<open>
  One concrete environment that behaves as the documentation of the external parts says:
  a cluster with one Application, one target namespace, one values Secret and one Helm
  release history. It is no part of the program and no theorem about the program rests on
  it; it shows that the hypotheses of those theorems can be met, by running the model.

  The health of a live workload is a parameter: a function of the release revision that is
  deployed and of the clock.
\<close>

record demo =
  dApp :: "Application option"
  dNamespace :: "NamespaceObj option"
  dSecret :: "Secret option"
  dReleases :: "ReleaseV1 list"
  dClock :: time
  dVersion :: int

definition demo_missing :: go_error where
  "demo_missing = ExtErr NotFoundErr ''not found''"

definition demo_conflict :: go_error where
  "demo_conflict = ExtErr OtherErr ''conflict''"

definition demo_revision :: "demo \<Rightarrow> int" where
  "demo_revision w = (case rev (dReleases w) of [] \<Rightarrow> 0 | r # _ \<Rightarrow> relVersion r)"

section \<open>The API server\<close>

text \<open>A write is accepted when it carries the current resource version, which then changes.\<close>

definition demo_store :: "(Application \<Rightarrow> Application \<Rightarrow> Application) \<Rightarrow> Application \<Rightarrow> demo \<Rightarrow>
    (go_error + Application) \<times> demo" where
  "demo_store f app w = (case dApp w of
     None \<Rightarrow> (Inl demo_missing, w)
   | Some cur \<Rightarrow>
       (if ResourceVersion (Meta cur) \<noteq> ResourceVersion (Meta app) then (Inl demo_conflict, w)
        else (let new = f app cur;
                  new' = new\<lparr>Meta := (Meta new)\<lparr>ResourceVersion := fmt_d (dVersion w + 1)\<rparr>\<rparr>
              in (Inr new', w\<lparr>dApp := Some new', dVersion := dVersion w + 1\<rparr>))))"

definition demo_get :: "NamespacedName \<Rightarrow> demo \<Rightarrow> (go_error + Application) \<times> demo" where
  "demo_get k w = (case dApp w of
     Some app \<Rightarrow> (if app_key app = k then (Inr app, w) else (Inl demo_missing, w))
   | None \<Rightarrow> (Inl demo_missing, w))"

definition demo_option :: "'a option \<Rightarrow> demo \<Rightarrow> (go_error + 'a) \<times> demo" where
  "demo_option x w = ((case x of None \<Rightarrow> Inl demo_missing | Some v \<Rightarrow> Inr v), w)"

definition demo_apps :: "demo \<Rightarrow> Application list" where
  "demo_apps w = (case dApp w of None \<Rightarrow> [] | Some app \<Rightarrow> [app])"

definition demo_list :: "ListOptions \<Rightarrow> demo \<Rightarrow> (go_error + Application list) \<times> demo" where
  "demo_list opts w = (Inr (filter (list_matches opts) (demo_apps w)), w)"

text \<open>The live object of a workload carries its readiness in a field.\<close>

fun kstatus_text :: "kstatus \<Rightarrow> string" where
  "kstatus_text InProgressStatus = ''InProgress''"
| "kstatus_text FailedStatus = ''Failed''"
| "kstatus_text CurrentStatus = ''Current''"
| "kstatus_text TerminatingStatus = ''Terminating''"
| "kstatus_text NotFoundStatus = ''NotFound''"
| "kstatus_text UnknownStatus = ''Unknown''"

definition demo_field :: "string \<Rightarrow> unstructured \<Rightarrow> string" where
  "demo_field k u = (case map_of u k of Some (YStr v) \<Rightarrow> v | _ \<Rightarrow> '''')"

definition demo_live :: "(int \<Rightarrow> time \<Rightarrow> kstatus) \<Rightarrow> demo \<Rightarrow> (go_error + unstructured) \<times> demo" where
  "demo_live health w =
     (Inr [(''status'', YStr (kstatus_text (health (demo_revision w) (dClock w))))], w)"

definition demo_compute :: "unstructured \<Rightarrow> go_error + kstatus \<times> string" where
  "demo_compute u =
     (let s = demo_field ''status'' u in
      Inr (if s = ''Failed'' then FailedStatus else if s = ''Current'' then CurrentStatus
           else InProgressStatus, s))"

section \<open>Helm\<close>

definition demo_release :: "string \<Rightarrow> int \<Rightarrow> string \<Rightarrow> ReleaseV1" where
  "demo_release n v m = \<lparr>relName = n, relVersion = v, relManifest = m, relInfoStatus = Some ''deployed''\<rparr>"

definition demo_history :: "demo \<Rightarrow> go_error option \<times> demo" where
  "demo_history w = ((if dReleases w = [] then Some (ExtErr ReleaseNotFoundErr ''release: not found'') else None), w)"

definition demo_push :: "ReleaseV1 \<Rightarrow> demo \<Rightarrow> (go_error + Releaser) \<times> demo" where
  "demo_push r w = (Inr (V1Release r), w\<lparr>dReleases := dReleases w @ [r]\<rparr>)"

definition demo_rollback :: "string \<Rightarrow> demo \<Rightarrow> go_error option \<times> demo" where
  "demo_rollback n w = (case rev (dReleases w) of
     newest # prev # _ \<Rightarrow>
       (None, w\<lparr>dReleases := dReleases w @ [demo_release n (relVersion newest + 1) (relManifest prev)]\<rparr>)
   | _ \<Rightarrow> (Some (ExtErr OtherErr ''release has no previous revision''), w))"

definition demo_latest :: "demo \<Rightarrow> (go_error + Releaser) \<times> demo" where
  "demo_latest w = (case rev (dReleases w) of
     r # _ \<Rightarrow> (Inr (V1Release r), w)
   | [] \<Rightarrow> (Inl (ExtErr ReleaseNotFoundErr ''release: not found''), w))"

section \<open>Libraries\<close>

fun demo_set_condition :: "time \<Rightarrow> Condition list \<Rightarrow> Condition \<Rightarrow> Condition list" where
  "demo_set_condition t [] c = [c\<lparr>condLastTransitionTime := Some t\<rparr>]"
| "demo_set_condition t (d # ds) c =
     (if condType d = condType c
      then c\<lparr>condLastTransitionTime :=
             (if condStatus d = condStatus c then condLastTransitionTime d else Some t)\<rparr> # ds
      else d # demo_set_condition t ds c)"

definition demo_finalizers :: "(string list \<Rightarrow> string list) \<Rightarrow> Application \<Rightarrow> Application" where
  "demo_finalizers f app = app\<lparr>Meta := (Meta app)\<lparr>Finalizers := f (Finalizers (Meta app))\<rparr>\<rparr>"

definition demo_env :: "(int \<Rightarrow> time \<Rightarrow> kstatus) \<Rightarrow> demo env" where
  "demo_env health =
    \<lparr>Now = dClock,
     GetApplication = demo_get,
     GetNamespace = (\<lambda>_ w. demo_option (dNamespace w) w),
     GetSecret = (\<lambda>_ w. demo_option (dSecret w) w),
     GetLive = (\<lambda>_ _. demo_live health),
     ListApplications = demo_list,
     UpdateApplication = demo_store (\<lambda>app cur. app\<lparr>Status := Status cur\<rparr>),
     UpdateStatus = demo_store (\<lambda>app cur. cur\<lparr>Status := Status app\<rparr>),
     CreateNamespace = (\<lambda>ns w. (None, w\<lparr>dNamespace := Some ns\<rparr>)),
     DeleteNamespace = (\<lambda>ns w. (None, w\<lparr>dNamespace := None\<rparr>)),
     ActionInit = (\<lambda>_ w. (None, w)),
     LocateChart = (\<lambda>_ name w. (Inr name, w)),
     LoadChart = (\<lambda>path w. (Inr (Chart [(''Chart.yaml'', path)]), w)),
     RunHistory = (\<lambda>_ _. demo_history),
     RunUpgrade = (\<lambda>_ n _ _ w. demo_push (demo_release n (demo_revision w + 1) ''web'') w),
     RunInstall = (\<lambda>a _ _. demo_push (demo_release (instReleaseName a) 1 ''web'')),
     RunRollback = (\<lambda>_ n. demo_rollback n),
     RunGet = (\<lambda>_ _. demo_latest),
     RunUninstall = (\<lambda>_ _ w. (None, w\<lparr>dReleases := []\<rparr>)),
     ReadValues = (\<lambda>raw. Inr (Some [(''raw'', YStr raw)])),
     DecodeManifest = (\<lambda>m. [Inr [(''kind'', YStr ''Deployment''), (''name'', YStr m)]]),
     GetKind = demo_field ''kind'',
     GetName = demo_field ''name'',
     GetObjNamespace = demo_field ''namespace'',
     GVKOf = (\<lambda>u. \<lparr>gvkGroup = ''apps'', gvkVersion = ''v1'', gvkKind = demo_field ''kind'' u\<rparr>),
     ComputeStatus = demo_compute,
     SetStatusCondition = demo_set_condition,
     AddFinalizer = (\<lambda>app f. if f \<in> set (Finalizers (Meta app)) then (app, False)
                             else (demo_finalizers (\<lambda>fs. fs @ [f]) app, True)),
     ContainsFinalizer = (\<lambda>app f. f \<in> set (Finalizers (Meta app))),
     RemoveFinalizer = (\<lambda>app f. demo_finalizers (filter (\<lambda>g. g \<noteq> f)) app),
     IgnoreNotFound = (\<lambda>e. if errors_Is e NotFoundErr then None else Some e),
     Sha256Sum = (\<lambda>raw. raw),
     RangeOrder = (\<lambda>m. m)\<rparr>"

section \<open>It obeys the documented laws\<close>

lemma demo_finalizer_laws: "finalizer_laws (demo_env health)"
  unfolding finalizer_laws_def demo_env_def demo_finalizers_def by auto

lemma demo_ignore_law: "ignore_law (demo_env health)"
  by (simp add: ignore_law_def demo_env_def)

lemma demo_range_law: "range_law (demo_env health)"
  by (simp add: range_law_def demo_env_def)

lemma demo_list_law: "list_law (demo_env health) demo_apps"
  by (simp add: list_law_def demo_env_def demo_list_def)

lemma demo_set_find_same:
  "\<exists>d. find_condition (condType c) (demo_set_condition t cs c) = Some d \<and> same_condition d c"
  by (induction cs) (auto simp: find_condition_def same_condition_def)

lemma demo_set_find_other:
  "k \<noteq> condType c \<Longrightarrow> find_condition k (demo_set_condition t cs c) = find_condition k cs"
  by (induction cs) (auto simp: find_condition_def)

lemma demo_set_same:
  "find_condition (condType c) cs = Some d \<Longrightarrow> same_condition d c \<Longrightarrow> demo_set_condition t cs c = cs"
  by (induction cs) (auto simp: find_condition_def same_condition_def)

lemma demo_condition_laws: "condition_laws (demo_env health)"
  unfolding condition_laws_def demo_env_def
  by (auto simp: demo_set_find_same demo_set_find_other demo_set_same)

section \<open>Scenarios\<close>

text \<open>An Application at generation 3 whose release is deployed at some revision.\<close>

definition demo_status :: "ApplicationPhase \<Rightarrow> int \<Rightarrow> int \<Rightarrow> ApplicationStatus" where
  "demo_status p revision failed =
     \<lparr>Phase = p, Conditions = [], ObservedGeneration = 3, HelmReleaseName = ''web'',
      HelmRevision = revision, LastAppliedValuesHash = '''', LastFailedRevision = failed,
      LastDeployStartTime = Some 0\<rparr>"

definition demo_app :: "ApplicationStatus \<Rightarrow> Application" where
  "demo_app st =
     \<lparr>Meta = \<lparr>metaName = ''web'', metaNamespace = ''default'', UID = ''u1'', Generation = 3,
              ResourceVersion = ''7'', DeletionTimestamp = None, Finalizers = [finalizerName]\<rparr>,
      Spec = \<lparr>ChartName = ''podinfo'', RepoURL = ''https://charts'', Version = ''6.7.1'',
              Namespace = ''demo'', ValuesSecretRef = None, ProgressDeadlineSeconds = 300\<rparr>,
      Status = st\<rparr>"

definition demo_req :: NamespacedName where
  "demo_req = \<lparr>nnNamespace = ''default'', nnName = ''web''\<rparr>"

definition demo_world :: "Application \<Rightarrow> int \<Rightarrow> time \<Rightarrow> demo" where
  "demo_world app revisions clock =
     \<lparr>dApp = Some app, dNamespace = Some (operator_namespace ''demo''), dSecret = None,
      dReleases = map (\<lambda>v. demo_release ''web'' v ''web'') [1..revisions], dClock = clock,
      dVersion = 7\<rparr>"

definition demo_state :: "Application \<Rightarrow> int \<Rightarrow> time \<Rightarrow> (demo, event) st" where
  "demo_state app revisions clock = \<lparr>world = demo_world app revisions clock, log = []\<rparr>"

end
