(* ===== verification/Safety.thy ===== *)
theory Safety
  imports ReconcileFacts Demo
begin

text \<open>
  Safety of a single pass, for every environment and every answer it gives: what must have
  happened before the reconciler changes anything outside the Application object.
\<close>

section \<open>One change of Helm\<close>

text \<open>
  C1. A pass changes a Helm release at most once: of all the install, upgrade, rollback
  and uninstall actions of the SDK it runs at most one, and it runs it once.
\<close>

theorem one_helm_change: "length (filter sdk_mutation (reconcile_events E req s)) \<le> 1"
  by (rule reconcile_mutations) (rule reconcile_events_trace)

section \<open>The finalizer comes first\<close>

lemma delete_contains: "delete_trace E app r es \<Longrightarrow> es \<noteq> [] \<Longrightarrow> ContainsFinalizer E app finalizerName"
  by (auto simp: delete_trace_def Let_def)

text \<open>
  C2. Nothing outside the Application object is ever created, changed or deleted, no
  namespace and no Helm release, unless the Application that the pass read already carries
  the operator's finalizer.
\<close>

theorem finalizer_before_changes:
  assumes "finalizer_laws E" "m \<in> set (reconcile_events E req s)" "cluster_change m"
  shows "\<exists>app. EvGetApplication req (Inr app) \<in> set (reconcile_events E req s) \<and>
    finalizerName \<in> set (Finalizers (Meta app))"
proof -
  note added = add_finalizer_False [OF assms(1)]
  from reconcile_events_trace assms(2,3) show ?thesis
  proof (cases rule: change_cases)
    case (deletion app e es1 tail)
    then have "ContainsFinalizer E app finalizerName" by (auto dest: delete_contains)
    then have "finalizerName \<in> set (Finalizers (Meta app))"
      by (simp add: contains_finalizer_iff [OF assms(1)])
    with deletion(5) show ?thesis by (metis list.set_intros(1))
  next
    case release
    then show ?thesis using added unfolding works_on_def by blast
  next
    case rollback
    then show ?thesis using added unfolding works_on_def by blast
  qed
qed

theorem finalizer_before_changes_witness:
  "\<exists>app. EvGetApplication demo_req (Inr app) \<in> set (reconcile_events (demo_env (\<lambda>_ _. FailedStatus)) demo_req
      (demo_state (demo_app (demo_status PhaseDeploying 3 0)) 3 10)) \<and>
    finalizerName \<in> set (Finalizers (Meta app))"
proof -
  have "EvRollback (rollback_action ''demo'') ''web'' None \<in> set (reconcile_events (demo_env (\<lambda>_ _. FailedStatus))
      demo_req (demo_state (demo_app (demo_status PhaseDeploying 3 0)) 3 10))"
    by code_simp
  from finalizer_before_changes [OF demo_finalizer_laws this] show ?thesis by simp
qed

section \<open>Namespaces are deleted last, and only ours\<close>

definition uninstalled_in :: "Application \<Rightarrow> event list \<Rightarrow> bool" where
  "uninstalled_in app es \<longleftrightarrow>
     (let ns = Namespace (Spec app); n = metaName (Meta app) in
      EvUninstall (uninstall_action ns) n None \<in> set es \<or>
      (\<exists>err. EvHistory (config_for ns) n (Some err) \<in> set es \<and> errors_Is err ReleaseNotFoundErr))"

lemma contract_uninstalled:
  "uninstall_contract (metaName (Meta app)) (Namespace (Spec app)) None es \<Longrightarrow> uninstalled_in app es"
proof -
  assume c: "uninstall_contract (metaName (Meta app)) (Namespace (Spec app)) None es"
  then consider
      err where "EvHistory (config_for (Namespace (Spec app))) (metaName (Meta app)) (Some err) \<in> set es"
        "errors_Is err ReleaseNotFoundErr"
    | "filter sdk_mutation es = [EvUninstall (uninstall_action (Namespace (Spec app))) (metaName (Meta app)) None]"
    unfolding uninstall_contract_def by blast
  then show ?thesis
  proof cases
    case 2
    then have "EvUninstall (uninstall_action (Namespace (Spec app))) (metaName (Meta app)) None
        \<in> set (filter sdk_mutation es)" by simp
    then show ?thesis by (simp add: uninstalled_in_def)
  qed (auto simp: uninstalled_in_def Let_def)
qed

lemma scoped_no_delete: "\<forall>e\<in>set es. in_scope ns e \<Longrightarrow> EvDeleteNamespace obj res \<notin> set es"
  by force

lemma uninstall_no_delete: "uninstall_contract n ns r es \<Longrightarrow> EvDeleteNamespace obj res \<notin> set es"
  by (rule scoped_no_delete [of _ ns]) (simp add: uninstall_contract_def)

lemma install_no_delete: "install_contract spec r es \<Longrightarrow> EvDeleteNamespace obj res \<notin> set es"
  by (rule scoped_no_delete [of _ "rsNamespace spec"]) (simp add: install_contract_def Let_def)

lemma fail_no_delete: "fail_trace app cause r es \<Longrightarrow> EvDeleteNamespace obj res \<notin> set es"
  unfolding fail_trace_def by (elim exE conjE) simp

lemma ensure_no_delete: "ensure_trace n r es \<Longrightarrow> EvDeleteNamespace obj res \<notin> set es"
  unfolding ensure_trace_def by (elim disjE exE conjE; simp)

lemma degraded_no_delete: "degraded_trace app d r es \<Longrightarrow> EvDeleteNamespace obj res \<notin> set es"
  unfolding degraded_trace_def by (elim disjE exE conjE; simp)

lemma apply_no_delete: "apply_trace app vs h r es \<Longrightarrow> EvDeleteNamespace obj res \<notin> set es"
  unfolding apply_trace_def Let_def
  by (elim disjE exE conjE; drule ensure_no_delete; (drule install_no_delete)?; (drule fail_no_delete)?; simp)

lemma unhealthy_no_delete: "unhealthy_trace app es \<Longrightarrow> EvDeleteNamespace obj res \<notin> set es"
  unfolding unhealthy_trace_def
  by (elim disjE exE conjE; (drule scoped_no_delete)?; (drule degraded_no_delete)?; simp)

lemma cleanup_deletes:
  "cleanup_trace E app x es \<Longrightarrow> EvDeleteNamespace obj res \<in> set es \<Longrightarrow>
   \<exists>items. \<not> others_alive app items \<and>
     go_lookup (nsAnnotations obj) managedByAnnotation = managedByValue \<and>
     es = [EvGetNamespace (Namespace (Spec app)) (Inr obj),
           EvListApplications (namespace_list (Namespace (Spec app))) (Inr items), EvDeleteNamespace obj res]"
  unfolding cleanup_trace_def Let_def by (elim disjE exE conjE) auto

lemma delete_namespace_in_cleanup:
  assumes "delete_trace E app e es" "EvDeleteNamespace obj res \<in> set es"
  shows "\<exists>u c fin x. uninstall_contract (metaName (Meta app)) (Namespace (Spec app)) None u \<and>
    cleanup_trace E app x c \<and> es = u @ c @ fin \<and> EvDeleteNamespace obj res \<in> set c \<and>
    ContainsFinalizer E app finalizerName"
  using assms(1) unfolding delete_trace_def Let_def
proof (elim disjE exE conjE)
  fix err assume "uninstall_contract (metaName (Meta app)) (Namespace (Spec app)) (Some err) es"
  with assms(2) show ?thesis using uninstall_no_delete by blast
next
  fix u c err assume "uninstall_contract (metaName (Meta app)) (Namespace (Spec app)) None u"
    "cleanup_trace E app (Some err) c" "es = u @ c" "ContainsFinalizer E app finalizerName"
  with assms(2) show ?thesis
    by (intro exI [of _ u] exI [of _ c] exI [of _ "[]"]) (auto dest: uninstall_no_delete)
next
  fix u c upd assume "uninstall_contract (metaName (Meta app)) (Namespace (Spec app)) None u"
    "cleanup_trace E app None c" "es = u @ c @ [EvUpdate (RemoveFinalizer E app finalizerName) upd]"
    "ContainsFinalizer E app finalizerName"
  with assms(2) show ?thesis
    by (intro exI [of _ u] exI [of _ c] exI [of _ "[EvUpdate (RemoveFinalizer E app finalizerName) upd]"])
      (auto dest: uninstall_no_delete)
qed (use assms(2) in simp)

text \<open>
  C8. A namespace is deleted only while finalizing an Application that is being deleted:
  its release was uninstalled earlier in the same pass (or Helm knew of none), the
  namespace object that was read carries the operator's annotation, and the list of the
  Applications indexed under that namespace holds no other live one. The object deleted is
  the one that was read.
\<close>

theorem namespace_deletion_guarded:
  assumes "EvDeleteNamespace obj res \<in> set (reconcile_events E req s)"
  shows "\<exists>app items pre post. reconcile_events E req s = pre @ EvDeleteNamespace obj res # post \<and>
    EvGetApplication req (Inr app) \<in> set pre \<and> \<not> live_app app \<and> ContainsFinalizer E app finalizerName \<and>
    uninstalled_in app pre \<and>
    EvGetNamespace (Namespace (Spec app)) (Inr obj) \<in> set pre \<and>
    go_lookup (nsAnnotations obj) managedByAnnotation = managedByValue \<and>
    EvListApplications (namespace_list (Namespace (Spec app))) (Inr items) \<in> set pre \<and>
    (\<forall>other\<in>set items. live_app other \<longrightarrow> UID (Meta other) = UID (Meta app))"
  using reconcile_events_trace assms change_examples(1)
proof (cases rule: change_cases)
  case (deletion app e es1 tail)
  let ?ns = "Namespace (Spec app)"
  from delete_namespace_in_cleanup [OF deletion(2,3)]
  obtain u c where u: "uninstall_contract (metaName (Meta app)) ?ns None u"
      and c: "\<exists>x. cleanup_trace E app x c" "EvDeleteNamespace obj res \<in> set c"
      and es1: "\<exists>fin. es1 = u @ c @ fin" and contains: "ContainsFinalizer E app finalizerName"
    by blast
  from c cleanup_deletes obtain items where items: "\<not> others_alive app items"
      and ns: "go_lookup (nsAnnotations obj) managedByAnnotation = managedByValue"
      and c': "c = [EvGetNamespace ?ns (Inr obj), EvListApplications (namespace_list ?ns) (Inr items),
        EvDeleteNamespace obj res]"
    by blast
  from es1 obtain fin where "es1 = u @ c @ fin" ..
  moreover define pre where "pre = EvGetApplication req (Inr app) # u @
      [EvGetNamespace ?ns (Inr obj), EvListApplications (namespace_list ?ns) (Inr items)]"
  ultimately have "reconcile_events E req s = pre @ EvDeleteNamespace obj res # (fin @ tail)"
    using deletion(5) c' by simp
  moreover have "uninstalled_in app pre"
    using contract_uninstalled [OF u] by (auto simp: uninstalled_in_def Let_def pre_def)
  moreover have "EvGetApplication req (Inr app) \<in> set pre" "EvGetNamespace ?ns (Inr obj) \<in> set pre"
    "EvListApplications (namespace_list ?ns) (Inr items) \<in> set pre"
    by (simp_all add: pre_def)
  moreover have "\<forall>other\<in>set items. live_app other \<longrightarrow> UID (Meta other) = UID (Meta app)"
    using items unfolding others_alive_def by blast
  ultimately show ?thesis using deletion(1) contains ns by blast
next
  case (release app vs h es1 es2 tail)
  then show ?thesis using apply_no_delete by blast
next
  case (rollback app pre es3 tail)
  then show ?thesis using unhealthy_no_delete by blast
qed

definition demo_dying :: Application where
  "demo_dying = (demo_app (demo_status PhaseDeployed 1 0))
     \<lparr>Meta := (Meta (demo_app (demo_status PhaseDeployed 1 0)))\<lparr>DeletionTimestamp := Some 5\<rparr>\<rparr>"

theorem namespace_deletion_guarded_witness:
  "\<exists>app items. EvGetApplication demo_req (Inr app) \<in> set (reconcile_events (demo_env (\<lambda>_ _. CurrentStatus))
      demo_req (demo_state demo_dying 1 10)) \<and> \<not> live_app app \<and>
    EvListApplications (namespace_list (Namespace (Spec app))) (Inr items) \<in>
      set (reconcile_events (demo_env (\<lambda>_ _. CurrentStatus)) demo_req (demo_state demo_dying 1 10))"
proof -
  have "EvDeleteNamespace (operator_namespace ''demo'') None \<in>
      set (reconcile_events (demo_env (\<lambda>_ _. CurrentStatus)) demo_req (demo_state demo_dying 1 10))"
    by code_simp
  from namespace_deletion_guarded [OF this] show ?thesis
    by (metis Un_iff set_append)
qed

section \<open>The finalizer is dropped last\<close>

text \<open>
  C7. The operator lets go of an Application that is being deleted, by writing it back
  without the finalizer, only after the release is gone and the cleanup of the namespace
  has succeeded in the same pass; in every other case the finalizer is left in place and
  the pass returns the error.
\<close>

theorem finalizer_dropped_last:
  assumes "EvGetApplication req (Inr app) \<in> set (reconcile_events E req s)" "\<not> live_app app"
    "ContainsFinalizer E app finalizerName"
  shows "(\<exists>es1 es2 upd tail. reconcile_events E req s =
        EvGetApplication req (Inr app) # es1 @ es2 @ EvUpdate (RemoveFinalizer E app finalizerName) upd # tail \<and>
        uninstalled_in app es1 \<and> cleanup_trace E app None es2 \<and> (\<forall>e\<in>set tail. gauge_event e) \<and>
        reconcile_result E req s = (emptyResult, update_answer upd)) \<or>
    ((\<forall>sent upd. EvUpdate sent upd \<notin> set (reconcile_events E req s)) \<and>
     (\<exists>err. reconcile_result E req s = (emptyResult, Some err)))"
  using reconcile_events_trace assms(1)
proof (cases rule: reconcile_branch)
  case (1 e es1 tail)
  have quiet: "EvUpdate sent upd \<notin> set tail" for sent upd using 1(5) by auto
  have scoped: "EvUpdate sent upd \<notin> set u" if "uninstall_contract n ns x u" for sent upd n ns x u
    using that unfolding uninstall_contract_def by force
  have cleaned: "EvUpdate sent upd \<notin> set c" if "cleanup_trace E app x c" for sent upd x c
    using that unfolding cleanup_trace_def Let_def by auto
  from 1(2) assms(3) show ?thesis
    unfolding delete_trace_def Let_def
  proof (elim disjE exE conjE)
    fix err
    assume "uninstall_contract (metaName (Meta app)) (Namespace (Spec app)) (Some err) es1"
      "e = Some (Errorf (''uninstall release '' @ fmt_q (metaName (Meta app)) @ '': '') (Some err))"
    then show ?thesis using 1(3,4) quiet scoped by (intro disjI2) auto
  next
    fix u c err
    assume "uninstall_contract (metaName (Meta app)) (Namespace (Spec app)) None u"
      "cleanup_trace E app (Some err) c" "es1 = u @ c" "e = Some err"
    then show ?thesis using 1(3,4) quiet scoped cleaned by (intro disjI2) auto
  next
    fix u c upd
    assume "uninstall_contract (metaName (Meta app)) (Namespace (Spec app)) None u"
      "cleanup_trace E app None c" "es1 = u @ c @ [EvUpdate (RemoveFinalizer E app finalizerName) upd]"
      "e = update_answer upd"
    then show ?thesis using 1(3,4,5)
      by (intro disjI1 exI [of _ u] exI [of _ c] exI [of _ upd] exI [of _ tail])
        (simp add: contract_uninstalled)
  qed simp
qed (use assms(2) in auto)

theorem finalizer_dropped_last_witness:
  "\<exists>upd. EvUpdate (RemoveFinalizer (demo_env (\<lambda>_ _. CurrentStatus)) demo_dying finalizerName) upd \<in>
     set (reconcile_events (demo_env (\<lambda>_ _. CurrentStatus)) demo_req (demo_state demo_dying 1 10))"
proof -
  let ?E = "demo_env (\<lambda>_ _. CurrentStatus)" and ?s = "demo_state demo_dying 1 10"
  have run: "EvGetApplication demo_req (Inr demo_dying) \<in> set (reconcile_events ?E demo_req ?s) \<and>
      \<not> live_app demo_dying \<and> ContainsFinalizer ?E demo_dying finalizerName \<and>
      snd (reconcile_result ?E demo_req ?s) = None"
    by code_simp
  with finalizer_dropped_last [OF conjunct1 [OF run]] show ?thesis by auto
qed

section \<open>Rollbacks\<close>

lemma unhealthy_rollback:
  assumes "unhealthy_trace app es" "EvRollback a n res \<in> set es"
  shows "\<exists>sent stored rest. LastFailedRevision (Status app) = 0 \<and> HelmRevision (Status app) > 1 \<and>
    on_base app sent \<and> lifecycle_step (Status app) LRollback (Status sent) \<and>
    es = EvStatusUpdate sent (Inr stored) # rest \<and> EvRollback a n res \<in> set rest \<and>
    a = rollback_action (Namespace (Spec stored)) \<and> n = metaName (Meta stored)"
proof -
  have mem: "EvRollback a n res \<in> set (filter sdk_mutation es)" using assms(2) by simp
  from assms(1) show ?thesis
    unfolding unhealthy_trace_def
  proof (elim disjE exE conjE)
    assume "filter sdk_mutation es = []"
    with mem show ?thesis by simp
  next
    fix sent stored es1 es2 k r d app5
    assume a: "LastFailedRevision (Status app) = 0" "HelmRevision (Status app) > 1" "on_base app sent"
        "lifecycle_step (Status app) LRollback (Status sent)"
        "es = EvStatusUpdate sent (Inr stored) # es1 @ es2" "degraded_trace app5 d r es2"
    note m2 = degraded_no_mutation [OF a(6)]
    {
      assume "filter sdk_mutation es1 = []"
      with mem m2 a(5) show ?thesis by simp
    next
      fix x assume f: "filter sdk_mutation es1 = [EvRollback (rollback_action (Namespace (Spec stored)))
        (metaName (Meta stored)) x]"
      then have "EvRollback (rollback_action (Namespace (Spec stored))) (metaName (Meta stored)) x \<in> set es1"
        by (metis filter_is_subset list.set_intros(1) subsetD)
      with f mem m2 a show ?thesis by simp
    }
  qed (use mem in simp)
qed

text \<open>
  C3. A rollback is asked for only when the Application that was read has a rollback left
  (\<open>LastFailedRevision\<close> is 0) and has a revision before the current one, and only after the
  API server accepted, in the same pass, a status that records the failed revision and the
  phase RollingBack. It is aimed at version 0, which Helm reads as the revision before the
  current one, and nothing else is changed in Helm by that pass.
\<close>

theorem rollback_guarded:
  assumes "finalizer_laws E" "EvRollback a n res \<in> set (reconcile_events E req s)"
  shows "\<exists>app sent stored pre post. reconcile_events E req s = pre @ EvStatusUpdate sent (Inr stored) # post \<and>
    EvGetApplication req (Inr app) \<in> set pre \<and> EvRollback a n res \<in> set post \<and>
    LastFailedRevision (Status app) = 0 \<and> HelmRevision (Status app) > 1 \<and>
    on_base app sent \<and> Phase (Status sent) = PhaseRollingBack \<and>
    LastFailedRevision (Status sent) = HelmRevision (Status app) \<and>
    a = rollback_action (Namespace (Spec stored)) \<and> n = metaName (Meta stored) \<and>
    filter sdk_mutation (reconcile_events E req s) = [EvRollback a n res]"
  using reconcile_events_trace assms(2) change_examples(2)
proof (cases rule: change_cases)
  case (deletion app e es1 tail)
  then have "EvRollback a n res \<in> set (filter sdk_mutation es1)" by simp
  with delete_mutations [OF deletion(2)] show ?thesis by (elim disjE exE) auto
next
  case (release app vs h es1 es2 tail)
  then have "EvRollback a n res \<in> set (filter sdk_mutation es2)" by simp
  with apply_mutations [OF release(4)] show ?thesis
    by (elim disjE exE) (auto simp: is_apply_action_def Let_def)
next
  case (rollback app pre es3 tail)
  let ?m = "EvRollback a n res"
  have mem: "?m \<in> set (filter sdk_mutation es3)" using rollback(3) by simp
  have one: "filter sdk_mutation (reconcile_events E req s) = [?m]"
  proof -
    have "filter sdk_mutation (reconcile_events E req s) = filter sdk_mutation es3"
      unfolding rollback(4) using filter_mid rollback(5,6) by blast
    moreover obtain x where x: "filter sdk_mutation es3 = [x]"
      using mem unhealthy_mutations [OF rollback(2)] by (metis empty_iff empty_set)
    moreover have "?m = x" using mem unfolding x by simp
    ultimately show ?thesis by simp
  qed
  obtain read where "EvGetApplication req (Inr read) \<in> set pre" "AddFinalizer E read finalizerName = (app, False)"
    using rollback(7) by blast
  with add_finalizer_False [OF assms(1)] have read: "EvGetApplication req (Inr app) \<in> set pre"
    by blast
  from unhealthy_rollback [OF rollback(2,3)] obtain sent stored rest
    where armed: "LastFailedRevision (Status app) = 0" "HelmRevision (Status app) > 1"
      and sent: "on_base app sent" "lifecycle_step (Status app) LRollback (Status sent)"
      and es3: "es3 = EvStatusUpdate sent (Inr stored) # rest" "?m \<in> set rest"
      and act: "a = rollback_action (Namespace (Spec stored))" "n = metaName (Meta stored)"
    by blast
  have "Phase (Status sent) = PhaseRollingBack \<and> LastFailedRevision (Status sent) = HelmRevision (Status app)"
    using sent(2) by (auto simp: lifecycle_rollback_iff dest!: same_record_LFR)
  moreover have "reconcile_events E req s = pre @ EvStatusUpdate sent (Inr stored) # (rest @ tail)"
    using rollback(4) es3(1) by simp
  moreover have "?m \<in> set (rest @ tail)" using es3(2) by simp
  ultimately show ?thesis using read armed sent(1) one act by blast
qed

theorem rollback_guarded_witness:
  "\<exists>sent stored. EvStatusUpdate sent (Inr stored) \<in> set (reconcile_events (demo_env (\<lambda>_ _. FailedStatus)) demo_req
      (demo_state (demo_app (demo_status PhaseDeploying 3 0)) 3 10)) \<and>
    Phase (Status sent) = PhaseRollingBack"
proof -
  have "EvRollback (rollback_action ''demo'') ''web'' None \<in> set (reconcile_events (demo_env (\<lambda>_ _. FailedStatus))
      demo_req (demo_state (demo_app (demo_status PhaseDeploying 3 0)) 3 10))"
    by code_simp
  from rollback_guarded [OF demo_finalizer_laws this] show ?thesis
    by (metis Un_iff list.set_intros(1) set_append)
qed

end
