(* ===== verification/Refinement.thy ===== *)
theory Refinement
  imports ReconcileFacts Demo
begin

text \<open>
  The reconciler implements the abstract machine of \<open>Lifecycle\<close>: the status writes of a
  pass are steps of that machine, from the status that was read. The lemmas follow the
  contracts of \<open>ControllerTraces\<close>, from the single handlers up to the whole pass.
\<close>

section \<open>Parts of a pass that write no status\<close>

lemma writes_cleanup: "cleanup_trace E app r es \<Longrightarrow> status_writes es = []"
  unfolding cleanup_trace_def Let_def by (elim disjE exE conjE; simp)

lemma writes_ensure: "ensure_trace n r es \<Longrightarrow> status_writes es = []"
  unfolding ensure_trace_def by (elim disjE exE conjE; simp)

lemma writes_values: "values_trace E app r es \<Longrightarrow> status_writes es = []"
  unfolding values_trace_def by (cases "ValuesSecretRef (Spec app)"; clarsimp)

lemma writes_install: "install_contract spec r es \<Longrightarrow> status_writes es = []"
  by (rule scoped_writes [of es "rsNamespace spec"]) (simp add: install_contract_def Let_def)

lemma writes_get: "get_contract n ns r es \<Longrightarrow> status_writes es = []"
  by (rule scoped_writes [of es ns]) (simp add: get_contract_def)

lemma writes_uninstall: "uninstall_contract n ns r es \<Longrightarrow> status_writes es = []"
  by (rule scoped_writes [of es ns]) (simp add: uninstall_contract_def)

lemma live_read_not_write: "is_EvGetLive e \<Longrightarrow> \<not> is_EvStatusUpdate e"
  by (cases e) simp_all

lemma gauge_not_write: "gauge_event e \<Longrightarrow> \<not> is_EvStatusUpdate e"
  by (cases e) simp_all

lemma writes_health: "release_health_trace E m dns r es \<Longrightarrow> status_writes es = []"
  by (rule status_writes_none) (use release_health_reads live_read_not_write in blast)

lemma writes_gauge: "\<forall>e\<in>set es. gauge_event e \<Longrightarrow> status_writes es = []"
  by (rule status_writes_none) (use gauge_not_write in blast)

lemma writes_delete: "delete_trace E app r es \<Longrightarrow> status_writes es = []"
  unfolding delete_trace_def Let_def
  by (elim disjE exE conjE; (drule writes_uninstall)?; (drule writes_cleanup)?; simp)

section \<open>What a pass did\<close>

definition rolled_back :: "event list \<Rightarrow> bool" where
  "rolled_back es \<longleftrightarrow> (\<exists>e\<in>set es. is_EvRollback e)"

text \<open>A release was installed or upgraded with success.\<close>

fun release_made :: "event \<Rightarrow> bool" where
  "release_made (EvUpgrade _ _ _ _ raw) = (\<not> isl raw)"
| "release_made (EvInstall _ _ _ raw) = (\<not> isl raw)"
| "release_made _ = False"

definition released :: "event list \<Rightarrow> bool" where
  "released es \<longleftrightarrow> (\<exists>e\<in>set es. release_made e)"

lemma rolled_back_simps [simp]:
  "\<not> rolled_back []"
  "rolled_back (e # es) \<longleftrightarrow> is_EvRollback e \<or> rolled_back es"
  "rolled_back (xs @ ys) \<longleftrightarrow> rolled_back xs \<or> rolled_back ys"
  "released (xs @ ys) \<longleftrightarrow> released xs \<or> released ys"
  by (auto simp: rolled_back_def released_def)

text \<open>
  The writes of a list of events are steps from an object, a rollback among the events
  shows among the steps, and an apply step among them has a release made among the events.
\<close>

definition steps_from :: "Application \<Rightarrow> event list \<Rightarrow> bool" where
  "steps_from app es \<longleftrightarrow> (\<exists>ls. chain app ls (status_writes es) \<and>
     (LApply \<in> set ls \<longrightarrow> released es) \<and> (rolled_back es \<longrightarrow> LRollback \<in> set ls))"

lemma steps_fromI:
  "chain app ls (status_writes es) \<Longrightarrow> (LApply \<in> set ls \<Longrightarrow> released es) \<Longrightarrow>
   (rolled_back es \<Longrightarrow> LRollback \<in> set ls) \<Longrightarrow> steps_from app es"
  unfolding steps_from_def by blast

lemma steps_pad:
  assumes "steps_from app es" "status_writes pre = []" "status_writes post = []"
    "\<not> rolled_back pre" "\<not> rolled_back post"
  shows "steps_from app (pre @ es @ post)"
  using assms unfolding steps_from_def by auto

lemma steps_none: "status_writes es = [] \<Longrightarrow> \<not> rolled_back es \<Longrightarrow> steps_from app es"
  by (rule steps_fromI [of _ "[]"]) simp_all

lemma quiet_no_rollback: "\<forall>e\<in>set es. \<not> any_write e \<Longrightarrow> \<not> rolled_back es"
  by (auto simp: rolled_back_def is_EvRollback_def)

lemma no_rollback_mutations: "rolled_back es \<Longrightarrow> \<exists>m\<in>set (filter sdk_mutation es). is_EvRollback m"
  by (auto simp: rolled_back_def is_EvRollback_def)

section \<open>The steps of the handlers\<close>

text \<open>One write, accepted or refused, of a status one step away.\<close>

lemma one_write:
  assumes "on_base app sent" "lifecycle_step (Status app) l (Status sent)"
  shows "\<exists>ls. set ls \<subseteq> {l} \<and> chain app ls [(sent, upd)]"
proof (cases upd)
  case (Inl err)
  with assms show ?thesis by (intro exI [of _ "[]"]) auto
next
  case (Inr stored)
  with assms show ?thesis by (intro exI [of _ "[l]"]) auto
qed

lemma one_write_steps:
  assumes "on_base app sent" "lifecycle_step (Status app) l (Status sent)" "status_writes es = [(sent, upd)]"
    "l \<noteq> LApply" "\<not> rolled_back es"
  shows "steps_from app es"
proof -
  obtain ls where "set ls \<subseteq> {l}" "chain app ls [(sent, upd)]" using one_write [OF assms(1,2)] by blast
  with assms show ?thesis by (intro steps_fromI [of app ls]) auto
qed

lemma fail_steps: "fail_trace app cause r es \<Longrightarrow> steps_from app es"
  unfolding fail_trace_def
proof (elim exE conjE)
  fix sent res
  assume "es = [EvStatusUpdate sent res]" "on_base app sent" "same_record (Status app) (Status sent)"
    "Phase (Status sent) = PhaseFailed"
  then show ?thesis
    by (intro one_write_steps [of _ sent LFail]) (simp_all add: lifecycle_fail_iff rolled_back_def)
qed

lemma degraded_steps: "degraded_trace app d r es \<Longrightarrow> steps_from app es"
  unfolding degraded_trace_def
proof (elim disjE exE conjE)
  fix sent res
  assume "es = [EvStatusUpdate sent res]" "on_base app sent" "same_record (Status app) (Status sent)"
    "Phase (Status sent) = PhaseDegraded"
  then show ?thesis
    by (intro one_write_steps [of _ sent LDegrade]) (simp_all add: lifecycle_degrade_iff rolled_back_def)
qed (simp add: steps_none rolled_back_def)

lemma settle_steps:
  assumes "settle_trace app p d r es" "p = PhaseDeploying \<or> p = PhaseDeployed \<and> LastFailedRevision (Status app) = 0"
  shows "steps_from app es"
  using assms(1) unfolding settle_trace_def
proof (elim disjE exE conjE)
  fix sent upd
  assume w: "es = [EvStatusUpdate sent upd]" "on_base app sent" "same_record (Status app) (Status sent)"
    "Phase (Status sent) = p"
  show ?thesis
  proof (cases "p = PhaseDeploying")
    case True
    with w show ?thesis
      by (intro one_write_steps [of _ sent LProgress]) (simp_all add: lifecycle_progress_iff rolled_back_def)
  next
    case False
    with w assms(2) show ?thesis
      by (intro one_write_steps [of _ sent LHealthy]) (simp_all add: lifecycle_healthy_iff rolled_back_def)
  qed
qed (simp add: steps_none rolled_back_def)

lemma degraded_no_rollback: "degraded_trace app d r es \<Longrightarrow> \<not> rolled_back es"
  unfolding degraded_trace_def by (elim disjE exE conjE; simp add: rolled_back_def)

text \<open>
  After the accepted write of a rollback the status that is degraded may also carry the new
  revision: one more step of the machine, because the server kept the failed revision.
\<close>

lemma degraded_after_rollback:
  assumes "degraded_trace (with_status (\<lambda>s. s\<lparr>HelmRevision := n\<rparr>) stored) d r es"
    "LastFailedRevision (Status stored) \<noteq> 0"
  shows "\<exists>ls. set ls \<subseteq> {LDegrade} \<and> chain stored ls (status_writes es)"
  using assms(1) unfolding degraded_trace_def
proof (elim disjE exE conjE)
  fix sent res
  assume "es = [EvStatusUpdate sent res]" "on_base (with_status (\<lambda>s. s\<lparr>HelmRevision := n\<rparr>) stored) sent"
    "same_record (Status (with_status (\<lambda>s. s\<lparr>HelmRevision := n\<rparr>) stored)) (Status sent)"
    "Phase (Status sent) = PhaseDegraded"
  then have w: "status_writes es = [(sent, res)]" "on_base stored sent"
      "lifecycle_step (Status stored) LDegrade (Status sent)"
    using assms(2) by (auto simp: on_base_def intro: lifecycle_step.degrade_new_revision_step)
  show ?thesis unfolding w(1) by (rule one_write [OF w(2,3)])
qed (intro exI [of _ "[]"], simp)

lemma rollback_steps:
  assumes "on_base app sent" "lifecycle_step (Status app) LRollback (Status sent)" "HelmRevision (Status app) > 1"
    "es = EvStatusUpdate sent (Inr stored) # es1 @ es2" "\<forall>e\<in>set es1. in_scope (Namespace (Spec stored)) e"
    "degraded_trace (with_status (\<lambda>s. s\<lparr>HelmRevision := n\<rparr>) stored) d r es2" "echoed (status_writes es)"
  shows "steps_from app es"
proof -
  have w: "status_writes es = (sent, Inr stored) # status_writes es2"
    using assms(4) scoped_writes [OF assms(5)] by simp
  have "LastFailedRevision (Status sent) = HelmRevision (Status app)"
    using assms(2) by (auto simp: lifecycle_rollback_iff dest!: same_record_LFR)
  moreover have "recorded (Status stored) = recorded (Status sent)" using assms(7) w by simp
  ultimately have "LastFailedRevision (Status stored) \<noteq> 0"
    using recorded_fields(2) [of "Status stored" "Status sent"] assms(3) by simp
  with degraded_after_rollback assms(6) obtain ls where "set ls \<subseteq> {LDegrade}" "chain stored ls (status_writes es2)"
    by blast
  then have "chain app (LRollback # ls) (status_writes es)" "LApply \<notin> set (LRollback # ls)"
    using w assms(1,2) by auto
  then show ?thesis by (intro steps_fromI [of app "LRollback # ls"]) simp_all
qed

lemma unhealthy_steps: "unhealthy_trace app es \<Longrightarrow> echoed (status_writes es) \<Longrightarrow> steps_from app es"
  unfolding unhealthy_trace_def
proof (elim disjE exE conjE)
  fix d r assume "degraded_trace app d r es"
  then show ?thesis by (rule degraded_steps)
next
  fix sent err
  assume "on_base app sent" "lifecycle_step (Status app) LRollback (Status sent)" "es = [EvStatusUpdate sent (Inl err)]"
  then show ?thesis by (intro one_write_steps [of _ sent LRollback]) simp_all
qed (use rollback_steps in blast)+

lemma applied_step: "applied app res h sent \<Longrightarrow> on_base app sent \<and> lifecycle_step (Status app) LApply (Status sent)"
  by (auto simp: applied_def lifecycle_apply_iff applied_status_def)

lemma single_mutation:
  assumes "filter sdk_mutation es = [m]"
  shows "m \<in> set es" and "\<not> is_EvRollback m \<Longrightarrow> \<not> rolled_back es"
proof -
  show "m \<in> set es" using assms filter_is_subset [of sdk_mutation es] by simp
  show "\<not> is_EvRollback m \<Longrightarrow> \<not> rolled_back es"
    using assms no_rollback_mutations [of es] by (metis empty_iff empty_set list.set_cases set_ConsD)
qed

lemma helm_answer_Inr: "helm_answer p raw = Inr res \<Longrightarrow> \<not> isl raw"
  by (cases raw) simp_all

lemma install_no_rollback: "install_contract spec r es \<Longrightarrow> \<not> rolled_back es"
  unfolding install_contract_def Let_def
proof (elim disjE exE conjE)
  assume "filter sdk_mutation es = []"
  then show ?thesis using no_rollback_mutations [of es] by auto
qed (erule single_mutation(2), simp)+

lemma install_released: "install_contract spec (Inr res) es \<Longrightarrow> released es"
  unfolding install_contract_def Let_def released_def
proof (elim disjE exE conjE)
  fix ch raw assume "filter sdk_mutation es = [EvUpgrade (upgrade_action (rsNamespace spec)) (rsReleaseName spec) ch
      (vals_of spec) raw]" "Inr res = helm_answer (''helm upgrade '' @ fmt_q (rsReleaseName spec) @ '': '') raw"
  then show "\<exists>e\<in>set es. release_made e"
    using single_mutation(1) helm_answer_Inr release_made.simps(1) by metis
next
  fix ch raw assume "filter sdk_mutation es = [EvInstall (install_action (rsReleaseName spec) (rsNamespace spec)) ch
      (vals_of spec) raw]" "Inr res = helm_answer (''helm install '' @ fmt_q (rsReleaseName spec) @ '': '') raw"
  then show "\<exists>e\<in>set es. release_made e"
    using single_mutation(1) helm_answer_Inr release_made.simps(2) by metis
qed simp

lemma ensure_no_rollback: "ensure_trace n r es \<Longrightarrow> \<not> rolled_back es"
  unfolding ensure_trace_def by (elim disjE exE conjE; simp add: rolled_back_def)

lemma apply_steps:
  assumes "apply_trace app vs h r es"
  shows "steps_from app es"
  using assms unfolding apply_trace_def Let_def
proof (elim disjE exE conjE)
  fix err f es1 es2
  assume "ensure_trace (Namespace (Spec app)) (Some err) es1" "es = es1 @ es2"
    "fail_trace app (Errorf (''ensure namespace '' @ fmt_q (Namespace (Spec app)) @ '': '') (Some err)) f es2"
  then show ?thesis
    using steps_pad [OF fail_steps, of app _ f es2 es1 "[]"] writes_ensure ensure_no_rollback by simp
next
  fix err f es1 es2 es3
  assume "ensure_trace (Namespace (Spec app)) None es1" "install_contract (release_spec app vs) (Inl err) es2"
    "fail_trace app err f es3" "es = es1 @ es2 @ es3"
  then show ?thesis
    using steps_pad [OF fail_steps, of app err f es3 "es1 @ es2" "[]"] writes_ensure ensure_no_rollback
      writes_install install_no_rollback
    by simp
next
  fix res sent upd es1 es2
  assume a: "ensure_trace (Namespace (Spec app)) None es1" "install_contract (release_spec app vs) (Inr res) es2"
    "applied app res h sent" "es = es1 @ es2 @ [EvStatusUpdate sent upd]"
  have w: "status_writes es = [(sent, upd)]" using a(4) writes_ensure [OF a(1)] writes_install [OF a(2)] by simp
  obtain ls where ls: "set ls \<subseteq> {LApply}" "chain app ls (status_writes es)"
    using one_write applied_step [OF a(3)] unfolding w by blast
  have "released es" "\<not> rolled_back es"
    using a(4) install_released [OF a(2)] install_no_rollback [OF a(2)] ensure_no_rollback [OF a(1)] by simp_all
  with ls show ?thesis by (intro steps_fromI [of app ls]) simp_all
qed

section \<open>The steps of a pass\<close>

lemma success_quiet: "status_writes (success_signal app) = []" "\<not> rolled_back (success_signal app)"
  by (simp_all add: success_signal_def)

lemma drive_steps:
  assumes "drive_trace app health r es" "echoed (status_writes es)"
  shows "steps_from app es"
  using assms(1) unfolding drive_trace_def
proof (elim disjE exE conjE)
  assume "unhealthy_trace app es"
  then show ?thesis using assms(2) by (rule unhealthy_steps)
next
  fix es' assume "LastFailedRevision (Status app) = 0" "es = success_signal app @ es'"
    "settle_trace app PhaseDeployed steadyPollInterval r es'"
  then show ?thesis using steps_pad [OF settle_steps, of app _ _ _ es' "success_signal app" "[]"] success_quiet by simp
next
  assume "settle_trace app PhaseDeploying healthPollInterval r es"
  then show ?thesis by (rule settle_steps) simp
qed (simp add: steps_none)

lemma check_steps:
  assumes "check_trace E app r es" "echoed (status_writes es)"
  shows "steps_from app es"
  using assms(1) unfolding check_trace_def Let_def
proof (elim disjE exE conjE)
  fix err assume "get_contract (metaName (Meta app)) (Namespace (Spec app)) (Inl err) es"
  then show ?thesis by (intro steps_none quiet_no_rollback no_writes(2) writes_get)
next
  fix rel es1 err es2
  assume "get_contract (metaName (Meta app)) (Namespace (Spec app)) (Inr rel) es1"
    "release_health_trace E (rrManifest rel) (Namespace (Spec app)) (Inl err) es2" "es = es1 @ es2"
  then show ?thesis
    using writes_get writes_health quiet_no_rollback [OF no_writes(2)] quiet_no_rollback [OF no_writes(3)]
    by (intro steps_none) simp_all
next
  fix rel es1 health detail es2 es3
  assume c: "get_contract (metaName (Meta app)) (Namespace (Spec app)) (Inr rel) es1"
    "release_health_trace E (rrManifest rel) (Namespace (Spec app)) (Inr (health, detail)) es2"
    "drive_trace app health r es3" "es = es1 @ es2 @ es3"
  note quiet = writes_get [OF c(1)] writes_health [OF c(2)] quiet_no_rollback [OF no_writes(2) [OF c(1)]]
    quiet_no_rollback [OF no_writes(3) [OF c(2)]]
  have "steps_from app es3" using drive_steps [OF c(3)] assms(2) c(4) quiet by simp
  then show ?thesis using steps_pad [of app es3 "es1 @ es2" "[]"] c(4) quiet by simp
qed

lemma live_steps:
  assumes "live_trace E app r es" "echoed (status_writes es)"
  shows "steps_from app es"
proof -
  have pad: "steps_from app es"
    if "values_trace E app v es1" "es = es1 @ es2" "steps_from app es2" for v es1 es2
    using steps_pad [OF that(3), of es1 "[]"] writes_values [OF that(1)]
      quiet_no_rollback [OF no_writes(1) [OF that(1)]] that(2)
    by simp
  from assms(1) show ?thesis
    unfolding live_trace_def
  proof (elim disjE exE conjE)
    fix err f es1 es2 assume "values_trace E app (Inl err) es1" "fail_trace app err f es2" "es = es1 @ es2"
    then show ?thesis using pad fail_steps by blast
  next
    fix vs h es1 es2 assume "values_trace E app (Inr (vs, h)) es1" "apply_trace app vs h r es2" "es = es1 @ es2"
    then show ?thesis using pad apply_steps by blast
  next
    fix vs h es1 es2
    assume c: "values_trace E app (Inr (vs, h)) es1" "check_trace E app r es2" "es = es1 @ es2"
    then have "echoed (status_writes es2)" using assms(2) writes_values by simp
    with c show ?thesis using pad check_steps by blast
  qed
qed

lemma reconcile_steps:
  assumes "reconcile_trace E req r es" "finalizer_laws E" "EvGetApplication req (Inr app) \<in> set es"
    "echoed (status_writes es)"
  shows "steps_from app es"
  using assms(1,3)
proof (cases rule: reconcile_branch)
  case (1 e es1 tail)
  have "\<not> rolled_back es1"
    using delete_mutations [OF 1(2)] no_rollback_mutations [of es1] single_mutation(2) by fastforce
  then show ?thesis
    using 1 writes_delete writes_gauge quiet_no_rollback [OF no_writes(4)] by (intro steps_none) simp_all
next
  case (2 app' upd tail)
  then show ?thesis
    using writes_gauge quiet_no_rollback [OF no_writes(4)] by (intro steps_none) simp_all
next
  case (3 app' es1 tail)
  have same: "app' = app" using add_finalizer_False [OF assms(2) 3(2)] by blast
  note quiet = writes_gauge [OF 3(5)] quiet_no_rollback [OF no_writes(4) [OF 3(5)]]
  have "steps_from app es1" using live_steps [OF 3(3)] assms(4) 3(4) quiet same by simp
  then show ?thesis using steps_pad [of app es1 "[EvGetApplication req (Inr app)]" tail] 3(4) quiet by simp
qed

text \<open>
  C4. The status writes of a pass implement the abstract lifecycle: starting at the status
  that was read, every accepted write is a step of the machine from the object the program
  held, whose steps after the first start from what the server returned, and a refused
  write is the last one. A rollback is run only with a rollback step among them, and there
  is an apply step only if the pass installed or upgraded the release with success.
\<close>

theorem status_writes_refine_lifecycle:
  assumes "finalizer_laws E" "EvGetApplication req (Inr app) \<in> set (reconcile_events E req s)"
    "echoed (status_writes (reconcile_events E req s))"
  shows "\<exists>ls. chain app ls (status_writes (reconcile_events E req s)) \<and>
    (LApply \<in> set ls \<longrightarrow> released (reconcile_events E req s)) \<and>
    (rolled_back (reconcile_events E req s) \<longrightarrow> LRollback \<in> set ls)"
  using reconcile_steps [OF reconcile_events_trace assms] unfolding steps_from_def .

theorem status_writes_refine_lifecycle_witness:
  "\<exists>ls. chain (demo_app (demo_status PhaseDeploying 3 0)) ls (status_writes
     (reconcile_events (demo_env (\<lambda>_ _. FailedStatus)) demo_req
        (demo_state (demo_app (demo_status PhaseDeploying 3 0)) 3 10))) \<and> LRollback \<in> set ls"
proof -
  let ?app = "demo_app (demo_status PhaseDeploying 3 0)"
  let ?es = "reconcile_events (demo_env (\<lambda>_ _. FailedStatus)) demo_req (demo_state ?app 3 10)"
  have run: "EvGetApplication demo_req (Inr ?app) \<in> set ?es \<and> echoed (status_writes ?es) \<and> rolled_back ?es" by code_simp
  with status_writes_refine_lifecycle [OF demo_finalizer_laws conjunct1 [OF run] conjunct1 [OF conjunct2 [OF run]]]
  show ?thesis by blast
qed

end
