(* ===== verification/Runs.thy ===== *)
theory Runs
  imports Refinement
begin

text \<open>
  Runs of the operator: passes over any Applications in any order, with anything else
  happening in the cluster between them. Over a run the steps of the single passes are put
  together to a path of the abstract machine, which carries its invariant and its rollback
  budget over to the program. A run keeps the events of each pass; the ghost log of the
  state starts anew whenever something outside has changed the world.
\<close>

section \<open>Runs\<close>

type_synonym pass = "NamespacedName \<times> event list"

inductive run :: "'w env \<Rightarrow> ('w, event) st \<Rightarrow> pass list \<Rightarrow> ('w, event) st \<Rightarrow> bool" for E where
  run_none: "run E s [] s"
| run_outside: "run E s ps t \<Longrightarrow> run E s ps \<lparr>world = w, log = []\<rparr>"
| run_pass: "run E s ps t \<Longrightarrow> run E s (ps @ [(req, reconcile_events E req t)]) (reconcile_next E req t)"

lemma run_passes: "run E s ps t \<Longrightarrow> \<forall>(req, es)\<in>set ps. \<exists>t. es = reconcile_events E req t"
  by (induction rule: run.induct) auto


section \<open>What the API server promises about the status\<close>

definition reads :: "event list \<Rightarrow> Application list" where
  "reads es = concat (map (\<lambda>e. case e of EvGetApplication _ (Inr app) \<Rightarrow> [app] | _ \<Rightarrow> []) es)"

definition accepted :: "event list \<Rightarrow> Application list" where
  "accepted es = concat (map (\<lambda>(sent, res). case res of Inr stored \<Rightarrow> [stored] | Inl _ \<Rightarrow> []) (status_writes es))"

fun final_status :: "ApplicationStatus \<Rightarrow> Application list \<Rightarrow> ApplicationStatus" where
  "final_status s [] = s"
| "final_status s (stored # rest) = final_status (Status stored) rest"

text \<open>
  Optimistic concurrency, for the status of one object that only the operator writes: the
  writes of a pass are accepted only if the pass had read the status that the last accepted
  write left, and the server returns what it was sent. Passes over a stale copy are
  allowed: their writes are refused.
\<close>

fun coherent :: "NamespacedName \<Rightarrow> ApplicationStatus \<Rightarrow> pass list \<Rightarrow> bool" where
  "coherent k s [] \<longleftrightarrow> True"
| "coherent k s ((req, es) # ps) \<longleftrightarrow>
     (if req \<noteq> k \<or> accepted es = [] then coherent k s ps
      else (\<exists>app\<in>set (reads es). recorded (Status app) = recorded s) \<and>
           echoed (status_writes es) \<and> coherent k (final_status s (accepted es)) ps)"

lemma reads_iff:
  assumes "reconcile_trace E req r es"
  shows "app \<in> set (reads es) \<longleftrightarrow> EvGetApplication req (Inr app) \<in> set es"
proof -
  have "app \<in> set (reads es) \<longleftrightarrow> (\<exists>k. EvGetApplication k (Inr app) \<in> set es)"
    unfolding reads_def by (force split: event.splits sum.splits)
  moreover have "k = req" if "EvGetApplication k x \<in> set es" for k x
    using read_key [OF assms that] .
  ultimately show ?thesis by blast
qed

text \<open>A pass reads one Application, at its start.\<close>

lemma one_read:
  assumes t: "reconcile_trace E req r es" and a: "EvGetApplication req (Inr a) \<in> set es"
    and b: "EvGetApplication req (Inr b) \<in> set es"
  shows "a = b"
proof -
  have "hd es = EvGetApplication req (Inr app)" if "EvGetApplication req (Inr app) \<in> set es" for app
    using t that by (cases rule: reconcile_branch) simp_all
  from this [OF a] this [OF b] show ?thesis by simp
qed

section \<open>From chains to paths\<close>

lemma recorded_same: "same_record s t \<Longrightarrow> same_record (recorded s) (recorded t)"
  unfolding same_record_def recorded_def
  by (elim exE) (rule exI [of _ "Phase t"], rule exI [of _ "[]"], simp)

lemma recorded_update:
  "same_record (s\<lparr>LastFailedRevision := n\<rparr>) t \<Longrightarrow> same_record ((recorded s)\<lparr>LastFailedRevision := n\<rparr>) (recorded t)"
  "same_record (s\<lparr>HelmRevision := n\<rparr>) t \<Longrightarrow> same_record ((recorded s)\<lparr>HelmRevision := n\<rparr>) (recorded t)"
  unfolding same_record_def recorded_def
  by (elim exE; rule exI [of _ "Phase t"]; rule exI [of _ "[]"]; simp)+

lemma recorded_step: "lifecycle_step s l t \<Longrightarrow> lifecycle_step (recorded s) l (recorded t)"
proof (induction rule: lifecycle_step.induct)
  case (apply_step t s)
  then show ?case by (auto intro!: lifecycle_step.apply_step simp: recorded_def)
next
  case (rollback_step s t)
  then show ?case
    using recorded_update(1) [where s = s and n = "HelmRevision s" and t = t] by (intro lifecycle_step.rollback_step) simp_all
qed (auto intro: lifecycle_step.intros recorded_same recorded_update)

lemma recorded_inv: "status_inv (recorded s) = status_inv s"
  by (simp add: status_inv_def)

lemma accepted_simps [simp]:
  "accepted [] = []"
  "accepted (e # es) = (case e of EvStatusUpdate _ (Inr stored) \<Rightarrow> [stored] | _ \<Rightarrow> []) @ accepted es"
  by (simp_all add: accepted_def split: event.split sum.split)

fun stored_writes :: "(Application \<times> (go_error + Application)) list \<Rightarrow> Application list" where
  "stored_writes [] = []"
| "stored_writes ((sent, Inl err) # ws) = stored_writes ws"
| "stored_writes ((sent, Inr stored) # ws) = stored # stored_writes ws"

lemma accepted_writes: "accepted es = stored_writes (status_writes es)"
proof -
  have "concat (map (\<lambda>(sent, res). case res of Inr stored \<Rightarrow> [stored] | Inl _ \<Rightarrow> []) ws) = stored_writes ws" for ws
    by (induction ws rule: stored_writes.induct) simp_all
  then show ?thesis by (simp add: accepted_def)
qed

lemma chain_length: "chain app ls ws \<Longrightarrow> length ls = length (stored_writes ws)"
  by (induction app ls ws rule: chain.induct) auto

lemma chain_path:
  "chain app ls ws \<Longrightarrow> echoed ws \<Longrightarrow>
   path lifecycle_step (recorded (Status app)) ls (recorded (final_status (Status app) (stored_writes ws)))"
proof (induction app ls ws rule: chain.induct)
  case (3 app ls sent stored ws)
  then obtain l ls' where l: "ls = l # ls'" "lifecycle_step (Status app) l (Status sent)" "chain stored ls' ws"
    by auto
  from 3 l have "path lifecycle_step (recorded (Status stored)) ls' (recorded (final_status (Status stored) (stored_writes ws)))"
    by auto
  with 3 l recorded_step [OF l(2)] show ?case by auto
qed auto

section \<open>One pass as a path\<close>

lemma released_mutation: "release_made e \<Longrightarrow> sdk_mutation e \<and> \<not> is_EvRollback e"
  by (cases e) simp_all

lemma rollback_mutation: "is_EvRollback e \<Longrightarrow> sdk_mutation e"
  by (cases e) simp_all

lemma not_both:
  assumes "reconcile_trace E req r es" "rolled_back es"
  shows "\<not> released es"
proof
  assume "released es"
  then obtain b where b: "b \<in> set es" "sdk_mutation b" "\<not> is_EvRollback b"
    using released_mutation unfolding released_def by blast
  obtain a where a: "a \<in> set es" "sdk_mutation a" "is_EvRollback a"
    using assms(2) rollback_mutation unfolding rolled_back_def by blast
  obtain m where "set (filter sdk_mutation es) \<subseteq> {m}"
    using reconcile_mutations [OF assms(1)] by (cases "filter sdk_mutation es") auto
  then have "a \<in> {m}" "b \<in> {m}" using a b by (auto simp del: singleton_iff)
  with a(3) b(3) show False by simp
qed

lemma rollback_reads:
  assumes "reconcile_trace E req r es" "finalizer_laws E" "rolled_back es"
  shows "\<exists>app. EvGetApplication req (Inr app) \<in> set es"
proof -
  obtain m where m: "m \<in> set es" "is_EvRollback m" using assms(3) by (auto simp: rolled_back_def)
  from assms(1) m(1) mutation_is_change [OF rollback_mutation [OF m(2)]] show ?thesis
  proof (cases rule: change_cases)
    case (deletion app e es1 tail)
    then show ?thesis by auto
  qed (auto simp: works_on_def)
qed

text \<open>The labels of a pass: none for another object, and what they say about the events.\<close>

definition explains :: "NamespacedName \<Rightarrow> pass \<Rightarrow> lifecycle_label list \<Rightarrow> bool" where
  "explains k p ls \<longleftrightarrow> (case p of (req, es) \<Rightarrow>
     (req \<noteq> k \<longrightarrow> ls = []) \<and> (LApply \<in> set ls \<longrightarrow> req = k \<and> released es \<and> \<not> rolled_back es) \<and>
     (req = k \<longrightarrow> rolled_back es \<longrightarrow> LRollback \<in> set ls))"

lemma pass_path:
  assumes t: "reconcile_trace E k r es" and laws: "finalizer_laws E"
    and acc: "accepted es \<noteq> []" and app: "app \<in> set (reads es)" and echo: "echoed (status_writes es)"
  shows "\<exists>ls. explains k (k, es) ls \<and>
    path lifecycle_step (recorded (Status app)) ls (recorded (final_status (Status app) (accepted es)))"
proof -
  have "EvGetApplication k (Inr app) \<in> set es" using app reads_iff [OF t] by simp
  from reconcile_steps [OF t laws this echo] obtain ls
    where ls: "chain app ls (status_writes es)" "LApply \<in> set ls \<longrightarrow> released es" "rolled_back es \<longrightarrow> LRollback \<in> set ls"
    unfolding steps_from_def by blast
  have "explains k (k, es) ls" using ls not_both [OF t] by (auto simp: explains_def)
  with chain_path [OF ls(1) echo] show ?thesis unfolding accepted_writes by blast
qed

lemma no_accept_no_rollback:
  assumes "reconcile_trace E k r es" "finalizer_laws E" "accepted es = []"
  shows "\<not> rolled_back es"
proof
  assume rb: "rolled_back es"
  have "Inr stored \<notin> snd ` set ws" if "stored_writes ws = []" for stored ws
    using that by (induction ws rule: stored_writes.induct) auto
  then have echo: "echoed (status_writes es)"
    using assms(3) unfolding accepted_writes echoed_def by (force split: sum.split)
  obtain app where "EvGetApplication k (Inr app) \<in> set es" using rollback_reads [OF assms(1,2) rb] by blast
  from reconcile_steps [OF assms(1,2) this echo] rb obtain ls
    where "chain app ls (status_writes es)" "LRollback \<in> set ls"
    unfolding steps_from_def by blast
  with chain_length assms(3) show False unfolding accepted_writes by fastforce
qed

section \<open>A run as a path\<close>

lemma final_status_nonempty: "as \<noteq> [] \<Longrightarrow> final_status s as = final_status t as"
  by (cases as) simp_all

lemma coherent_path:
  assumes "finalizer_laws E" "\<forall>(req, es)\<in>set ps. \<exists>t. es = reconcile_events E req t" "coherent k s ps"
  shows "\<exists>lss u. list_all2 (explains k) ps lss \<and> path lifecycle_step (recorded s) (concat lss) u"
  using assms(2,3)
proof (induction ps arbitrary: s)
  case Nil
  then show ?case by (intro exI [of _ "[]"]) simp
next
  case (Cons p ps)
  obtain req es where p: "p = (req, es)" by fastforce
  obtain t where es: "es = reconcile_events E req t" using Cons.prems(1) p by auto
  have tr: "reconcile_trace E req (reconcile_result E req t) es"
    unfolding es by (rule reconcile_events_trace)
  show ?case
  proof (cases "req \<noteq> k \<or> accepted es = []")
    case True
    then have "coherent k s ps" using Cons.prems(2) p by simp
    with Cons obtain lss u where "list_all2 (explains k) ps lss" "path lifecycle_step (recorded s) (concat lss) u"
      by fastforce
    moreover have "explains k p []"
      using True no_accept_no_rollback [OF _ assms(1)] tr p by (auto simp: explains_def)
    ultimately show ?thesis by (intro exI [of _ "[] # lss"] exI [of _ u]) simp
  next
    case False
    then have k: "req = k" and acc: "accepted es \<noteq> []" by auto
    from False Cons.prems(2) p obtain app where app: "app \<in> set (reads es)"
        "recorded (Status app) = recorded s" and echo: "echoed (status_writes es)"
        and rest: "coherent k (final_status s (accepted es)) ps"
      by auto
    from pass_path [OF tr [unfolded k] assms(1) acc app(1) echo] obtain ls
      where ls: "explains k (k, es) ls"
        "path lifecycle_step (recorded (Status app)) ls (recorded (final_status (Status app) (accepted es)))"
      by blast
    from Cons.IH [OF _ rest] Cons.prems(1) obtain lss u
      where lss: "list_all2 (explains k) ps lss"
        "path lifecycle_step (recorded (final_status s (accepted es))) (concat lss) u"
      by auto
    have "path lifecycle_step (recorded s) (ls @ concat lss) u"
      using ls(2) lss(2) app(2) final_status_nonempty [OF acc, of "Status app" s] by (auto simp: path_append)
    with ls(1) lss(1) p k show ?thesis by (intro exI [of _ "ls # lss"] exI [of _ u]) simp
  qed
qed

lemma path_two_rollbacks:
  assumes "path lifecycle_step s (concat (as @ l1 # bs @ l2 # cs)) u" "status_inv s"
    "LRollback \<in> set l1" "LRollback \<in> set l2" "LApply \<notin> set l1" "LApply \<notin> set l2"
  shows "LApply \<in> set (concat bs)"
proof -
  obtain u1 v1 u2 v2 where l: "l1 = u1 @ LRollback # v1" "l2 = u2 @ LRollback # v2"
    using assms(3,4) by (meson split_list)
  have "path lifecycle_step s ((concat as @ u1) @ LRollback # (v1 @ concat bs @ u2) @ LRollback # (v2 @ concat cs)) u"
    using assms(1) l by simp
  from rollback_budget.rearmed_between [OF this assms(2)] have "LApply \<in> set (v1 @ concat bs @ u2)" by simp
  with assms(5,6) l show ?thesis by auto
qed

section \<open>The properties of a run\<close>

text \<open>
  C5. Anti-thrash: over any run, between two rollbacks of the same Application there is a
  pass over it that installed or upgraded its release with success. So a spec that keeps
  failing is rolled back once, however often it is reconciled, whatever other Applications
  do, and whatever else changes in the cluster.
\<close>

theorem one_rollback_per_release:
  assumes "finalizer_laws E" "run E start (xs @ (k, es1) # ys @ (k, es2) # zs) final" "status_inv s"
    "coherent k s (xs @ (k, es1) # ys @ (k, es2) # zs)" "rolled_back es1" "rolled_back es2"
  shows "\<exists>es. (k, es) \<in> set ys \<and> released es"
proof -
  from coherent_path [OF assms(1) run_passes [OF assms(2)] assms(4)] obtain lss u
    where ex: "list_all2 (explains k) (xs @ (k, es1) # ys @ (k, es2) # zs) lss"
      and p: "path lifecycle_step (recorded s) (concat lss) u" by blast
  then obtain as l1 bs l2 cs where lss: "lss = as @ l1 # bs @ l2 # cs" "list_all2 (explains k) ys bs"
      "explains k (k, es1) l1" "explains k (k, es2) l2"
    by (auto simp: list_all2_append1 list_all2_Cons1)
  have "LApply \<in> set (concat bs)"
    by (rule path_two_rollbacks [OF p [unfolded lss(1)]])
      (use lss(3,4) assms(3,5,6) recorded_inv in \<open>auto simp: explains_def\<close>)
  then obtain l where "l \<in> set bs" "LApply \<in> set l" by auto
  moreover from this lss(2) obtain q where "q \<in> set ys" "explains k q l"
    by (metis in_set_conv_nth list_all2_conv_all_nth)
  ultimately show ?thesis by (cases q) (auto simp: explains_def)
qed

section \<open>What every accepted status of a run satisfies\<close>

text \<open>The status that the last accepted write of some passes left.\<close>

fun status_after :: "NamespacedName \<Rightarrow> ApplicationStatus \<Rightarrow> pass list \<Rightarrow> ApplicationStatus" where
  "status_after k s [] = s"
| "status_after k s ((req, es) # ps) =
     status_after k (if req \<noteq> k \<or> accepted es = [] then s else final_status s (accepted es)) ps"

lemma coherent_append: "coherent k s (ps @ qs) \<longleftrightarrow> coherent k s ps \<and> coherent k (status_after k s ps) qs"
  by (induction k s ps rule: status_after.induct) auto

lemma chain_keeps:
  assumes "\<And>a b. recorded a = recorded b \<Longrightarrow> J a = J b"
    "\<And>a l b. lifecycle_step a l b \<Longrightarrow> allowed l \<Longrightarrow> J a \<Longrightarrow> J b"
  shows "chain app ls ws \<Longrightarrow> echoed ws \<Longrightarrow> \<forall>l\<in>set ls. allowed l \<Longrightarrow> J (Status app) \<Longrightarrow>
    (\<forall>stored\<in>set (stored_writes ws). J (Status stored)) \<and> J (final_status (Status app) (stored_writes ws))"
proof (induction app ls ws rule: chain.induct)
  case (3 app ls sent stored ws)
  then obtain l ls' where l: "ls = l # ls'" "lifecycle_step (Status app) l (Status sent)" "chain stored ls' ws" by auto
  have "J (Status sent)" using assms(2) [OF l(2)] 3(4,5) l(1) by simp
  then have "J (Status stored)" using assms(1) [of "Status stored" "Status sent"] 3(3) by simp
  then have "(\<forall>stored\<in>set (stored_writes ws). J (Status stored)) \<and> J (final_status (Status stored) (stored_writes ws))"
    using 3(1) [OF l(3)] 3(3,4) l(1) by simp
  with \<open>J (Status stored)\<close> show ?case by simp
qed auto

text \<open>
  A property of statuses that the server's cutting of times leaves alone, and that every step
  with an allowed label keeps, holds of every accepted status; the apply steps need be
  allowed only if some pass released.
\<close>

lemma coherent_keeps:
  assumes laws: "finalizer_laws E"
    and J: "\<And>a b. recorded a = recorded b \<Longrightarrow> J a = J b"
      "\<And>a l b. lifecycle_step a l b \<Longrightarrow> allowed l \<Longrightarrow> J a \<Longrightarrow> J b"
    and allowed: "\<And>l. l \<noteq> LApply \<Longrightarrow> allowed l" "\<And>es. (k, es) \<in> set ps \<Longrightarrow> released es \<Longrightarrow> allowed LApply"
    and passes: "\<forall>(req, es)\<in>set ps. \<exists>t. es = reconcile_events E req t" and coh: "coherent k s ps" and "J s"
  shows "J (status_after k s ps) \<and> (\<forall>es stored. (k, es) \<in> set ps \<longrightarrow> stored \<in> set (accepted es) \<longrightarrow> J (Status stored))"
  using passes coh assms(8) allowed(2)
proof (induction ps arbitrary: s)
  case (Cons p ps)
  obtain req fs where p: "p = (req, fs)" by fastforce
  show ?case
  proof (cases "req \<noteq> k \<or> accepted fs = []")
    case True
    then have "J (status_after k s ps) \<and> (\<forall>es stored. (k, es) \<in> set ps \<longrightarrow> stored \<in> set (accepted es) \<longrightarrow> J (Status stored))"
      using Cons p by (intro Cons.IH) auto
    with True p show ?thesis by auto
  next
    case False
    then obtain t where fs: "fs = reconcile_events E k t" using Cons.prems(1) p by auto
    have tr: "reconcile_trace E k (reconcile_result E k t) fs" unfolding fs by (rule reconcile_events_trace)
    from False Cons.prems(2) p obtain app where app: "app \<in> set (reads fs)"
        "recorded (Status app) = recorded s" and echo: "echoed (status_writes fs)"
        and rest: "coherent k (final_status s (accepted fs)) ps"
      by auto
    from reconcile_steps [OF tr laws _ echo] app(1) reads_iff [OF tr] obtain ls
      where ls: "chain app ls (status_writes fs)" "LApply \<in> set ls \<longrightarrow> released fs"
      unfolding steps_from_def by blast
    have ok: "\<forall>l\<in>set ls. allowed l"
    proof
      fix l assume "l \<in> set ls"
      then show "allowed l" using allowed(1) [of l] ls(2) Cons.prems(4) [of fs] False p by (cases "l = LApply") auto
    qed
    have "J (Status app)" using J(1) [OF app(2)] Cons.prems(3) by simp
    from chain_keeps [where J = J and allowed = allowed, OF J ls(1) echo ok this]
    have here: "\<forall>stored\<in>set (accepted fs). J (Status stored)" "J (final_status s (accepted fs))"
      using False final_status_nonempty [of "accepted fs" s "Status app"] by (auto simp: accepted_writes)
    have "J (status_after k (final_status s (accepted fs)) ps) \<and>
        (\<forall>es stored. (k, es) \<in> set ps \<longrightarrow> stored \<in> set (accepted es) \<longrightarrow> J (Status stored))"
      by (rule Cons.IH) (use Cons.prems rest here(2) p in auto)
    with here(1) False p show ?thesis by auto
  qed
qed simp

lemma coherent_inv:
  assumes "finalizer_laws E" "\<forall>(req, es)\<in>set ps. \<exists>t. es = reconcile_events E req t" "coherent k s ps" "status_inv s"
  shows "status_inv (status_after k s ps)"
    and "(k, es) \<in> set ps \<Longrightarrow> stored \<in> set (accepted es) \<Longrightarrow> status_inv (Status stored)"
  using coherent_keeps [where J = status_inv and allowed = "\<lambda>_. True", OF assms(1) _ _ _ _ assms(2-4)]
    recorded_inv lifecycle_step_inv by metis+

text \<open>
  C13. Over any run, every status the server accepts for an Application is consistent: a
  Deployed one has a rollback left, one that is RollingBack names a failed revision that had
  a predecessor, a recorded failed revision is never 1, and no status says Pending.
\<close>

theorem stored_status_consistent:
  assumes "finalizer_laws E" "run E start ps final" "coherent k s ps" "status_inv s"
    "(k, es) \<in> set ps" "stored \<in> set (accepted es)"
  shows "(Phase (Status stored) = PhaseDeployed \<longrightarrow> LastFailedRevision (Status stored) = 0) \<and>
    (Phase (Status stored) = PhaseRollingBack \<longrightarrow> LastFailedRevision (Status stored) > 1) \<and>
    (LastFailedRevision (Status stored) = 0 \<or> LastFailedRevision (Status stored) > 1) \<and>
    Phase (Status stored) \<noteq> PhasePending"
  using coherent_inv(2) [OF assms(1) run_passes [OF assms(2)] assms(3-6)] by (simp add: status_inv_def)

section \<open>After a rollback\<close>

lemma rollback_is_recorded:
  assumes "finalizer_laws E" "es = reconcile_events E k t" "rolled_back es" "coherent k s ((k, es) # ps)"
    "EvGetApplication k (Inr read) \<in> set es"
  shows "LastFailedRevision (status_after k s [(k, es)]) = HelmRevision (Status read) \<and> HelmRevision (Status read) \<noteq> 0"
proof -
  have tr: "reconcile_trace E k (reconcile_result E k t) es" unfolding assms(2) by (rule reconcile_events_trace)
  have acc: "accepted es \<noteq> []" using no_accept_no_rollback [OF tr assms(1)] assms(3) by blast
  with assms(4) obtain app where app: "app \<in> set (reads es)" and echo: "echoed (status_writes es)"
    by auto
  have same: "app = read" using one_read [OF tr _ assms(5)] app reads_iff [OF tr] by blast
  from pass_path [OF tr assms(1) acc app echo] obtain ls
    where ls: "explains k (k, es) ls"
      "path lifecycle_step (recorded (Status app)) ls (recorded (final_status (Status app) (accepted es)))"
    by blast
  from ls(1) assms(3) have l: "LRollback \<in> set ls" "LApply \<notin> set ls" by (auto simp: explains_def)
  from path_records_revision [OF ls(2) l(2,1)] show ?thesis
    using acc same final_status_nonempty [OF acc, of "Status app" s] by simp
qed

text \<open>
  C6. A failed spec is not reported as deployed: over any run, after a rollback of an
  Application and until a pass installs or upgrades its release with success, no status the
  server accepts for it says Deployed, however healthy the workloads of the old revision are,
  and each one keeps, as the revision that failed, exactly the revision that the pass of the
  rollback had read as the deployed one, which is never 1.
\<close>

theorem failed_release_is_not_reported_deployed:
  assumes "finalizer_laws E" "run E start (xs @ (k, es1) # ys) final" "coherent k s (xs @ (k, es1) # ys)"
    "status_inv s" "rolled_back es1" "EvGetApplication k (Inr read) \<in> set es1"
    "\<forall>es. (k, es) \<in> set ys \<longrightarrow> \<not> released es" "(k, es) \<in> set ys" "stored \<in> set (accepted es)"
  shows "Phase (Status stored) \<noteq> PhaseDeployed \<and>
    LastFailedRevision (Status stored) = HelmRevision (Status read) \<and> HelmRevision (Status read) > 1"
proof -
  let ?s = "status_after k s xs" and ?r = "HelmRevision (Status read)"
  let ?J = "\<lambda>a. status_inv a \<and> LastFailedRevision a = ?r"
  have passes: "\<forall>(req, es)\<in>set (xs @ (k, es1) # ys). \<exists>t. es = reconcile_events E req t"
    by (rule run_passes [OF assms(2)])
  then obtain t where t: "es1 = reconcile_events E k t" by auto
  have coh: "coherent k s xs" "coherent k ?s ((k, es1) # ys)" using assms(3) by (simp_all add: coherent_append)
  have inv: "status_inv ?s" by (rule coherent_inv(1) [OF assms(1) _ coh(1) assms(4)]) (use passes in auto)
  let ?u = "status_after k ?s [(k, es1)]"
  have rest: "coherent k ?s [(k, es1)]" "coherent k ?u ys"
    using coh(2) coherent_append [of k ?s "[(k, es1)]" ys] by simp_all
  have "status_inv ?u" by (rule coherent_inv(1) [OF assms(1) _ rest(1) inv]) (use passes in auto)
  with rollback_is_recorded [OF assms(1) t assms(5) coh(2) assms(6)] have start: "?J ?u" and r: "?r \<noteq> 0" by simp_all
  have "?J (status_after k ?u ys) \<and> (\<forall>es stored. (k, es) \<in> set ys \<longrightarrow> stored \<in> set (accepted es) \<longrightarrow> ?J (Status stored))"
  proof (rule coherent_keeps [where J = ?J and allowed = "\<lambda>l. l \<noteq> LApply", OF assms(1) _ _ _ _ _ rest(2) start])
    fix a b assume same: "recorded a = recorded b"
    have "status_inv a = status_inv b" using recorded_inv [of a] recorded_inv [of b] same by simp
    then show "?J a = ?J b" using recorded_fields(2) [OF same] by simp
  next
    fix a l b assume "lifecycle_step a l b" "l \<noteq> LApply" "?J a"
    then show "?J b" using lifecycle_step_inv step_keeps_failed [of a l b] r by metis
  qed (use assms(7) passes in auto)
  with assms(8,9) have "?J (Status stored)" by blast
  then show ?thesis using r unfolding status_inv_def by auto
qed

section \<open>A run with two rollbacks\<close>

text \<open>
  The release never becomes healthy. The first pass rolls it back; the user then changes the
  spec, the second pass upgrades the release and the third rolls it back again.
\<close>

definition demo_failing :: "demo env" where
  "demo_failing = demo_env (\<lambda>_ _. FailedStatus)"

definition demo_respec :: "Application \<Rightarrow> Application" where
  "demo_respec app = app\<lparr>Meta := (Meta app)\<lparr>Generation := 4\<rparr>\<rparr>"

definition demo_start :: "(demo, event) st" where
  "demo_start = demo_state (demo_app (demo_status PhaseDeploying 3 0)) 3 10"

definition demo_changed :: "(demo, event) st" where
  "demo_changed = demo_state (demo_respec (demo_app (demo_status PhaseDegraded 4 3))) 4 20"

definition demo_upgraded :: "(demo, event) st" where
  "demo_upgraded = demo_state (demo_respec (demo_app ((demo_status PhaseDeploying 5 0)\<lparr>ObservedGeneration := 4\<rparr>))) 5 30"

definition demo_passes :: "pass list" where
  "demo_passes = [(demo_req, reconcile_events demo_failing demo_req demo_start),
     (demo_req, reconcile_events demo_failing demo_req demo_changed),
     (demo_req, reconcile_events demo_failing demo_req demo_upgraded)]"

lemma demo_run: "run demo_failing demo_start demo_passes (reconcile_next demo_failing demo_req demo_upgraded)"
proof -
  have "run demo_failing demo_start [(demo_req, reconcile_events demo_failing demo_req demo_start)] demo_changed"
    using run_outside [OF run_pass [OF run_none, of demo_failing demo_start demo_req]]
    by (simp add: demo_changed_def demo_state_def)
  from run_outside [OF run_pass [OF this, of demo_req]]
  have "run demo_failing demo_start [(demo_req, reconcile_events demo_failing demo_req demo_start),
      (demo_req, reconcile_events demo_failing demo_req demo_changed)] demo_upgraded"
    by (simp add: demo_upgraded_def demo_state_def)
  from run_pass [OF this, of demo_req] show ?thesis by (simp add: demo_passes_def)
qed

lemma demo_coherent: "coherent demo_req (demo_status PhaseDeploying 3 0) demo_passes"
  by code_simp

lemma demo_failing_laws: "finalizer_laws demo_failing"
  unfolding demo_failing_def by (rule demo_finalizer_laws)

lemma demo_rolled_back: "rolled_back (reconcile_events demo_failing demo_req demo_start) \<and>
   rolled_back (reconcile_events demo_failing demo_req demo_upgraded)"
  by code_simp

theorem one_rollback_per_release_witness:
  "rolled_back (reconcile_events demo_failing demo_req demo_start) \<and>
   rolled_back (reconcile_events demo_failing demo_req demo_upgraded) \<and>
   (\<exists>es. (demo_req, es) \<in> set [(demo_req, reconcile_events demo_failing demo_req demo_changed)] \<and> released es)"
proof -
  have rb: "rolled_back (reconcile_events demo_failing demo_req demo_start)"
    "rolled_back (reconcile_events demo_failing demo_req demo_upgraded)"
    using demo_rolled_back by blast+
  have inv: "status_inv (demo_status PhaseDeploying 3 0)" by (simp add: status_inv_def demo_status_def)
  have split: "demo_passes = [] @ (demo_req, reconcile_events demo_failing demo_req demo_start) #
      [(demo_req, reconcile_events demo_failing demo_req demo_changed)] @
      (demo_req, reconcile_events demo_failing demo_req demo_upgraded) # []"
    by (simp add: demo_passes_def)
  from one_rollback_per_release [OF demo_failing_laws demo_run [unfolded split] inv demo_coherent [unfolded split] rb]
  show ?thesis using rb by blast
qed

theorem stored_status_consistent_witness:
  "\<exists>stored. stored \<in> set (accepted (reconcile_events demo_failing demo_req demo_upgraded)) \<and>
     Phase (Status stored) = PhaseRollingBack \<and> LastFailedRevision (Status stored) > 1"
proof -
  let ?es = "reconcile_events demo_failing demo_req demo_upgraded"
  have inv: "status_inv (demo_status PhaseDeploying 3 0)" by (simp add: status_inv_def demo_status_def)
  have mem: "(demo_req, ?es) \<in> set demo_passes" by (simp add: demo_passes_def)
  have first: "hd (accepted ?es) \<in> set (accepted ?es) \<and> Phase (Status (hd (accepted ?es))) = PhaseRollingBack"
    by code_simp
  with stored_status_consistent [OF demo_failing_laws demo_run demo_coherent inv mem conjunct1 [OF first]] show ?thesis by blast
qed

text \<open>The pass after a rollback, with the workloads of the old revision failing as well.\<close>

definition demo_rested :: "(demo, event) st" where
  "demo_rested = demo_state (demo_app (demo_status PhaseDegraded 4 3)) 4 20"

lemma demo_rested_run: "run demo_failing demo_start
    ([] @ (demo_req, reconcile_events demo_failing demo_req demo_start) #
     [(demo_req, reconcile_events demo_failing demo_req demo_rested)]) (reconcile_next demo_failing demo_req demo_rested)"
proof -
  have "run demo_failing demo_start [(demo_req, reconcile_events demo_failing demo_req demo_start)] demo_rested"
    using run_outside [OF run_pass [OF run_none, of demo_failing demo_start demo_req]]
    by (simp add: demo_rested_def demo_state_def)
  from run_pass [OF this, of demo_req] show ?thesis by simp
qed

theorem failed_release_is_not_reported_deployed_witness:
  "\<exists>stored. stored \<in> set (accepted (reconcile_events demo_failing demo_req demo_rested)) \<and>
     Phase (Status stored) \<noteq> PhaseDeployed \<and> LastFailedRevision (Status stored) = 3"
proof -
  let ?es1 = "reconcile_events demo_failing demo_req demo_start" and ?es = "reconcile_events demo_failing demo_req demo_rested"
  let ?read = "demo_app (demo_status PhaseDeploying 3 0)"
  have rb: "rolled_back ?es1" using demo_rolled_back by blast
  have run: "coherent demo_req (demo_status PhaseDeploying 3 0) ([] @ (demo_req, ?es1) # [(demo_req, ?es)]) \<and>
      \<not> released ?es \<and> accepted ?es \<noteq> []"
    by code_simp
  note coh = conjunct1 [OF run]
  have read: "EvGetApplication demo_req (Inr ?read) \<in> set ?es1" by code_simp
  have inv: "status_inv (demo_status PhaseDeploying 3 0)" by (simp add: status_inv_def demo_status_def)
  from run have quiet: "\<forall>es. (demo_req, es) \<in> set [(demo_req, ?es)] \<longrightarrow> \<not> released es"
    and mem: "(demo_req, ?es) \<in> set [(demo_req, ?es)]" "hd (accepted ?es) \<in> set (accepted ?es)"
    by simp_all
  have "HelmRevision (Status ?read) = 3" by (simp add: demo_app_def demo_status_def)
  with failed_release_is_not_reported_deployed [OF demo_failing_laws demo_rested_run coh inv rb read quiet mem] mem(2)
  show ?thesis by metis
qed

end
