(* ===== verification/Schema.thy ===== *)
theory Schema
  imports Refinement
begin

text \<open>
  The type of a stored status: the schema that \<open>controller-gen\<close> derives from
  \<open>api/v1alpha1/application_types.go\<close> and by which the API server accepts or refuses what is
  written. The phase is one of an enumeration, the conditions are a list keyed by type, and
  each has a reason of a given pattern, a generation that is no negative number and a time.
  Every status the reconciler sends is of this type when the one it read was, unless a message
  is too long.
\<close>

section \<open>The schema\<close>

definition letter :: "char \<Rightarrow> bool" where
  "letter c \<longleftrightarrow> c \<in> set ''ABCDEFGHIJKLMNOPQRSTUVWXYZabcdefghijklmnopqrstuvwxyz''"

definition word_char :: "char \<Rightarrow> bool" where
  "word_char c \<longleftrightarrow> letter c \<or> c \<in> set ''0123456789_''"

text \<open>\<open>^[A-Za-z]([A-Za-z0-9_,:]*[A-Za-z0-9_])?$\<close>, at most 1024 characters.\<close>

definition valid_reason :: "string \<Rightarrow> bool" where
  "valid_reason r \<longleftrightarrow> r \<noteq> '''' \<and> length r \<le> 1024 \<and> letter (hd r) \<and>
     list_all (\<lambda>c. word_char c \<or> c \<in> set '',:'') (tl r) \<and> word_char (last r)"

definition phase_enum :: "string list" where
  "phase_enum = [''Pending'', ''Deploying'', ''Deployed'', ''Degraded'', ''RollingBack'', ''Failed'']"

definition condition_types :: "string list" where
  "condition_types = [''Released'', ''Healthy'', ''Ready'']"

text \<open>
  A condition, but for the limit on its message. Its status is one of the enumeration by its
  datatype.
\<close>

definition condition_shape :: "Condition \<Rightarrow> bool" where
  "condition_shape c \<longleftrightarrow> condType c \<in> set condition_types \<and> valid_reason (condReason c) \<and>
     0 \<le> condObservedGeneration c \<and> condLastTransitionTime c \<noteq> None"

text \<open>
  The schema counts the characters of a message, and a Go string is its bytes in UTF-8: of each
  character every byte but the first is a continuation byte.
\<close>

definition characters :: "string \<Rightarrow> nat" where
  "characters m = length (filter (\<lambda>c. of_char c < (128 :: nat) \<or> of_char c \<ge> (192 :: nat)) m)"

definition message_limit :: nat where
  "message_limit = 32768"

definition condition_ok :: "Condition \<Rightarrow> bool" where
  "condition_ok c \<longleftrightarrow> condition_shape c \<and> characters (condMessage c) \<le> message_limit"

definition conditions_ok :: "Condition list \<Rightarrow> bool" where
  "conditions_ok cs \<longleftrightarrow> distinct (map condType cs) \<and> (\<forall>c\<in>set cs. condition_ok c)"

text \<open>An empty phase is left out of what is sent (\<open>omitempty\<close>), which the schema allows.\<close>

definition fits_schema :: "Application \<Rightarrow> bool" where
  "fits_schema app \<longleftrightarrow> conditions_ok (Conditions (Status app)) \<and>
     (Phase (Status app) = PhaseUnset \<or> phase_string (Phase (Status app)) \<in> set phase_enum)"

text \<open>
  The same without the limit on messages, and what the generation has to be for that. What is
  read may have no phase yet; what is written has one.
\<close>

definition conditions_shaped :: "Condition list \<Rightarrow> bool" where
  "conditions_shaped cs \<longleftrightarrow> distinct (map condType cs) \<and> (\<forall>c\<in>set cs. condition_shape c)"

definition readable :: "Application \<Rightarrow> bool" where
  "readable app \<longleftrightarrow> 0 \<le> Generation (Meta app) \<and> conditions_shaped (Conditions (Status app))"

definition well_shaped :: "Application \<Rightarrow> bool" where
  "well_shaped app \<longleftrightarrow> readable app \<and> Phase (Status app) \<noteq> PhaseUnset \<and>
     phase_string (Phase (Status app)) \<in> set phase_enum"

lemma fits_iff_messages:
  "well_shaped app \<Longrightarrow> Phase (Status app) \<noteq> PhaseUnset \<and>
   (fits_schema app \<longleftrightarrow> (\<forall>c\<in>set (Conditions (Status app)). characters (condMessage c) \<le> message_limit))"
  by (auto simp: fits_schema_def well_shaped_def readable_def conditions_ok_def conditions_shaped_def condition_ok_def)

section \<open>What the library and the server promise\<close>

text \<open>
  \<open>apimeta.SetStatusCondition\<close>: a condition of the given type is updated in its place, its
  time set when its status changes; without one, the condition is appended with a time.
\<close>

definition condition_list_law :: "'w env \<Rightarrow> bool" where
  "condition_list_law E \<longleftrightarrow> (\<forall>t cs c. \<exists>d. same_condition d c \<and>
     (condType c \<notin> condType ` set cs \<and> condLastTransitionTime d \<noteq> None \<and>
        SetStatusCondition E t cs c = cs @ [d] \<or>
      (\<exists>as old bs. cs = as @ old # bs \<and> condType old = condType c \<and>
        (condLastTransitionTime old \<noteq> None \<longrightarrow> condLastTransitionTime d \<noteq> None) \<and>
        SetStatusCondition E t cs c = as @ d # bs)))"

text \<open>The server answers a status write with an object whose conditions are of the type of those sent.\<close>

definition status_echo_law :: "'w env \<Rightarrow> bool" where
  "status_echo_law E \<longleftrightarrow> (\<forall>app w stored w'. UpdateStatus E app w = (Inr stored, w') \<longrightarrow>
     readable app \<longrightarrow> readable stored)"

lemma set_condition_ok:
  assumes "condition_list_law E" "conditions_shaped cs" "condType c \<in> set condition_types"
    "valid_reason (condReason c)" "0 \<le> condObservedGeneration c"
  shows "conditions_shaped (SetStatusCondition E t cs c)"
proof -
  obtain d where d: "same_condition d c"
    "condType c \<notin> condType ` set cs \<and> condLastTransitionTime d \<noteq> None \<and> SetStatusCondition E t cs c = cs @ [d] \<or>
      (\<exists>as old bs. cs = as @ old # bs \<and> condType old = condType c \<and>
        (condLastTransitionTime old \<noteq> None \<longrightarrow> condLastTransitionTime d \<noteq> None) \<and>
        SetStatusCondition E t cs c = as @ d # bs)"
    using assms(1) unfolding condition_list_law_def by meson
  have "condType d = condType c" "condReason d = condReason c" "condObservedGeneration d = condObservedGeneration c"
    using d(1) by (simp_all add: same_condition_def)
  with d(2) assms(2-) show ?thesis
    by (elim disjE exE conjE) (auto simp: conditions_shaped_def condition_shape_def)
qed

section \<open>Typed events\<close>

fun typed_event :: "event \<Rightarrow> bool" where
  "typed_event (EvStatusUpdate sent _) = well_shaped sent"
| "typed_event _ = True"

lemma typed_unwritten: "\<not> is_EvStatusUpdate e \<Longrightarrow> typed_event e"
  by (cases e) simp_all

lemma typed_writes: "(\<forall>e\<in>set es. typed_event e) \<longleftrightarrow> (\<forall>(sent, res)\<in>set (status_writes es). well_shaped sent)"
proof (induction es)
  case (Cons e es)
  then show ?case by (cases e) simp_all
qed simp

lemma typed_StatusUpdate:
  fixes E :: "'w env"
  assumes "status_echo_law E" "well_shaped app"
    "\<And>stored. readable stored \<Longrightarrow> emits_only (f (Inr stored)) typed_event"
    "\<And>err. emits_only (f (Inl err)) typed_event"
  shows "emits_only (c_StatusUpdate E app \<bind> f) typed_event"
proof (rule emitsI)
  fix s :: "('w, event) st"
  obtain r w where r: "UpdateStatus E app (world s) = (r, w)" by fastforce
  let ?s = "s\<lparr>world := w, log := log s @ [EvStatusUpdate app r]\<rparr>"
  have run: "run_state (c_StatusUpdate E app \<bind> f) s = run_state (f r) ?s"
    using r by (simp add: c_StatusUpdate_def)
  have "emits_only (f r) typed_event"
  proof (cases r)
    case (Inr stored)
    then have "readable stored" using assms(1,2) r by (auto simp: status_echo_law_def well_shaped_def)
    with assms(3) Inr show ?thesis by simp
  qed (use assms(4) in simp)
  then obtain es where "log (snd (run_state (f r) ?s)) = log ?s @ es" "\<forall>e\<in>set es. typed_event e"
    unfolding emits_def by blast
  with assms(2) show "\<exists>es. log (snd (run_state (c_StatusUpdate E app \<bind> f) s)) = log s @ es \<and>
      (\<forall>e\<in>set es. typed_event e)"
    unfolding run by (intro exI [of _ "EvStatusUpdate app r # es"]) simp
qed

lemma typed_setCondition:
  assumes "condition_list_law E" "readable app" "ty \<in> set condition_types" "valid_reason reason"
    "\<And>app'. readable app' \<Longrightarrow> Phase (Status app') = Phase (Status app) \<Longrightarrow> emits_only (f app') typed_event"
  shows "emits_only (setCondition E app ty st reason msg \<bind> f) typed_event"
proof (rule emits_bind, rule emits_setCondition)
  fix t
  let ?c = "new_condition app ty st reason msg"
  let ?app = "with_status (\<lambda>s. s\<lparr>Conditions := SetStatusCondition E t (Conditions s) ?c\<rparr>) app"
  have "conditions_shaped (SetStatusCondition E t (Conditions (Status app)) ?c)"
    by (rule set_condition_ok) (use assms(1-4) in \<open>auto simp: readable_def new_condition_def\<close>)
  then have "emits_only (f ?app) typed_event" using assms(2) by (intro assms(5)) (simp_all add: readable_def)
  then show "emits (f ?app) (\<lambda>b es'. \<forall>e\<in>set ([] @ es'). typed_event e)" by simp
qed

lemma readable_status:
  "(\<And>s. Conditions (f s) = Conditions s) \<Longrightarrow> readable (with_status f app) = readable app"
  by (simp add: readable_def)

lemma reasons_valid:
  "valid_reason ''NamespaceError''" "valid_reason ''HelmError''" "valid_reason ''ValuesError''"
  "valid_reason ''ReleaseApplied''" "valid_reason ''Progressing''" "valid_reason ''AllWorkloadsCurrent''"
  "valid_reason ''Deployed''" "valid_reason ''ProgressDeadlineExceeded''" "valid_reason ''WorkloadFailed''"
  "valid_reason ''Degraded''" "valid_reason ''RollingBack''" "valid_reason ''RollbackFailed''"
  "valid_reason ''RolledBack''"
  by (simp_all add: valid_reason_def letter_def word_char_def)

lemma types_listed:
  "ConditionReleased \<in> set condition_types" "ConditionHealthy \<in> set condition_types"
  "ConditionReady \<in> set condition_types"
  by (simp_all add: condition_types_def ConditionReleased_def ConditionHealthy_def ConditionReady_def)

lemma phases_listed:
  "p \<noteq> PhaseUnset \<Longrightarrow> phase_string p \<in> set phase_enum"
  by (cases p) (simp_all add: phase_enum_def)

lemma fits_intro: "readable app \<Longrightarrow> Phase (Status app) \<noteq> PhaseUnset \<Longrightarrow> well_shaped app"
  by (simp add: well_shaped_def phases_listed)

text \<open>Two conditions in a row, after the phase was set: how every handler prepares its write.\<close>

lemma typed_two_conditions:
  assumes "condition_list_law E" "readable app" "Phase (Status app) \<noteq> PhaseUnset"
    "ty \<in> set condition_types" "ty' \<in> set condition_types" "valid_reason r" "valid_reason r'"
    "\<And>app'. well_shaped app' \<Longrightarrow> emits_only (f app') typed_event"
  shows "emits_only (setCondition E app ty st r m \<bind> (\<lambda>app1. setCondition E app1 ty' st' r' m' \<bind> f)) typed_event"
  by (rule typed_setCondition [OF assms(1,2,4,6)], rule typed_setCondition [OF assms(1) _ assms(5,7)], assumption,
      rule assms(8), rule fits_intro) (simp_all add: assms(3))

section \<open>The handlers\<close>

lemma typed_ret: "emits_only (ret x) typed_event"
  by (simp add: emits_return)

lemma typed_by_contract:
  assumes "emits m P" "\<And>r es. P r es \<Longrightarrow> \<forall>e\<in>set es. \<not> is_EvStatusUpdate e"
  shows "emits_only m typed_event"
  by (rule emits_mono [OF assms(1)]) (use assms(2) typed_unwritten in blast)

lemma typed_fail:
  assumes "condition_list_law E" "status_echo_law E" "readable app" "valid_reason reason"
  shows "emits_only (fail E app reason cause) typed_event"
  unfolding fail_def Let_def
  by (rule typed_two_conditions [OF assms(1)])
    (auto simp: readable_status types_listed assms(3,4) intro!: typed_StatusUpdate [OF assms(2)] typed_ret)

lemma typed_setDegraded:
  assumes "condition_list_law E" "status_echo_law E" "readable app" "valid_reason reason"
  shows "emits_only (setDegraded E app reason msg d) typed_event"
  unfolding setDegraded_def Let_def
  by (rule typed_two_conditions [OF assms(1)])
    (auto simp: readable_status types_listed reasons_valid assms(3,4) intro!: typed_StatusUpdate [OF assms(2)] typed_ret)

lemma typed_write_if_changed:
  assumes "status_echo_law E" "before \<noteq> Status app \<Longrightarrow> well_shaped app"
  shows "emits_only (write_if_changed E before app res) typed_event"
  unfolding write_if_changed_def
  using assms(2) by (auto intro!: typed_StatusUpdate [OF assms(1)] typed_ret)

lemma typed_handleUnhealthy:
  assumes "condition_list_law E" "status_echo_law E" "readable app"
  shows "emits_only (handleUnhealthy E app health detail) typed_event"
proof -
  obtain reason d where rd: "(if health \<noteq> FailedStatus
            then (''ProgressDeadlineExceeded'', ''workloads not ready within '' @
                    fmt_d (sint (ProgressDeadlineSeconds (Spec app))) @ ''s'')
            else (''WorkloadFailed'', detail)) = (reason, d)"
    by fastforce
  have reason: "valid_reason reason" using rd by (auto simp: reasons_valid split: if_splits)
  have degraded: "emits_only (setDegraded E app' r m t) typed_event"
    if "readable app'" "valid_reason r" for app' r m t
    using typed_setDegraded [OF assms(1,2) that] .
  have after: "emits_only (State_Monad.bind (Rollback E n ns) f) typed_event"
    if "\<And>rb. emits_only (f rb) typed_event" for n ns f
    by (rule emits_only_bind [OF typed_by_contract [OF hm.rollback_scoped]]) (use that in_scope_not_write in blast)+
  have got: "emits_only (State_Monad.bind (GetRelease E n ns) f) typed_event"
    if "\<And>g. emits_only (f g) typed_event" for n ns f
    by (rule emits_only_bind [OF typed_by_contract [OF hm.get_scoped]]) (use that in_scope_not_write in blast)+
  show ?thesis
    unfolding handleUnhealthy_def Let_def rd prod.case
    apply (intro emits_if degraded assms(3) reason)
    apply (rule typed_two_conditions [OF assms(1)])
          apply (simp_all add: readable_status assms(3) types_listed reason reasons_valid)
    apply (rule typed_StatusUpdate [OF assms(2)])
      apply (auto intro!: after got degraded typed_ret simp: readable_status reasons_valid split: option.split sum.split)
    done
qed

lemma typed_scoped:
  assumes "emits_only m (in_scope ns)"
  shows "emits_only m typed_event"
  by (rule typed_by_contract [OF assms]) (auto dest: in_scope_not_write)

lemma typed_drivePhase:
  assumes "condition_list_law E" "status_echo_law E" "readable app"
  shows "emits_only (drivePhase E app health detail) typed_event"
proof -
  have settle: "emits_only (State_Monad.bind (setCondition E (with_status (\<lambda>s. s\<lparr>Phase := p\<rparr>) app) ty st r m)
      (\<lambda>app2. State_Monad.bind (setCondition E app2 ty' st' r' m') (\<lambda>app3. write_if_changed E (Status app) app3 res)))
      typed_event"
    if "p \<noteq> PhaseUnset" "ty \<in> set condition_types" "ty' \<in> set condition_types" "valid_reason r" "valid_reason r'"
    for p ty ty' st st' r r' m m' res
    by (rule typed_two_conditions [OF assms(1)])
      (use that in \<open>auto simp: readable_status assms(3) intro: typed_write_if_changed [OF assms(2)]\<close>)
  have late: "emits_only (if health = FailedStatus then ret True
      else if health \<noteq> CurrentStatus then deadlineExceeded E app else ret False) typed_event"
    unfolding deadlineExceeded_def by (auto intro!: emits_intros)
  have success: "emits_only (if c then signal (EvDeploymentSuccess n ns) else ret ()) typed_event" for c n ns
    by (auto intro!: emits_intros)
  show ?thesis
    unfolding drivePhase_def Let_def
    by (intro emits_only_bind [OF late] emits_if typed_handleUnhealthy [OF assms] emits_only_bind [OF success]
        settle typed_write_if_changed [OF assms(2)])
      (simp_all add: types_listed reasons_valid)
qed

lemma typed_reconcileHealth:
  assumes "condition_list_law E" "status_echo_law E" "readable app"
  shows "emits_only (reconcileHealth E app) typed_event"
proof -
  have got: "emits_only (GetRelease E n ns) typed_event" for n ns
    by (rule typed_by_contract [OF hm.get_scoped]) (auto dest: in_scope_not_write)
  have health: "emits_only (releaseHealth E m ns) typed_event" for m ns
    by (rule emits_mono [OF releaseHealth_trace], drule writes_health) (simp add: typed_writes)
  show ?thesis
    unfolding reconcileHealth_def
    by (rule emits_only_bind [OF got], rule emits_case_sum, rule typed_ret, rule emits_only_bind [OF health],
        rule emits_case_sum, rule typed_ret, rule emits_case_prod, rule typed_drivePhase [OF assms])
qed

lemma typed_applyRelease:
  assumes "condition_list_law E" "status_echo_law E" "readable app"
  shows "emits_only (applyRelease E app vs h) typed_event"
proof -
  have ensure: "emits_only (ensureNamespace E n) typed_event" for n
    by (rule emits_mono [OF ensureNamespace_contract], drule writes_ensure) (simp add: typed_writes)
  have failing: "emits_only (State_Monad.bind (fail E app reason cause) (\<lambda>e. ret (x, Some e))) typed_event"
    if "valid_reason reason" for reason cause x
    by (rule emits_only_bind [OF typed_fail [OF assms that]]) (rule typed_ret)
  show ?thesis
    unfolding applyRelease_def Let_def
    apply (rule emits_only_bind [OF ensure], rule emits_case_option)
     apply (rule emits_only_bind [OF typed_scoped [OF hm.install_scoped]], rule emits_case_sum)
      apply (rule failing, rule reasons_valid)
     apply (rule emits_only_bind, rule emits_peek, simp)
     apply (rule typed_two_conditions [OF assms(1)])
           apply (simp_all add: types_listed reasons_valid readable_status applied_status_def assms(3))
     apply (auto intro!: typed_StatusUpdate [OF assms(2)] typed_ret) [1]
    apply (rule failing, rule reasons_valid)
    done
qed

lemma typed_reconcile_live:
  assumes "condition_list_law E" "status_echo_law E" "readable app"
  shows "emits_only (reconcile_live E app) typed_event"
proof -
  have vals: "emits_only (resolveValues E app) typed_event"
    by (rule emits_mono [OF resolveValues_contract], drule values_events) (auto simp: is_EvGetSecret_def)
  have failing: "emits_only (State_Monad.bind (fail E app ''ValuesError'' cause) (\<lambda>e. ret (x, Some e))) typed_event" for cause x
    by (rule emits_only_bind [OF typed_fail [OF assms reasons_valid(3)]]) (rule typed_ret)
  show ?thesis
    unfolding reconcile_live_def
    by (rule emits_only_bind [OF vals], rule emits_case_sum, rule failing, rule emits_case_prod, rule emits_if,
        rule typed_applyRelease [OF assms], rule typed_reconcileHealth [OF assms])
qed

section \<open>A pass\<close>

text \<open>The writes of a computation are typed if what it read is.\<close>

definition typed_from_reads :: "event list \<Rightarrow> bool" where
  "typed_from_reads es \<longleftrightarrow>
     (\<forall>k app. EvGetApplication k (Inr app) \<in> set es \<longrightarrow> readable app) \<longrightarrow> (\<forall>e\<in>set es. typed_event e)"

lemma typed_delete: "emits_only (reconcileDelete E app) typed_event"
  by (rule emits_mono [OF reconcileDelete_contract], drule writes_delete) (simp add: typed_writes)

lemma typed_reconcile_body:
  assumes "condition_list_law E" "status_echo_law E" "finalizer_laws E"
  shows "emits (reconcile_body E req) (\<lambda>_ es. typed_from_reads es)"
proof -
  have live: "emits (reconcile_live E app)
      (\<lambda>_ es. typed_from_reads (EvGetApplication req (Inr app) # es))" for app
  proof (cases "readable app")
    case True
    show ?thesis
      by (rule emits_mono [OF typed_reconcile_live [OF assms(1,2) True]]) (simp add: typed_from_reads_def)
  next
    case False
    show ?thesis
      by (rule emits_mono [OF reconcile_live_contract]) (use False in \<open>auto simp: typed_from_reads_def\<close>)
  qed
  show ?thesis
    unfolding reconcile_body_def
    apply (rule emits_bind, rule emits_client(1), rule emits_case_sum)
     apply (rule emits_return, simp add: typed_from_reads_def)
    apply (rule emits_if)
     apply (rule emits_step [OF typed_delete], rule emits_return, simp add: typed_from_reads_def)
    apply (rule emits_case_prod, rule emits_if)
     apply (rule emits_bind, rule emits_client(6), rule emits_case_sum)
      apply (rule emits_return, simp add: typed_from_reads_def)
     apply (rule emits_return, simp add: typed_from_reads_def)
    subgoal for r app0 app added
      using live [of app0] add_finalizer_False [OF assms(3), of app0 finalizerName app] by simp
    done
qed

lemma gauge_typed: "gauge_event e \<Longrightarrow> typed_event e"
  by (cases e) simp_all

lemma typed_Reconcile:
  assumes "condition_list_law E" "status_echo_law E" "finalizer_laws E"
  shows "emits (Reconcile E req) (\<lambda>_ es. typed_from_reads es)"
  unfolding Reconcile_def
  apply (rule emits_step [OF typed_reconcile_body [OF assms]])
  apply (rule emits_step [OF refresh_events])
  apply (rule emits_bind, rule emits_signal, rule emits_return)
  apply (auto simp: typed_from_reads_def dest: gauge_typed)
  done

lemma written_statuses_shaped:
  assumes "condition_list_law E" "status_echo_law E" "finalizer_laws E"
    "\<forall>k app. EvGetApplication k (Inr app) \<in> set (reconcile_events E req s) \<longrightarrow> readable app"
    "(sent, res) \<in> set (status_writes (reconcile_events E req s))"
  shows "well_shaped sent"
proof -
  have "\<forall>e\<in>set (reconcile_events E req s). typed_event e"
    using emits_Reconcile_events(1) [OF typed_Reconcile [OF assms(1-3)], of req s] assms(4)
    unfolding typed_from_reads_def by blast
  with assms(5) show ?thesis unfolding typed_writes by blast
qed

text \<open>
  C14. A status the reconciler sends to the API server, in whatever branch and with whatever
  errors, has a phase, and fits the schema of the CRD if and only if none of its messages is longer
  than the 32768 characters allowed. All else always fits, if it did in the Application that was
  read: the phase is one of the enumeration, no condition type occurs twice, each is one of the
  three documented ones, and each condition has a reason the pattern accepts, a generation that is
  not negative and a time.
\<close>

theorem written_statuses_fit_schema:
  assumes "condition_list_law E" "status_echo_law E" "finalizer_laws E"
    "\<forall>k app. EvGetApplication k (Inr app) \<in> set (reconcile_events E req s) \<longrightarrow> readable app"
    "(sent, res) \<in> set (status_writes (reconcile_events E req s))"
  shows "Phase (Status sent) \<noteq> PhaseUnset \<and>
    (fits_schema sent \<longleftrightarrow> (\<forall>c\<in>set (Conditions (Status sent)). characters (condMessage c) \<le> message_limit))"
  using fits_iff_messages [OF written_statuses_shaped [OF assms]] .

lemma demo_set_condition_list:
  "\<exists>d. same_condition d c \<and>
     (condType c \<notin> condType ` set cs \<and> condLastTransitionTime d \<noteq> None \<and> demo_set_condition t cs c = cs @ [d] \<or>
      (\<exists>as old bs. cs = as @ old # bs \<and> condType old = condType c \<and>
        (condLastTransitionTime old \<noteq> None \<longrightarrow> condLastTransitionTime d \<noteq> None) \<and>
        demo_set_condition t cs c = as @ d # bs))"
proof (induction cs)
  case Nil
  show ?case by (intro exI [of _ "c\<lparr>condLastTransitionTime := Some t\<rparr>"]) (simp add: same_condition_def)
next
  case (Cons e cs)
  show ?case
  proof (cases "condType e = condType c")
    case True
    then show ?thesis
      by (intro exI [of _ "c\<lparr>condLastTransitionTime :=
          (if condStatus e = condStatus c then condLastTransitionTime e else Some t)\<rparr>"])
        (auto simp: same_condition_def intro!: exI [of _ "[]"])
  next
    case False
    from Cons.IH obtain d where d: "same_condition d c"
      "condType c \<notin> condType ` set cs \<and> condLastTransitionTime d \<noteq> None \<and> demo_set_condition t cs c = cs @ [d] \<or>
       (\<exists>as old bs. cs = as @ old # bs \<and> condType old = condType c \<and>
         (condLastTransitionTime old \<noteq> None \<longrightarrow> condLastTransitionTime d \<noteq> None) \<and>
         demo_set_condition t cs c = as @ d # bs)" by blast
    from d(2) show ?thesis
    proof (elim disjE exE conjE)
      fix as old bs assume "cs = as @ old # bs" "condType old = condType c"
        "condLastTransitionTime old \<noteq> None \<longrightarrow> condLastTransitionTime d \<noteq> None"
        "demo_set_condition t cs c = as @ d # bs"
      with False d(1) show ?thesis
        by (intro exI [of _ d] conjI disjI2 exI [of _ "e # as"] exI [of _ old] exI [of _ bs]) simp_all
    qed (use d(1) False in \<open>auto intro!: exI [of _ d]\<close>)
  qed
qed

lemma demo_condition_list_law: "condition_list_law (demo_env health)"
  unfolding condition_list_law_def demo_env_def env.select_convs by (intro allI demo_set_condition_list)

text \<open>
  The demo with a server that answers what it was sent. The Application has never been
  applied, so the pass installs its release and writes a status with two conditions.
\<close>

definition echo_env :: "demo env" where
  "echo_env = (demo_env (\<lambda>_ _. CurrentStatus))\<lparr>UpdateStatus := demo_store (\<lambda>app _. app)\<rparr>"

lemma echo_env_laws: "condition_list_law echo_env" "status_echo_law echo_env" "finalizer_laws echo_env"
proof -
  show "condition_list_law echo_env"
    using demo_condition_list_law [of "\<lambda>_ _. CurrentStatus"] by (simp add: condition_list_law_def echo_env_def)
  show "finalizer_laws echo_env"
    using demo_finalizer_laws [of "\<lambda>_ _. CurrentStatus"] by (simp add: finalizer_laws_def echo_env_def)
  show "status_echo_law echo_env"
    by (auto simp: status_echo_law_def echo_env_def demo_store_def readable_def Let_def split: option.splits if_splits)
qed

definition demo_new_app :: Application where
  "demo_new_app = demo_app ((demo_status PhaseUnset 0 0)\<lparr>ObservedGeneration := 0, LastDeployStartTime := None\<rparr>)"

theorem written_statuses_fit_schema_witness:
  "list_all (\<lambda>(sent, res). fits_schema sent \<and> map condType (Conditions (Status sent)) = [''Released'', ''Ready''])
     (status_writes (reconcile_events echo_env demo_req (demo_state demo_new_app 0 10))) \<and>
   length (status_writes (reconcile_events echo_env demo_req (demo_state demo_new_app 0 10))) = 1"
proof -
  let ?es = "reconcile_events echo_env demo_req (demo_state demo_new_app 0 10)"
  have run: "list_all (\<lambda>e. case e of EvGetApplication _ (Inr app) \<Rightarrow> app = demo_new_app | _ \<Rightarrow> True) ?es \<and>
      list_all (\<lambda>(sent, res). map condType (Conditions (Status sent)) = [''Released'', ''Ready''] \<and>
        list_all (\<lambda>c. length (condMessage c) \<le> 100) (Conditions (Status sent))) (status_writes ?es) \<and>
      length (status_writes ?es) = 1"
    by code_simp
  moreover have "readable demo_new_app"
    by (simp add: readable_def conditions_shaped_def demo_new_app_def demo_app_def demo_status_def)
  ultimately have "\<forall>k app. EvGetApplication k (Inr app) \<in> set ?es \<longrightarrow> readable app"
    by (fastforce simp: list_all_iff)
  note fits = written_statuses_fit_schema [OF echo_env_laws this]
  have short: "characters m \<le> message_limit" if "length m \<le> 100" for m
  proof -
    have "characters m \<le> length m" unfolding characters_def by (rule length_filter_le)
    with that show ?thesis by (simp add: message_limit_def)
  qed
  have "fits_schema sent" if w: "(sent, res) \<in> set (status_writes ?es)" for sent res
    using fits [OF w] run w short by (fastforce simp: list_all_iff)
  with run show ?thesis by (fastforce simp: list_all_iff)
qed

section \<open>Long messages\<close>

text \<open>
  \<open>fail\<close> writes the whole text of the error, so the status it sends for a longer one does not
  fit, and the failure is not recorded.
\<close>

lemma long_error_exceeds_the_schema:
  assumes "condition_laws E" "characters (error_text cause) > message_limit"
  shows "emits (fail E app reason cause) (\<lambda>_ es. \<exists>sent res. es = [EvStatusUpdate sent res] \<and> \<not> fits_schema sent)"
proof -
  have found: "\<exists>c \<in> set (SetStatusCondition E t cs d). condMessage c = condMessage d" for t cs d
    using condition_found [OF assms(1), of d t cs]
    by (auto simp: find_condition_def same_condition_def find_Some_iff)
  have long: "\<not> fits_schema app" if "c \<in> set (Conditions (Status app))" "condMessage c = error_text cause" for app c
  proof
    assume "fits_schema app"
    with that(1) have "condition_ok c" by (simp add: fits_schema_def conditions_ok_def)
    with that(2) assms(2) show False by (simp add: condition_ok_def)
  qed
  show ?thesis
    unfolding fail_def Let_def
    apply (rule emits_bind, rule emits_setCondition, rule emits_bind, rule emits_setCondition)
    apply (rule emits_bind, rule emits_client(7))
    subgoal for t t' res
      using found [of t' "SetStatusCondition E t (Conditions (Status app)) (new_condition app ConditionReleased ConditionFalse reason (error_text cause))"
          "new_condition app ConditionReady ConditionFalse reason (error_text cause)"] long
      by (auto simp: new_condition_def intro!: emits_return split: sum.split)
    done
qed

end
