(* ===== verification/ApplyFacts.thy ===== *)
theory ApplyFacts
  imports Refinement
begin

text \<open>
  Properties of the apply half of the reconciler: the values of an Application, when a
  release is applied, what an applied release leaves in the status, and failures.
\<close>

section \<open>Values\<close>

text \<open>
  An Application whose Secret reference names no key resolves its values exactly as
  one that names the key values.yaml: same result, same calls, from every state.
\<close>

theorem empty_key_is_default_key:
  "resolveValues E (app\<lparr>Spec := (Spec app)\<lparr>ValuesSecretRef := Some \<lparr>refName = n, refKey = ''''\<rparr>\<rparr>\<rparr>) =
   resolveValues E (app\<lparr>Spec := (Spec app)\<lparr>ValuesSecretRef := Some \<lparr>refName = n, refKey = ''values.yaml''\<rparr>\<rparr>\<rparr>)"
proof (rule state.expand, rule ext)
  have "values_answer E \<lparr>refName = n, refKey = ''''\<rparr> = values_answer E \<lparr>refName = n, refKey = ''values.yaml''\<rparr>"
    by (rule ext) (auto simp: values_answer_def values_key_def split: sum.split option.split)
  then show "run_state (resolveValues E (app\<lparr>Spec := (Spec app)\<lparr>ValuesSecretRef := Some \<lparr>refName = n, refKey = ''''\<rparr>\<rparr>\<rparr>)) s =
      run_state (resolveValues E (app\<lparr>Spec := (Spec app)\<lparr>ValuesSecretRef := Some \<lparr>refName = n, refKey = ''values.yaml''\<rparr>\<rparr>\<rparr>)) s"
    for s
    by (simp add: resolveValues_run Let_def)
qed

section \<open>When a release is applied\<close>

text \<open>The target namespace was found, created, or found to be created by somebody else.\<close>

definition namespace_ready :: "string \<Rightarrow> event list \<Rightarrow> bool" where
  "namespace_ready ns es \<longleftrightarrow> (\<exists>obj. EvGetNamespace ns (Inr obj) \<in> set es) \<or>
     (\<exists>c. EvCreateNamespace (operator_namespace ns) c \<in> set es \<and> create_answer c = None)"

lemma ensure_ready: "ensure_trace ns None es \<Longrightarrow> namespace_ready ns es"
  unfolding ensure_trace_def namespace_ready_def by (elim disjE exE conjE) auto

lemma scope_no_namespace: "namespace_event e \<Longrightarrow> \<not> sdk_mutation e"
  by (cases e) simp_all

lemma apply_parts:
  assumes "apply_trace app vs h r es" "m \<in> set es" "sdk_mutation m"
  shows "\<exists>es1 es2. es = es1 @ es2 \<and> m \<in> set es2 \<and> namespace_ready (Namespace (Spec app)) es1"
  using assms(1) unfolding apply_trace_def Let_def
proof (elim disjE exE conjE)
  fix err f es1 es2
  assume "ensure_trace (Namespace (Spec app)) (Some err) es1" "es = es1 @ es2"
    "fail_trace app (Errorf (''ensure namespace '' @ fmt_q (Namespace (Spec app)) @ '': '') (Some err)) f es2"
  moreover from this have "filter sdk_mutation es = []" using ensure_mutations fail_mutations by simp
  ultimately show ?thesis using assms(2,3) by (auto simp: filter_empty_conv)
next
  fix err f es1 es2 es3
  assume a: "ensure_trace (Namespace (Spec app)) None es1" "es = es1 @ es2 @ es3"
  then have "m \<notin> set es1" using ensure_mutations assms(3) by (auto simp: filter_empty_conv)
  with a assms(2) ensure_ready [OF a(1)] show ?thesis by (intro exI [of _ es1] exI [of _ "es2 @ es3"]) simp
next
  fix res sent upd es1 es2
  assume a: "ensure_trace (Namespace (Spec app)) None es1" "es = es1 @ es2 @ [EvStatusUpdate sent upd]"
  then have "m \<notin> set es1" using ensure_mutations assms(3) by (auto simp: filter_empty_conv)
  with a assms(2) ensure_ready [OF a(1)] show ?thesis
    by (intro exI [of _ es1] exI [of _ "es2 @ [EvStatusUpdate sent upd]"]) simp
qed

text \<open>
  C16. Helm installs or upgrades a release only on behalf of an Application whose generation
  or whose values, as resolved earlier in the same pass, differ from the ones last applied;
  the release, chart values and namespace are that Application's, and the namespace was
  made sure to exist first.
\<close>

theorem release_applied_only_when_needed:
  assumes "m \<in> set (reconcile_events E req s)" "is_EvUpgrade m \<or> is_EvInstall m"
  shows "\<exists>app vals h ves pre post. works_on E req (reconcile_events E req s) app \<and>
    values_trace E app (Inr (vals, h)) ves \<and> set ves \<subseteq> set pre \<and>
    (ObservedGeneration (Status app) \<noteq> Generation (Meta app) \<or> LastAppliedValuesHash (Status app) \<noteq> h) \<and>
    reconcile_events E req s = pre @ post \<and> m \<in> set post \<and>
    namespace_ready (Namespace (Spec app)) pre \<and> is_apply_action app vals m"
proof -
  have mut: "sdk_mutation m" using assms(2) by (cases m) simp_all
  show ?thesis
    using reconcile_events_trace assms(1) mutation_is_change [OF mut]
  proof (cases rule: change_cases)
    case (deletion app e es1 tail)
    have "m \<in> set (filter sdk_mutation es1)" using deletion(3) mut by simp
    with delete_mutations [OF deletion(2)] assms(2) show ?thesis by (elim disjE exE) auto
  next
    case (release app vs h es1 es2 tail)
    obtain read where es: "reconcile_events E req s = EvGetApplication req (Inr read) # es1 @ es2 @ tail"
      using release(6) by blast
    obtain a b where ab: "es2 = a @ b" "m \<in> set b" "namespace_ready (Namespace (Spec app)) a"
      using apply_parts [OF release(4,5) mut] by blast
    have "m \<in> set (filter sdk_mutation es2)" using release(5) mut by simp
    with apply_mutations [OF release(4)] have "is_apply_action app vs m" by (elim disjE exE) auto
    moreover have "namespace_ready (Namespace (Spec app)) (EvGetApplication req (Inr read) # es1 @ a)"
      using ab(3) by (auto simp: namespace_ready_def)
    ultimately show ?thesis
      using release(1-3) es ab
      by (intro exI [of _ app] exI [of _ vs] exI [of _ h] exI [of _ es1]
          exI [of _ "EvGetApplication req (Inr read) # es1 @ a"] exI [of _ "b @ tail"])
        (auto simp: needsApply_def)
  next
    case (rollback app pre es3 tail)
    have "m \<in> set (filter sdk_mutation es3)" using rollback(3) mut by simp
    with unhealthy_mutations [OF rollback(2)] assms(2) show ?thesis by (elim disjE exE) auto
  qed
qed

definition demo_stale_state :: "(demo, event) st" where
  "demo_stale_state = demo_state (demo_app ((demo_status PhaseDeployed 3 0)\<lparr>ObservedGeneration := 2\<rparr>)) 3 10"

theorem release_applied_only_when_needed_witness:
  "\<exists>app vals pre m. works_on (demo_env (\<lambda>_ _. CurrentStatus)) demo_req
      (reconcile_events (demo_env (\<lambda>_ _. CurrentStatus)) demo_req demo_stale_state) app \<and>
     namespace_ready (Namespace (Spec app)) pre \<and> is_EvUpgrade m \<and> is_apply_action app vals m"
proof -
  let ?es = "reconcile_events (demo_env (\<lambda>_ _. CurrentStatus)) demo_req demo_stale_state"
  let ?m = "EvUpgrade (upgrade_action ''demo'') ''web'' (Chart [(''Chart.yaml'', ''podinfo'')]) []
    (Inr (V1Release (demo_release ''web'' 4 ''web'')))"
  have "?m \<in> set ?es" by code_simp
  moreover have "is_EvUpgrade ?m" by simp
  ultimately show ?thesis using release_applied_only_when_needed [of ?m] by blast
qed

section \<open>An applied release\<close>

lemma poll_intervals:
  "sint healthPollInterval = 30 * 10 ^ 9" "sint steadyPollInterval = 5 * 60 * 10 ^ 9"
  by (simp_all add: healthPollInterval_def steadyPollInterval_def second_def minute_def)

lemma helm_answer_V1: "helm_answer p raw = Inr res \<Longrightarrow> \<exists>rel. raw = Inr (V1Release rel) \<and>
    rrName res = relName rel \<and> rrRevision res = relVersion rel"
  by (cases raw) (auto simp: toResult_Inr_iff)

lemma install_outcome:
  assumes "install_contract spec (Inr res) es"
  shows "\<exists>rel. rrName res = relName rel \<and> rrRevision res = relVersion rel \<and>
    ((\<exists>ch. EvUpgrade (upgrade_action (rsNamespace spec)) (rsReleaseName spec) ch (vals_of spec) (Inr (V1Release rel)) \<in> set es) \<or>
     (\<exists>ch. EvInstall (install_action (rsReleaseName spec) (rsNamespace spec)) ch (vals_of spec) (Inr (V1Release rel)) \<in> set es))"
  using assms unfolding install_contract_def Let_def
proof (elim disjE exE conjE)
  fix ch raw
  assume a: "filter sdk_mutation es = [EvUpgrade (upgrade_action (rsNamespace spec)) (rsReleaseName spec) ch (vals_of spec) raw]"
    "Inr res = helm_answer (''helm upgrade '' @ fmt_q (rsReleaseName spec) @ '': '') raw"
  from helm_answer_V1 [OF a(2) [symmetric]] single_mutation(1) [OF a(1)] show ?thesis by blast
next
  fix ch raw
  assume a: "filter sdk_mutation es = [EvInstall (install_action (rsReleaseName spec) (rsNamespace spec)) ch (vals_of spec) raw]"
    "Inr res = helm_answer (''helm install '' @ fmt_q (rsReleaseName spec) @ '': '') raw"
  from helm_answer_V1 [OF a(2) [symmetric]] single_mutation(1) [OF a(1)] show ?thesis by blast
qed simp

text \<open>A record of a release that Helm reported is in the events, in the target namespace.\<close>

definition helm_reported :: "Application \<Rightarrow> ReleaseV1 \<Rightarrow> event list \<Rightarrow> bool" where
  "helm_reported app rel es \<longleftrightarrow>
     (\<exists>ch vs. EvUpgrade (upgrade_action (Namespace (Spec app))) (metaName (Meta app)) ch vs (Inr (V1Release rel)) \<in> set es) \<or>
     (\<exists>ch vs. EvInstall (install_action (metaName (Meta app)) (Namespace (Spec app))) ch vs (Inr (V1Release rel)) \<in> set es)"

text \<open>
  A successful apply settles the idempotency gate: its last event is an accepted status
  that carries the revision Helm reported, the generation and the values hash that were
  applied, phase Deploying and a fresh rollback budget; the request comes back after 30
  seconds; and no object with that generation and that status is applied again with the
  same values.
\<close>

theorem apply_settles_gate:
  assumes "run_state (applyRelease E app vals h) s = ((res, None), s')"
  shows "\<exists>pre sent stored rel. log s' = log s @ pre @ [EvStatusUpdate sent (Inr stored)] \<and>
    sint (RequeueAfter res) = 30 * 10 ^ 9 \<and> on_base app sent \<and> helm_reported app rel pre \<and>
    HelmRevision (Status sent) = relVersion rel \<and> HelmReleaseName (Status sent) = relName rel \<and>
    Phase (Status sent) = PhaseDeploying \<and> LastFailedRevision (Status sent) = 0 \<and>
    LastDeployStartTime (Status sent) \<noteq> None \<and>
    (\<forall>later. recorded (Status later) = recorded (Status sent) \<and> Generation (Meta later) = Generation (Meta app) \<longrightarrow>
       \<not> needsApply later h)"
proof -
  obtain es where es: "log s' = log s @ es" "apply_trace app vals h (res, None) es"
    using emitsD [OF applyRelease_contract assms] .
  from es(2) obtain rr sent upd es1 es2
    where i: "install_contract (release_spec app vals) (Inr rr) es2" and a: "applied app rr h sent"
      and e: "es = es1 @ es2 @ [EvStatusUpdate sent upd]"
      and r: "(res, None) = write_answer \<lparr>RequeueAfter = healthPollInterval\<rparr> upd"
    unfolding apply_trace_def Let_def by blast
  obtain stored where stored: "upd = Inr stored" "res = \<lparr>RequeueAfter = healthPollInterval\<rparr>"
    using r by (cases upd) simp_all
  obtain rel where rel: "rrName rr = relName rel" "rrRevision rr = relVersion rel" "helm_reported app rel es2"
    using install_outcome [OF i] unfolding helm_reported_def release_spec_def ReleaseSpec.simps by blast
  have gate: "\<not> needsApply later h"
    if "recorded (Status later) = recorded (Status sent)" "Generation (Meta later) = Generation (Meta app)" for later
    using recorded_fields [OF that(1)] that(2) a by (auto simp: needsApply_def applied_def applied_status_def)
  show ?thesis
    using es(1) e stored rel a gate
    by (intro exI [of _ "es1 @ es2"] exI [of _ sent] exI [of _ stored] exI [of _ rel])
      (auto simp: applied_def applied_status_def helm_reported_def poll_intervals)
qed

theorem apply_settles_gate_witness:
  "\<exists>sent. \<not> needsApply sent '''' \<and> LastFailedRevision (Status sent) = 0 \<and> Phase (Status sent) = PhaseDeploying"
proof -
  let ?m = "applyRelease (demo_env (\<lambda>_ _. CurrentStatus)) (demo_app (demo_status PhaseDegraded 4 3)) None ''''"
  have "snd (fst (run_state ?m demo_stale_state)) = None" by code_simp
  then have "run_state ?m demo_stale_state =
      ((fst (fst (run_state ?m demo_stale_state)), None), snd (run_state ?m demo_stale_state))"
    by (metis prod.collapse)
  from apply_settles_gate [OF this] show ?thesis unfolding on_base_def by metis
qed

section \<open>Namespaces\<close>

text \<open>
  Making sure of a namespace: it reads the namespace first and creates one only after
  that read said it does not exist; what it creates has the given name and nothing but the
  operator's mark; it returns nil only when the namespace is there, somebody else's
  creation that came first included, and any other error is returned as it is.
\<close>

theorem ensureNamespace_ensures:
  assumes "run_state (ensureNamespace E n) s = (r, s')"
  shows "\<exists>ans rest. log s' = log s @ EvGetNamespace n ans # rest \<and>
    (case ans of
       Inr _ \<Rightarrow> rest = [] \<and> r = None
     | Inl err \<Rightarrow>
         (if errors_Is err NotFoundErr
          then \<exists>c. rest = [EvCreateNamespace \<lparr>nsName = n, nsAnnotations = [(''helmwarden.dev/managed-by'', ''operator'')]\<rparr> c] \<and>
            (r = None \<longleftrightarrow> c = None \<or> (\<exists>e. c = Some e \<and> errors_Is e AlreadyExistsErr)) \<and> (r \<noteq> None \<longrightarrow> r = c)
          else rest = [] \<and> r = Some err))"
proof -
  obtain es where es: "log s' = log s @ es" "ensure_trace n r es"
    using emitsD [OF ensureNamespace_contract assms] .
  have answer: "(create_answer c = None \<longleftrightarrow> c = None \<or> (\<exists>e. c = Some e \<and> errors_Is e AlreadyExistsErr)) \<and>
      (create_answer c \<noteq> None \<longrightarrow> create_answer c = c)" for c
    by (cases c) auto
  from es(2) show ?thesis
    unfolding ensure_trace_def
  proof (elim disjE exE conjE)
    fix err c
    assume e: "errors_Is err NotFoundErr" "r = create_answer c"
      "es = [EvGetNamespace n (Inl err), EvCreateNamespace (operator_namespace n) c]"
    with es(1) answer [of c] show ?thesis
      by (intro exI [of _ "Inl err"] exI [of _ "[EvCreateNamespace (operator_namespace n) c]"])
        (auto simp: operator_namespace_def managedByAnnotation_def managedByValue_def)
  qed (use es(1) in auto)
qed

theorem ensureNamespace_ensures_witness:
  "\<exists>ans rest. EvGetNamespace ''demo'' ans # rest =
     log (snd (run_state (ensureNamespace (demo_env (\<lambda>_ _. CurrentStatus)) ''demo'') demo_stale_state))"
proof -
  let ?m = "run_state (ensureNamespace (demo_env (\<lambda>_ _. CurrentStatus)) ''demo'') demo_stale_state"
  have "?m = (fst ?m, snd ?m)" by simp
  from ensureNamespace_ensures [OF this] show ?thesis by (auto simp: demo_stale_state_def demo_state_def)
qed

section \<open>Drift of the values\<close>

text \<open>The deferred calls come after the body, and do not change what it returns.\<close>

lemma Reconcile_after_body:
  assumes "run_state (reconcile_body E req) s = (r, s1)"
  shows "\<exists>tail. log (reconcile_next E req s) = log s1 @ tail \<and> (\<forall>e\<in>set tail. gauge_event e) \<and>
    reconcile_result E req s = r"
proof -
  define rest where "rest = refreshActiveGauge E \<bind> (\<lambda>_. signal (EvObserveLatency (nnName req) (nnNamespace req)) \<bind> (\<lambda>_. ret r))"
  have run: "run_state (Reconcile E req) s = run_state rest s1"
    using assms by (simp add: Reconcile_def rest_def)
  have "emits rest (\<lambda>r' es. r' = r \<and> (\<forall>e\<in>set es. gauge_event e))"
    unfolding rest_def
    apply (rule emits_step [OF refresh_events], rule emits_bind, rule emits_signal, rule emits_return)
    apply auto
    done
  from emitsD [OF this prod.collapse [symmetric]]
  show ?thesis unfolding reconcile_next_def reconcile_result_def run by metis
qed

text \<open>A pass that gets as far as the gate, by what the API server answers.\<close>

lemma gate_events:
  assumes "finalizer_laws E" "GetApplication E req (world s) = (Inr app, w1)" "live_app app"
    "finalizerName \<in> set (Finalizers (Meta app))" "ValuesSecretRef (Spec app) = Some ref"
    "GetSecret E \<lparr>nnNamespace = metaNamespace (Meta app), nnName = refName ref\<rparr> w1 = (Inr secret, w2)"
    "map_of (secretData secret) (values_key ref) = Some raw" "ReadValues E raw = Inr vals"
    "h = hex_EncodeToString (Sha256Sum E raw)"
  shows "\<exists>es tail. reconcile_events E req s = [EvGetApplication req (Inr app),
      EvGetSecret \<lparr>nnNamespace = metaNamespace (Meta app), nnName = refName ref\<rparr> (Inr secret)] @ es @ tail \<and>
    (\<forall>e\<in>set tail. gauge_event e) \<and>
    (if needsApply app h then apply_trace app vals h (reconcile_result E req s) es
     else check_trace E app (reconcile_result E req s) es)"
proof -
  let ?key = "\<lparr>nnNamespace = metaNamespace (Meta app), nnName = refName ref\<rparr>"
  let ?s = "s\<lparr>world := w2, log := log s @ [EvGetApplication req (Inr app), EvGetSecret ?key (Inr secret)]\<rparr>"
  let ?m = "if needsApply app h then applyRelease E app vals h else reconcileHealth E app"
  have present: "AddFinalizer E app finalizerName = (app, False)"
    using assms(1,4) by (rule add_finalizer_present)
  have parsed: "values_answer E ref (Inr secret) = Inr (vals, h)"
    using assms(7-9) by (simp add: values_answer_def)
  have body: "run_state (reconcile_body E req) s = run_state ?m ?s"
    using assms(2,3,5,6) present parsed
    by (simp add: reconcile_body_def c_GetApplication_def reconcile_live_def resolveValues_run Let_def)
  obtain r s1 where r: "run_state ?m ?s = (r, s1)" by fastforce
  have "emits ?m (\<lambda>r es. if needsApply app h then apply_trace app vals h r es else check_trace E app r es)"
    by (cases "needsApply app h") (simp_all add: applyRelease_contract reconcileHealth_contract)
  from emitsD [OF this r] obtain es where es: "log s1 = log ?s @ es"
      "if needsApply app h then apply_trace app vals h r es else check_trace E app r es" .
  from Reconcile_after_body [OF trans [OF body r]] obtain tail
    where tail: "log (reconcile_next E req s) = log s1 @ tail" "\<forall>e\<in>set tail. gauge_event e"
      "reconcile_result E req s = r" by blast
  have "reconcile_events E req s = [EvGetApplication req (Inr app), EvGetSecret ?key (Inr secret)] @ es @ tail"
    using tail(1) es(1) by (simp add: reconcile_events_def)
  with tail(2,3) es(2) show ?thesis by blast
qed

lemma apply_reads_namespace: "apply_trace app vs h r es \<Longrightarrow> \<exists>ans. EvGetNamespace (Namespace (Spec app)) ans \<in> set es"
  unfolding apply_trace_def ensure_trace_def Let_def by auto

lemma apply_outcome:
  assumes "apply_trace app vs h (r, None) es"
  shows "\<exists>rel ch sent stored.
    (EvUpgrade (upgrade_action (Namespace (Spec app))) (metaName (Meta app)) ch (vals_of (release_spec app vs))
       (Inr (V1Release rel)) \<in> set es \<or>
     EvInstall (install_action (metaName (Meta app)) (Namespace (Spec app))) ch (vals_of (release_spec app vs))
       (Inr (V1Release rel)) \<in> set es) \<and>
    EvStatusUpdate sent (Inr stored) \<in> set es \<and> LastAppliedValuesHash (Status sent) = h \<and>
    HelmRevision (Status sent) = relVersion rel"
proof -
  obtain rr sent upd es1 es2
    where i: "install_contract (release_spec app vs) (Inr rr) es2" and a: "applied app rr h sent"
      and e: "es = es1 @ es2 @ [EvStatusUpdate sent upd]"
      and r: "(r, None) = write_answer \<lparr>RequeueAfter = healthPollInterval\<rparr> upd"
    using assms unfolding apply_trace_def Let_def by blast
  obtain stored where "upd = Inr stored" using r by (cases upd) simp_all
  with e have w: "EvStatusUpdate sent (Inr stored) \<in> set es" "set es2 \<subseteq> set es" by auto
  have f: "rsNamespace (release_spec app vs) = Namespace (Spec app)"
      "rsReleaseName (release_spec app vs) = metaName (Meta app)"
    by (simp_all add: release_spec_def)
  obtain rel ch where rel: "rrRevision rr = relVersion rel"
    "EvUpgrade (upgrade_action (Namespace (Spec app))) (metaName (Meta app)) ch (vals_of (release_spec app vs))
       (Inr (V1Release rel)) \<in> set es2 \<or>
     EvInstall (install_action (metaName (Meta app)) (Namespace (Spec app))) ch (vals_of (release_spec app vs))
       (Inr (V1Release rel)) \<in> set es2"
    using install_outcome [OF i] unfolding f by blast
  have "LastAppliedValuesHash (Status sent) = h" "HelmRevision (Status sent) = rrRevision rr"
    using a by (auto simp: applied_def applied_status_def)
  with rel w show ?thesis
    by (intro exI [of _ rel] exI [of _ ch] exI [of _ sent] exI [of _ stored]) auto
qed

definition no_apply :: "event list \<Rightarrow> bool" where
  "no_apply es \<longleftrightarrow> (\<forall>m\<in>set es. \<not> is_EvUpgrade m \<and> \<not> is_EvInstall m)"

lemma no_apply_simps [simp]:
  "no_apply []" "no_apply (e # es) \<longleftrightarrow> \<not> is_EvUpgrade e \<and> \<not> is_EvInstall e \<and> no_apply es"
  "no_apply (xs @ ys) \<longleftrightarrow> no_apply xs \<and> no_apply ys"
  by (auto simp: no_apply_def)

lemma no_apply_mutations:
  assumes "\<forall>m\<in>set (filter sdk_mutation es). \<not> is_EvUpgrade m \<and> \<not> is_EvInstall m"
  shows "no_apply es"
  unfolding no_apply_def
proof
  fix m assume "m \<in> set es"
  with assms show "\<not> is_EvUpgrade m \<and> \<not> is_EvInstall m" by (cases m) auto
qed

lemma no_apply_quiet: "\<forall>e\<in>set es. \<not> any_write e \<Longrightarrow> no_apply es"
  by (rule no_apply_mutations) (use quiet_mutations [of es] in simp)

lemma no_apply_gauge: "\<forall>e\<in>set es. gauge_event e \<Longrightarrow> no_apply es"
  by (rule no_apply_quiet, rule no_writes(4))

lemma no_apply_unhealthy: "unhealthy_trace app es \<Longrightarrow> no_apply es"
  by (rule no_apply_mutations, drule unhealthy_mutations, elim disjE exE) (simp_all del: set_filter)

lemma no_apply_settle: "settle_trace app p d r es \<Longrightarrow> no_apply es"
  by (auto simp: settle_trace_def)

lemma no_apply_drive: "drive_trace app health r es \<Longrightarrow> no_apply es"
  unfolding drive_trace_def success_signal_def
  by (elim disjE exE conjE) (auto dest: no_apply_unhealthy no_apply_settle)

lemma no_apply_check:
  assumes "check_trace E app r es"
  shows "no_apply es"
proof -
  have get: "no_apply xs" if "get_contract n ns x xs" for n ns x xs
    using no_apply_quiet [OF no_writes(2) [OF that]] .
  have health: "no_apply xs" if "release_health_trace E m ns x xs" for m ns x xs
    using no_apply_quiet [OF no_writes(3) [OF that]] .
  from assms show ?thesis
    unfolding check_trace_def Let_def
    by (elim disjE exE conjE) (simp_all add: get health no_apply_drive)
qed

text \<open>
  C20. Drift of the values, over a whole pass. The current generation of a live Application has
  been applied with the values document \<open>old\<close>, and the Secret it refers to now holds \<open>new\<close>. If the
  two documents have the same SHA-256 digest the pass neither installs nor upgrades anything. If
  they differ it goes about applying the release again: it makes sure of the namespace, and
  unless it returns an error, Helm has upgraded or installed the release with the values of \<open>new\<close>,
  and the server has accepted a status with the digest of \<open>new\<close> and the revision Helm reported. The
  hexadecimal text in which the digests are stored loses nothing.
\<close>

theorem values_drift_detected:
  assumes "finalizer_laws E" "GetApplication E req (world s) = (Inr app, w1)" "live_app app"
    "finalizerName \<in> set (Finalizers (Meta app))" "ValuesSecretRef (Spec app) = Some ref"
    "GetSecret E \<lparr>nnNamespace = metaNamespace (Meta app), nnName = refName ref\<rparr> w1 = (Inr secret, w2)"
    "map_of (secretData secret) (if refKey ref = '''' then ''values.yaml'' else refKey ref) = Some new"
    "ReadValues E new = Inr vals"
    "ObservedGeneration (Status app) = Generation (Meta app)"
    "LastAppliedValuesHash (Status app) = hex_EncodeToString (Sha256Sum E old)"
  shows "if Sha256Sum E old = Sha256Sum E new
    then \<forall>m\<in>set (reconcile_events E req s). \<not> is_EvUpgrade m \<and> \<not> is_EvInstall m
    else (\<exists>ans. EvGetNamespace (Namespace (Spec app)) ans \<in> set (reconcile_events E req s)) \<and>
      (snd (reconcile_result E req s) = None \<longrightarrow> (\<exists>rel ch sent stored.
        (EvUpgrade (upgrade_action (Namespace (Spec app))) (metaName (Meta app)) ch
           (case vals of None \<Rightarrow> [] | Some v \<Rightarrow> v) (Inr (V1Release rel)) \<in> set (reconcile_events E req s) \<or>
         EvInstall (install_action (metaName (Meta app)) (Namespace (Spec app))) ch
           (case vals of None \<Rightarrow> [] | Some v \<Rightarrow> v) (Inr (V1Release rel)) \<in> set (reconcile_events E req s)) \<and>
        EvStatusUpdate sent (Inr stored) \<in> set (reconcile_events E req s) \<and>
        LastAppliedValuesHash (Status sent) = hex_EncodeToString (Sha256Sum E new) \<and>
        HelmRevision (Status sent) = relVersion rel))"
proof -
  let ?h = "hex_EncodeToString (Sha256Sum E new)"
  from gate_events [OF assms(1-6) assms(7) [folded values_key_def] assms(8) refl] obtain es tail
    where ev: "reconcile_events E req s = [EvGetApplication req (Inr app),
        EvGetSecret \<lparr>nnNamespace = metaNamespace (Meta app), nnName = refName ref\<rparr> (Inr secret)] @ es @ tail"
      and tail: "\<forall>e\<in>set tail. gauge_event e"
      and tr: "if needsApply app ?h then apply_trace app vals ?h (reconcile_result E req s) es
        else check_trace E app (reconcile_result E req s) es" by blast
  have gate: "needsApply app ?h \<longleftrightarrow> Sha256Sum E old \<noteq> Sha256Sum E new"
    using assms(9,10) hex_inject by (auto simp: needsApply_def)
  show ?thesis
  proof (cases "Sha256Sum E old = Sha256Sum E new")
    case True
    then have "check_trace E app (reconcile_result E req s) es" using tr gate by simp
    then have "no_apply (reconcile_events E req s)"
      using no_apply_check no_apply_gauge [OF tail] by (simp add: ev)
    then show ?thesis using True by (simp add: no_apply_def)
  next
    case False
    then have ap: "apply_trace app vals ?h (reconcile_result E req s) es" using tr gate by simp
    have v: "vals_of (release_spec app vals) = (case vals of None \<Rightarrow> [] | Some v \<Rightarrow> v)"
      by (simp add: vals_of_def release_spec_def)
    have out: "set es \<subseteq> set (reconcile_events E req s)" using ev by auto
    show ?thesis
      unfolding if_not_P [OF False]
    proof (intro conjI impI)
      show "\<exists>ans. EvGetNamespace (Namespace (Spec app)) ans \<in> set (reconcile_events E req s)"
        using apply_reads_namespace [OF ap] out by blast
    next
      assume "snd (reconcile_result E req s) = None"
      then have "apply_trace app vals ?h (fst (reconcile_result E req s), None) es" using ap by (metis prod.collapse)
      from apply_outcome [OF this, unfolded v] out
      show "\<exists>rel ch sent stored.
        (EvUpgrade (upgrade_action (Namespace (Spec app))) (metaName (Meta app)) ch
           (case vals of None \<Rightarrow> [] | Some v \<Rightarrow> v) (Inr (V1Release rel)) \<in> set (reconcile_events E req s) \<or>
         EvInstall (install_action (metaName (Meta app)) (Namespace (Spec app))) ch
           (case vals of None \<Rightarrow> [] | Some v \<Rightarrow> v) (Inr (V1Release rel)) \<in> set (reconcile_events E req s)) \<and>
        EvStatusUpdate sent (Inr stored) \<in> set (reconcile_events E req s) \<and>
        LastAppliedValuesHash (Status sent) = ?h \<and> HelmRevision (Status sent) = relVersion rel"
        by (meson subsetD)
    qed
  qed
qed

definition demo_secret_app :: Application where
  "demo_secret_app = (demo_app ((demo_status PhaseDeployed 3 0)\<lparr>LastAppliedValuesHash := hex_EncodeToString ''a: 1''\<rparr>))
     \<lparr>Spec := (Spec (demo_app (demo_status PhaseDeployed 3 0)))\<lparr>ValuesSecretRef := Some \<lparr>refName = ''cfg'', refKey = ''''\<rparr>\<rparr>\<rparr>"

definition demo_secret_state :: "string \<Rightarrow> (demo, event) st" where
  "demo_secret_state raw = \<lparr>world = (demo_world demo_secret_app 3 10)
     \<lparr>dSecret := Some \<lparr>secretData = [(''values.yaml'', raw)]\<rparr>\<rparr>, log = []\<rparr>"

text \<open>The demo takes a document for its own digest. A pass with new values, and one with the old ones.\<close>

theorem values_drift_detected_witness:
  "(\<exists>rel ch vals. EvUpgrade (upgrade_action ''demo'') ''web'' ch vals (Inr (V1Release rel)) \<in>
      set (reconcile_events (demo_env (\<lambda>_ _. CurrentStatus)) demo_req (demo_secret_state ''a: 2'')) \<and>
      vals = [(''raw'', YStr ''a: 2'')]) \<and>
   no_apply (reconcile_events (demo_env (\<lambda>_ _. CurrentStatus)) demo_req (demo_secret_state ''a: 1''))"
proof -
  let ?E = "demo_env (\<lambda>_ _. CurrentStatus)" and ?ref = "\<lparr>refName = ''cfg'', refKey = ''''\<rparr>"
  let ?secret = "\<lambda>raw. \<lparr>secretData = [(''values.yaml'', raw)]\<rparr>"
  have app: "live_app demo_secret_app" "finalizerName \<in> set (Finalizers (Meta demo_secret_app))"
      "ValuesSecretRef (Spec demo_secret_app) = Some ?ref"
    by (simp_all add: demo_secret_app_def demo_app_def live_app_def)
  have get: "GetApplication ?E demo_req (world (demo_secret_state raw)) = (Inr demo_secret_app, world (demo_secret_state raw))"
    for raw
    by (simp add: demo_env_def demo_get_def demo_secret_state_def demo_world_def demo_secret_app_def demo_app_def
        app_key_def demo_req_def)
  have secret: "GetSecret ?E \<lparr>nnNamespace = metaNamespace (Meta demo_secret_app), nnName = refName ?ref\<rparr>
      (world (demo_secret_state raw)) = (Inr (?secret raw), world (demo_secret_state raw))" for raw
    by (simp add: demo_env_def demo_option_def demo_secret_state_def)
  have doc: "map_of (secretData (?secret raw)) (if refKey ?ref = '''' then ''values.yaml'' else refKey ?ref) = Some raw"
    "ReadValues ?E raw = Inr (Some [(''raw'', YStr raw)])" for raw
    by (simp_all add: demo_env_def)
  have applied: "ObservedGeneration (Status demo_secret_app) = Generation (Meta demo_secret_app)"
    "LastAppliedValuesHash (Status demo_secret_app) = hex_EncodeToString (Sha256Sum ?E ''a: 1'')"
    by (simp_all add: demo_secret_app_def demo_app_def demo_status_def demo_env_def)
  note drift = values_drift_detected [OF demo_finalizer_laws get app secret doc applied]
  have sha: "Sha256Sum ?E x = x" for x by (simp add: demo_env_def)
  have names: "Namespace (Spec demo_secret_app) = ''demo''" "metaName (Meta demo_secret_app) = ''web''"
    by (simp_all add: demo_secret_app_def demo_app_def)
  have ok: "snd (reconcile_result ?E demo_req (demo_secret_state ''a: 2'')) = None \<and>
      (\<forall>m\<in>set (reconcile_events ?E demo_req (demo_secret_state ''a: 2'')). \<not> is_EvInstall m)"
    by code_simp
  have "\<exists>rel ch. EvUpgrade (upgrade_action ''demo'') ''web'' ch [(''raw'', YStr ''a: 2'')] (Inr (V1Release rel)) \<in>
      set (reconcile_events ?E demo_req (demo_secret_state ''a: 2''))"
    using drift [of "''a: 2''"] ok unfolding sha names by fastforce
  moreover have "no_apply (reconcile_events ?E demo_req (demo_secret_state ''a: 1''))"
    using drift [of "''a: 1''"] unfolding sha no_apply_def by simp
  ultimately show ?thesis by blast
qed

section \<open>Failures\<close>

lemma set_conditions:
  assumes "condition_laws E" "c1 \<noteq> c2"
    "d1 = \<lparr>condType = c1, condStatus = s1, condObservedGeneration = g, condLastTransitionTime = x1, condReason = r1, condMessage = m1\<rparr>"
    "d2 = \<lparr>condType = c2, condStatus = s2, condObservedGeneration = g, condLastTransitionTime = x2, condReason = r2, condMessage = m2\<rparr>"
    "cs' = SetStatusCondition E t2 (SetStatusCondition E t1 cs d1) d2"
  shows "\<exists>c. find_condition c1 cs' = Some c \<and> same_condition c d1"
    and "\<exists>c. find_condition c2 cs' = Some c \<and> same_condition c d2"
    and "k \<noteq> c1 \<Longrightarrow> k \<noteq> c2 \<Longrightarrow> find_condition k cs' = find_condition k cs"
proof -
  note found = condition_found [OF assms(1)] and other = condition_other [OF assms(1)]
  have "find_condition c1 cs' = find_condition c1 (SetStatusCondition E t1 cs d1)"
    using other [of c1 d2] assms(2,4,5) by simp
  with found [of d1] assms(3) show "\<exists>c. find_condition c1 cs' = Some c \<and> same_condition c d1" by simp
  show "\<exists>c. find_condition c2 cs' = Some c \<and> same_condition c d2" using found [of d2] assms(4,5) by simp
  show "k \<noteq> c1 \<Longrightarrow> k \<noteq> c2 \<Longrightarrow> find_condition k cs' = find_condition k cs"
    using other assms(3-5) by simp
qed

text \<open>
  C39. A failure is recorded and passed on: one status is sent, in phase Failed, with the
  conditions Released and Ready False for the given reason, with the error's text and the
  current generation, and everything else of the status as it was, the condition Healthy
  and the rollback budget included. The answer is the cause, or the error of the write when
  that was refused.
\<close>

theorem failure_is_recorded:
  assumes "condition_laws E" "run_state (fail E app reason cause) s = (e, s')"
  shows "\<exists>sent res. log s' = log s @ [EvStatusUpdate sent res] \<and> on_base app sent \<and>
    same_record (Status app) (Status sent) \<and> Phase (Status sent) = PhaseFailed \<and>
    (\<forall>k\<in>{''Released'', ''Ready''}. \<exists>c. find_condition k (Conditions (Status sent)) = Some c \<and>
       condStatus c = ConditionFalse \<and> condReason c = reason \<and> condMessage c = error_text cause \<and>
       condObservedGeneration c = Generation (Meta app)) \<and>
    find_condition ''Healthy'' (Conditions (Status sent)) = find_condition ''Healthy'' (Conditions (Status app)) \<and>
    e = (case res of Inl uerr \<Rightarrow> uerr | Inr _ \<Rightarrow> cause)"
proof -
  let ?d = "\<lambda>k. new_condition app k ConditionFalse reason (error_text cause)"
  let ?cs = "\<lambda>t1 t2. SetStatusCondition E t2 (SetStatusCondition E t1 (Conditions (Status app)) (?d ConditionReleased))
    (?d ConditionReady)"
  let ?sent = "\<lambda>t1 t2. with_status (\<lambda>s. s\<lparr>Phase := PhaseFailed, Conditions := ?cs t1 t2\<rparr>) app"
  have "emits (fail E app reason cause) (\<lambda>e es. \<exists>t1 t2 res. es = [EvStatusUpdate (?sent t1 t2) res] \<and>
      e = (case res of Inl uerr \<Rightarrow> uerr | Inr _ \<Rightarrow> cause))"
    unfolding fail_def Let_def
    by (intro emits_bind emits_setCondition emits_client(7))
      (auto intro!: emits_return simp: with_status_def new_condition_def split: sum.split)
  from emitsD [OF this assms(2)] obtain t1 t2 res
    where r: "log s' = log s @ [EvStatusUpdate (?sent t1 t2) res]" "e = (case res of Inl uerr \<Rightarrow> uerr | Inr _ \<Rightarrow> cause)"
    by blast
  have ne: "ConditionReleased \<noteq> ConditionReady" by simp
  note cond = set_conditions [OF assms(1) ne _ _ refl [of "?cs t1 t2"], unfolded new_condition_def, OF refl refl]
  have names: "ConditionReleased = ''Released''" "ConditionReady = ''Ready''"
    by (simp_all add: ConditionReleased_def ConditionReady_def)
  show ?thesis
    using r cond(1,2) cond(3) [of "''Healthy''"]
    by (intro exI [of _ "?sent t1 t2"] exI [of _ res])
      (auto simp: on_base_def same_condition_def names new_condition_def)
qed

theorem failure_is_recorded_witness:
  "\<exists>c :: Condition. condReason c = ''HelmError'' \<and> condMessage c = ''boom'' \<and> condObservedGeneration c = 3"
proof -
  let ?m = "run_state (fail (demo_env (\<lambda>_ _. CurrentStatus)) (demo_app (demo_status PhaseDeployed 3 0)) ''HelmError''
    (ExtErr OtherErr ''boom'')) demo_stale_state"
  have "?m = (fst ?m, snd ?m)" by simp
  from failure_is_recorded [OF demo_condition_laws this] show ?thesis by (auto simp: demo_app_def)
qed

end
