(* ===== verification/SteadyFacts.thy ===== *)
theory SteadyFacts
  imports Refinement
begin

text \<open>
  What the reconciler does when there is nothing to do, and how often it comes back: writes
  that would change nothing are not made, every answer is an error or one of three delays.
\<close>

section \<open>Writing the same conditions again\<close>

lemma conditions_again:
  assumes "condition_laws E" "condType c1 \<noteq> condType c2"
    "cs' = SetStatusCondition E t2 (SetStatusCondition E t1 cs c1) c2"
  shows "SetStatusCondition E t3 cs' c1 = cs'" "SetStatusCondition E t4 cs' c2 = cs'"
proof -
  note found = condition_found [OF assms(1)] and other = condition_other [OF assms(1)]
    and same = condition_same [OF assms(1)]
  obtain d1 where "find_condition (condType c1) cs' = Some d1" "same_condition d1 c1"
    using found [of c1 t1 cs] other [OF assms(2)] assms(3) by auto
  then show "SetStatusCondition E t3 cs' c1 = cs'" by (rule same)
  obtain d2 where "find_condition (condType c2) cs' = Some d2" "same_condition d2 c2"
    using found [of c2 t2 "SetStatusCondition E t1 cs c1"] assms(3) by auto
  then show "SetStatusCondition E t4 cs' c2 = cs'" by (rule same)
qed

lemma run_setCondition [simp]:
  "run_state (setCondition E app ty st reason msg) s =
     (with_status (\<lambda>x. x\<lparr>Conditions := SetStatusCondition E (Now E (world s)) (Conditions x)
        (new_condition app ty st reason msg)\<rparr>) app, s)"
  by (simp add: setCondition_def)

text \<open>A status that already has a phase and two conditions, as some write left it.\<close>

definition settled ::
  "'w env \<Rightarrow> Application \<Rightarrow> ApplicationPhase \<Rightarrow> Condition \<Rightarrow> Condition \<Rightarrow> Application \<Rightarrow> bool" where
  "settled E app p c1 c2 later \<longleftrightarrow> Generation (Meta later) = Generation (Meta app) \<and>
     (\<exists>t1 t2. Status later = (Status app)\<lparr>Phase := p,
        Conditions := SetStatusCondition E t2 (SetStatusCondition E t1 (Conditions (Status app)) c1) c2\<rparr>)"

lemma settled_conditions:
  assumes "condition_laws E" "condType c1 \<noteq> condType c2" "settled E app p c1 c2 later"
  shows "SetStatusCondition E t (Conditions (Status later)) c1 = Conditions (Status later)"
    "SetStatusCondition E t (Conditions (Status later)) c2 = Conditions (Status later)"
    "Phase (Status later) = p"
  using assms(3) conditions_again [OF assms(1,2) refl] by (auto simp: settled_def)

lemma new_condition_generation:
  "Generation (Meta later) = Generation (Meta app) \<Longrightarrow> new_condition later ty st r m = new_condition app ty st r m"
  by (simp add: new_condition_def)

lemma status_unchanged:
  fixes s :: ApplicationStatus
  shows "Phase s = p \<Longrightarrow> s\<lparr>Phase := p, Conditions := Conditions s\<rparr> = s"
  by simp

section \<open>Recording a reading again\<close>

text \<open>
  What the branches of a health check that settle a phase have in common: the phase and the two
  conditions are set, and the status is written if that changed it.
\<close>

definition record_phase ::
  "'w env \<Rightarrow> ApplicationPhase \<Rightarrow> ConditionStatus \<times> string \<times> string \<Rightarrow> ConditionStatus \<times> string \<times> string \<Rightarrow>
   duration \<Rightarrow> Application \<Rightarrow> ('w, Result \<times> go_error option) eff" where
  "record_phase E p h r d app = (case (h, r) of ((hs, hr, hm), (rs, rr, rm)) \<Rightarrow>
     setCondition E (with_status (\<lambda>s. s\<lparr>Phase := p\<rparr>) app) ConditionHealthy hs hr hm \<bind>
       (\<lambda>app2. setCondition E app2 ConditionReady rs rr rm \<bind>
       (\<lambda>app3. write_if_changed E (Status app) app3 \<lparr>RequeueAfter = d\<rparr>)))"


lemma record_phase_again:
  assumes "condition_laws E" "run_state (record_phase E p h r d app) s = (x, s')"
    "log s' = log s @ es" "EvStatusUpdate sent res \<in> set es"
    "Status later = Status sent" "Generation (Meta later) = Generation (Meta app)"
  shows "run_state (record_phase E p h r d later) t = ((\<lparr>RequeueAfter = d\<rparr>, None), t) \<and>
    (\<exists>cs. Status later = (Status app)\<lparr>Phase := p, Conditions := cs\<rparr>)"
proof -
  obtain hs hr hm rs rr rm where hr: "h = (hs, hr, hm)" "r = (rs, rr, rm)" by (metis prod.collapse)
  let ?c1 = "new_condition app ConditionHealthy hs hr hm" and ?c2 = "new_condition app ConditionReady rs rr rm"
  have "emits (record_phase E p h r d app) (\<lambda>_ es. \<forall>sent res. EvStatusUpdate sent res \<in> set es \<longrightarrow>
      (\<exists>t1 t2. Status sent = (Status app)\<lparr>Phase := p,
        Conditions := SetStatusCondition E t2 (SetStatusCondition E t1 (Conditions (Status app)) ?c1) ?c2\<rparr>))"
    unfolding record_phase_def hr prod.case write_if_changed_def
    by (auto intro!: emits_return emits_bind emits_setCondition emits_if emits_client(7) emits_case_sum
        simp: with_status_def new_condition_def) ((rule exI, rule exI, rule refl)+)
  from emits_run [OF this assms(2,3)] assms(4,5) have
    "\<exists>t1 t2. Status later = (Status app)\<lparr>Phase := p,
        Conditions := SetStatusCondition E t2 (SetStatusCondition E t1 (Conditions (Status app)) ?c1) ?c2\<rparr>"
    by auto
  then have st: "settled E app p ?c1 ?c2 later" using assms(6) by (auto simp: settled_def)
  note keep = settled_conditions [OF assms(1) _ st, simplified]
  note gen = new_condition_generation [OF assms(6)]
  have "run_state (record_phase E p h r d later) t = ((\<lparr>RequeueAfter = d\<rparr>, None), t)"
    using keep status_unchanged [OF keep(3)] by (simp add: record_phase_def hr write_if_changed_def gen)
  with st show ?thesis unfolding settled_def by blast
qed

lemma setDegraded_record:
  "setDegraded E app reason msg d =
   record_phase E PhaseDegraded (ConditionFalse, reason, msg) (ConditionFalse, ''Degraded'', msg) d app"
  by (simp add: setDegraded_def record_phase_def write_if_changed_def Let_def)

text \<open>
  Once Degraded has been sent with a reason and a message, degrading an object with that status
  and generation again for the same reason and message makes no call and keeps the given delay.
\<close>

lemma degrading_is_idempotent:
  assumes "condition_laws E" "run_state (setDegraded E app reason msg d) s = (r, s')"
    "log s' = log s @ es" "EvStatusUpdate sent res \<in> set es"
    "Status later = Status sent" "Generation (Meta later) = Generation (Meta app)"
  shows "run_state (setDegraded E later reason msg d) t = ((\<lparr>RequeueAfter = d\<rparr>, None), t)"
  using record_phase_again [OF assms(1) assms(2) [unfolded setDegraded_record] assms(3-6)]
  by (simp add: setDegraded_record)









section \<open>How often\<close>

definition cadence :: "Result \<times> go_error option \<Rightarrow> bool" where
  "cadence r \<longleftrightarrow> (case r of (res, e) \<Rightarrow>
     RequeueAfter res \<in> {0, healthPollInterval, steadyPollInterval} \<and> (e \<noteq> None \<longrightarrow> res = emptyResult))"

lemma cadence_simps [simp]:
  "cadence (emptyResult, e)"
  "cadence (\<lparr>RequeueAfter = d\<rparr>, None) \<longleftrightarrow> d \<in> {0, healthPollInterval, steadyPollInterval}"
  by (simp_all add: cadence_def emptyResult_def)

lemma cadence_write: "d \<in> {healthPollInterval, steadyPollInterval} \<Longrightarrow> cadence (write_answer \<lparr>RequeueAfter = d\<rparr> upd)"
  by (cases upd) auto

text \<open>Every answer of a computation keeps the cadence, whatever the calls before it did.\<close>

definition paced :: "('w, Result \<times> go_error option) eff \<Rightarrow> bool" where
  "paced m \<longleftrightarrow> (\<forall>s. cadence (fst (run_state m s)))"

lemma paced_intros:
  "cadence r \<Longrightarrow> paced (ret r)"
  "(\<And>a. paced (f a)) \<Longrightarrow> paced (State_Monad.bind m f)"
  "(b \<Longrightarrow> paced m1) \<Longrightarrow> (\<not> b \<Longrightarrow> paced m2) \<Longrightarrow> paced (if b then m1 else m2)"
  "(\<And>a. paced (g a)) \<Longrightarrow> (\<And>b. paced (h b)) \<Longrightarrow> paced (case x of Inl a \<Rightarrow> g a | Inr b \<Rightarrow> h b)"
  "paced m1 \<Longrightarrow> (\<And>b. paced (k b)) \<Longrightarrow> paced (case y of None \<Rightarrow> m1 | Some b \<Rightarrow> k b)"
  "(\<And>a b. paced (l a b)) \<Longrightarrow> paced (case p of (a, b) \<Rightarrow> l a b)"
  by (auto simp: paced_def case_prod_beta split: sum.split option.split)

lemma paced_degraded: "d \<in> {healthPollInterval, steadyPollInterval} \<Longrightarrow> paced (setDegraded E app reason msg d)"
  unfolding setDegraded_def Let_def by (intro paced_intros) auto

lemma paced_unhealthy: "paced (handleUnhealthy E app health detail)"
  unfolding handleUnhealthy_def Let_def by (intro paced_intros paced_degraded) auto

lemma paced_settle: "d \<in> {healthPollInterval, steadyPollInterval} \<Longrightarrow> paced (write_if_changed E before app \<lparr>RequeueAfter = d\<rparr>)"
  unfolding write_if_changed_def by (intro paced_intros) auto

lemma paced_drive: "paced (drivePhase E app health detail)"
  unfolding drivePhase_def Let_def by (intro paced_intros paced_unhealthy paced_settle) auto

lemma paced_health: "paced (reconcileHealth E app)"
  unfolding reconcileHealth_def by (intro paced_intros paced_drive) auto

lemma paced_apply: "paced (applyRelease E app vs h)"
  unfolding applyRelease_def Let_def by (intro paced_intros) auto

lemma paced_live: "paced (reconcile_live E app)"
  unfolding reconcile_live_def by (intro paced_intros paced_apply paced_health) auto

lemma paced_body: "paced (reconcile_body E req)"
  unfolding reconcile_body_def by (intro paced_intros paced_live) auto

lemma paced_Reconcile: "paced (Reconcile E req)"
  unfolding Reconcile_def paced_def using paced_body by (simp add: paced_def case_prod_beta)

text \<open>
  C35. Every pass answers with an error and no delay of its own, so that the queue retries
  it with its backoff, or without an error and with a delay of none, 30 seconds or five
  minutes.
\<close>

theorem requeue_cadence:
  "case reconcile_result E req s of
     (res, Some err) \<Rightarrow> sint (RequeueAfter res) = 0
   | (res, None) \<Rightarrow> sint (RequeueAfter res) \<in> {0, 30 * 10 ^ 9, 300 * 10 ^ 9}"
proof -
  have "cadence (reconcile_result E req s)"
    using paced_Reconcile [of E req] by (simp add: paced_def reconcile_result_def)
  moreover have "sint healthPollInterval = 30 * 10 ^ 9" "sint steadyPollInterval = 300 * 10 ^ 9"
    by (simp_all add: healthPollInterval_def steadyPollInterval_def second_def minute_def)
  ultimately show ?thesis by (auto simp: cadence_def emptyResult_def split: prod.split option.split)
qed

section \<open>Nothing to do\<close>

text \<open>
  An Application that no longer exists is not an error: when the API server says so the
  pass returns nil with no delay, and all it does besides is refresh its metrics.
\<close>

theorem missing_application_is_done:
  assumes "ignore_law E" "EvGetApplication req (Inl err) \<in> set (reconcile_events E req s)"
  shows "reconcile_result E req s = (emptyResult, if errors_Is err NotFoundErr then None else Some err) \<and>
    (\<exists>tail. reconcile_events E req s = EvGetApplication req (Inl err) # tail \<and> (\<forall>e\<in>set tail. gauge_event e))"
proof -
  obtain es1 tail where b: "body_trace E req (reconcile_result E req s) es1" and t: "\<forall>e\<in>set tail. gauge_event e"
      and es: "reconcile_events E req s = es1 @ tail"
    using reconcile_events_trace [of E req s] unfolding reconcile_trace_def by blast
  have m: "EvGetApplication req (Inl err) \<in> set es1" using assms(2) es no_get_gauge [OF t] by auto
  from b show ?thesis
    unfolding body_trace_def
  proof (elim disjE exE conjE)
    fix err' assume "es1 = [EvGetApplication req (Inl err')]" "reconcile_result E req s = (emptyResult, IgnoreNotFound E err')"
    with m es t assms(1) show ?thesis by (simp add: ignore_law_def)
  next
    fix a e es' assume "delete_trace E a e es'" "es1 = EvGetApplication req (Inr a) # es'"
    with m delete_no_get show ?thesis by fastforce
  next
    fix a app' es' assume "live_trace E app' (reconcile_result E req s) es'" "es1 = EvGetApplication req (Inr a) # es'"
    with m live_no_get show ?thesis by fastforce
  qed (use m in auto)
qed

theorem missing_application_is_done_witness:
  "reconcile_result (demo_env (\<lambda>_ _. CurrentStatus)) \<lparr>nnNamespace = ''default'', nnName = ''gone''\<rparr>
     (demo_state (demo_app (demo_status PhaseDeployed 3 0)) 3 10) = (emptyResult, None)"
proof -
  have "EvGetApplication \<lparr>nnNamespace = ''default'', nnName = ''gone''\<rparr> (Inl demo_missing) \<in>
      set (reconcile_events (demo_env (\<lambda>_ _. CurrentStatus)) \<lparr>nnNamespace = ''default'', nnName = ''gone''\<rparr>
        (demo_state (demo_app (demo_status PhaseDeployed 3 0)) 3 10))"
    by code_simp
  from missing_application_is_done [OF demo_ignore_law this] show ?thesis by (simp add: demo_missing_def)
qed

text \<open>
  Values that cannot be resolved stop the pass: when the Secret cannot be read, has no
  such key or does not parse, the pass over a live Application calls nothing more than the
  one status update that records phase Failed, and returns an error: the cause, or that of
  the update.
\<close>

theorem bad_values_stop_the_pass:
  assumes "run_state (resolveValues E app) s = (Inl err, s1)" "run_state (reconcile_live E app) s = (r, s')"
  shows "\<exists>sent upd. log s' = log s1 @ [EvStatusUpdate sent upd] \<and> on_base app sent \<and>
    same_record (Status app) (Status sent) \<and> Phase (Status sent) = PhaseFailed \<and>
    r = (emptyResult, Some (case upd of Inl uerr \<Rightarrow> uerr | Inr _ \<Rightarrow> err))"
proof -
  obtain e s2 where f: "run_state (fail E app ''ValuesError'' err) s1 = (e, s2)" by fastforce
  then have r: "r = (emptyResult, Some e)" "s' = s2"
    using assms by (auto simp: reconcile_live_def)
  obtain es where "log s2 = log s1 @ es" "fail_trace app err e es" using emitsD [OF fail_contract f] .
  moreover have "fail_answer err upd = (case upd of Inl uerr \<Rightarrow> uerr | Inr _ \<Rightarrow> err)" for upd
    by (cases upd) simp_all
  ultimately show ?thesis using r by (auto simp: fail_trace_def)
qed

definition demo_no_secret :: Application where
  "demo_no_secret = (demo_app (demo_status PhaseDeployed 3 0))
     \<lparr>Spec := (Spec (demo_app (demo_status PhaseDeployed 3 0)))\<lparr>ValuesSecretRef := Some \<lparr>refName = ''cfg'', refKey = ''''\<rparr>\<rparr>\<rparr>"

theorem bad_values_stop_the_pass_witness:
  "\<exists>sent :: Application. Phase (Status sent) = PhaseFailed \<and> same_record (Status demo_no_secret) (Status sent)"
proof -
  let ?vals = "run_state (resolveValues (demo_env (\<lambda>_ _. CurrentStatus)) demo_no_secret) (demo_state demo_no_secret 3 10)"
  let ?pass = "run_state (reconcile_live (demo_env (\<lambda>_ _. CurrentStatus)) demo_no_secret) (demo_state demo_no_secret 3 10)"
  have "isl (fst ?vals)" by code_simp
  then obtain err where v: "?vals = (Inl err, snd ?vals)" by (metis isl_def prod.collapse)
  have p: "?pass = (fst ?pass, snd ?pass)" by simp
  from bad_values_stop_the_pass [OF v p] show ?thesis
    by blast
qed

end
