(* ===== verification/RolloutFacts.thy ===== *)
theory RolloutFacts
  imports ApplyFacts SteadyFacts
begin

text \<open>
  How a rollout ends: the pass that finds every workload current completes it, the pass that
  finds it failed or late rolls it back. Both are about what a pass does do, where the
  safety theorems say what it does not.
\<close>

section \<open>A pass that reads the health of the release\<close>

text \<open>
  What the pass reads before it decides: values with the hash \<open>h\<close>, a release, and the health
  of its workloads.
\<close>

definition pass_reads ::
  "'w env \<Rightarrow> Application \<Rightarrow> string \<Rightarrow> ('w, event) st \<Rightarrow> kstatus \<Rightarrow> string \<Rightarrow> ('w, event) st \<Rightarrow> bool" where
  "pass_reads E app h t health detail t3 \<longleftrightarrow> (\<exists>vals t1 rel t2.
     run_state (resolveValues E app) t = (Inr (vals, h), t1) \<and>
     run_state (GetRelease E (metaName (Meta app)) (Namespace (Spec app))) t1 = (Inr rel, t2) \<and>
     run_state (releaseHealth E (rrManifest rel) (Namespace (Spec app))) t2 = (Inr (health, detail), t3))"

lemma reads_then_drives:
  "pass_reads E app h t health detail t3 \<Longrightarrow> \<not> needsApply app h \<Longrightarrow>
   run_state (reconcile_live E app) t = run_state (drivePhase E app health detail) t3"
  by (auto simp: pass_reads_def reconcile_live_def reconcileHealth_def)

section \<open>Completion\<close>

lemma applied_write:
  assumes "run_state (applyRelease E app vals h) s = ((res, None), s1)" "log s1 = log s @ es"
    "EvStatusUpdate sent upd \<in> set es"
  shows "Phase (Status sent) = PhaseDeploying" "LastFailedRevision (Status sent) = 0"
    "ObservedGeneration (Status sent) = Generation (Meta app)" "LastAppliedValuesHash (Status sent) = h"
proof -
  from emits_run [OF applyRelease_contract assms(1,2)]
  obtain rr sent' upd' es1 es2 where e: "ensure_trace (Namespace (Spec app)) None es1"
    "install_contract (release_spec app vals) (Inr rr) es2" "applied app rr h sent'"
    "es = es1 @ es2 @ [EvStatusUpdate sent' upd']"
    unfolding apply_trace_def Let_def by blast
  have "EvStatusUpdate sent upd \<notin> set es1" "EvStatusUpdate sent upd \<notin> set es2"
    using status_writes_mem [of sent upd es1] writes_ensure [OF e(1)]
      status_writes_mem [of sent upd es2] writes_install [OF e(2)] by simp_all
  then have "sent = sent'" using assms(3) e(4) by simp
  then show "Phase (Status sent) = PhaseDeploying" "LastFailedRevision (Status sent) = 0"
    "ObservedGeneration (Status sent) = Generation (Meta app)" "LastAppliedValuesHash (Status sent) = h"
    using e(3) by (auto simp: applied_def applied_status_def)
qed

lemma drive_current:
  assumes "LastFailedRevision (Status app) = 0" "Phase (Status app) \<noteq> PhaseDeployed"
  shows "emits (drivePhase E app CurrentStatus detail) (\<lambda>r es. \<exists>sent upd.
    es = [EvDeploymentSuccess (metaName (Meta app)) (metaNamespace (Meta app)), EvStatusUpdate sent upd] \<and>
    on_base app sent \<and> Phase (Status sent) = PhaseDeployed \<and>
    r = (case upd of Inl err \<Rightarrow> (emptyResult, Some err) | Inr _ \<Rightarrow> (\<lparr>RequeueAfter = steadyPollInterval\<rparr>, None)))"
proof -
  have changed: "Status app \<noteq> Status (with_status (\<lambda>s. s\<lparr>Conditions := cs\<rparr>)
      (with_status (\<lambda>s. s\<lparr>Conditions := cs'\<rparr>) (with_status (\<lambda>s. s\<lparr>Phase := PhaseDeployed\<rparr>) app)))" for cs cs'
  proof
    assume "Status app = Status (with_status (\<lambda>s. s\<lparr>Conditions := cs\<rparr>)
      (with_status (\<lambda>s. s\<lparr>Conditions := cs'\<rparr>) (with_status (\<lambda>s. s\<lparr>Phase := PhaseDeployed\<rparr>) app)))"
    from arg_cong [OF this, of Phase] show False using assms(2) by simp
  qed
  show ?thesis
    unfolding drivePhase_def Let_def write_if_changed_def using assms
    by (simp, intro emits_bind emits_signal emits_setCondition_any, subst if_P [OF changed],
        intro emits_bind emits_client(7) emits_case_sum emits_return)
      (rule exI, rule exI, rule conjI, simp, simp add: on_base_def)+
qed

text \<open>
  C12. A healthy rollout completes: after a release was applied with success, the next pass over
  the Application, reading back the status that was written, the same generation, values
  with the same hash and every workload current, counts a success, sends a status with phase
  Deployed and, when that write is accepted, comes back after five minutes.
\<close>

theorem healthy_rollout_completes:
  assumes "run_state (applyRelease E app vals h) s = ((res, None), s1)" "log s1 = log s @ es"
    "EvStatusUpdate sent upd \<in> set es"
    "recorded (Status later) = recorded (Status sent)" "Generation (Meta later) = Generation (Meta app)"
    "pass_reads E later h t CurrentStatus detail t3" "run_state (reconcile_live E later) t = (r, t')"
  shows "\<exists>sent' upd'. log t' = log t3 @
      [EvDeploymentSuccess (metaName (Meta later)) (metaNamespace (Meta later)), EvStatusUpdate sent' upd'] \<and>
    on_base later sent' \<and> Phase (Status sent') = PhaseDeployed \<and>
    r = (case upd' of Inl err \<Rightarrow> (emptyResult, Some err) | Inr _ \<Rightarrow> (\<lparr>RequeueAfter = 300 * second\<rparr>, None))"
proof -
  note sent = applied_write [OF assms(1-3)]
  note same = recorded_fields [OF assms(4)]
  have "\<not> needsApply later h" using sent same assms(5) by (simp add: needsApply_def)
  from reads_then_drives [OF assms(6) this] assms(7)
  have run: "run_state (drivePhase E later CurrentStatus detail) t3 = (r, t')" by simp
  have state: "LastFailedRevision (Status later) = 0" "Phase (Status later) \<noteq> PhaseDeployed"
    using sent same by simp_all
  have "steadyPollInterval = 300 * second" by (simp add: steadyPollInterval_def minute_def second_def)
  with emitsD [OF drive_current [OF state] run] show ?thesis by metis
qed

section \<open>Rollback\<close>

lemma rollback_first:
  "emits (Rollback E n ns) (\<lambda>_ es. (\<exists>err. es = [EvActionInit (config_for ns) (Some err)]) \<or>
     (\<exists>res. es = [EvActionInit (config_for ns) None, EvRollback (rollback_action ns) n res]))"
  unfolding Rollback_def newActionConfig_def Let_def
  by (auto intro!: emits_intros simp: action_defs split: option.split)

text \<open>What follows an accepted record of the failed revision: the attempt to roll back.\<close>

definition attempts :: "string \<Rightarrow> string \<Rightarrow> event list \<Rightarrow> bool" where
  "attempts n ns rest \<longleftrightarrow> (\<exists>rest'.
     (\<exists>err. rest = EvActionInit (config_for ns) (Some err) # rest') \<or>
     (\<exists>res. rest = EvActionInit (config_for ns) None # EvRollback (rollback_action ns) n res # rest'))"

lemma attempts_append:
  "(\<exists>err. es = [EvActionInit (config_for ns) (Some err)]) \<or>
   (\<exists>res. es = [EvActionInit (config_for ns) None, EvRollback (rollback_action ns) n res]) \<Longrightarrow> attempts n ns (es @ rest)"
  by (auto simp: attempts_def)

definition rolls_back :: "Application \<Rightarrow> Result \<times> go_error option \<Rightarrow> event list \<Rightarrow> bool" where
  "rolls_back app r es \<longleftrightarrow> (\<exists>sent upd rest. es = EvStatusUpdate sent upd # rest \<and>
     on_base app sent \<and> Phase (Status sent) = PhaseRollingBack \<and> LastFailedRevision (Status sent) = HelmRevision (Status app) \<and>
     (case upd of Inl err \<Rightarrow> rest = [] \<and> r = (emptyResult, Some err)
      | Inr stored \<Rightarrow> attempts (metaName (Meta stored)) (Namespace (Spec stored)) rest))"

lemma rolls_back_intros:
  assumes "on_base app sent" "Phase (Status sent) = PhaseRollingBack" "LastFailedRevision (Status sent) = HelmRevision (Status app)"
  shows "rolls_back app (emptyResult, Some err) [EvStatusUpdate sent (Inl err)]"
    and "attempts (metaName (Meta stored)) (Namespace (Spec stored)) rest \<Longrightarrow>
      rolls_back app r (EvStatusUpdate sent (Inr stored) # rest)"
  using assms unfolding rolls_back_def by fastforce+

text \<open>Whatever follows the attempt, the shape stays.\<close>

lemma after_attempt:
  assumes "emits m P" "on_base app sent" "Phase (Status sent) = PhaseRollingBack"
    "LastFailedRevision (Status sent) = HelmRevision (Status app)"
    "(\<exists>err. es = [EvActionInit (config_for (Namespace (Spec stored))) (Some err)]) \<or>
     (\<exists>res. es = [EvActionInit (config_for (Namespace (Spec stored))) None,
        EvRollback (rollback_action (Namespace (Spec stored))) (metaName (Meta stored)) res])"
  shows "emits m (\<lambda>b es'. rolls_back app b (EvStatusUpdate sent (Inr stored) # es @ es'))"
  by (rule emits_mono [OF assms(1)]) (rule rolls_back_intros(2) [OF assms(2-4)], rule attempts_append [OF assms(5)])

lemma handle_rolls_back:
  assumes "LastFailedRevision (Status app) = 0" "HelmRevision (Status app) > 1"
  shows "emits (handleUnhealthy E app health detail) (rolls_back app)"
proof -
  have not_one: "\<not> HelmRevision (Status app) \<le> 1" using assms(2) by simp
  have rest: "emits (case rb of
        Some err \<Rightarrow> setDegraded E st ''RollbackFailed'' (error_text err) healthPollInterval
      | None \<Rightarrow> do {
          g \<leftarrow> GetRelease E (metaName (Meta st)) (Namespace (Spec st));
          setDegraded E (case g of Inr rel \<Rightarrow> with_status (\<lambda>s. s\<lparr>HelmRevision := rrRevision rel\<rparr>) st | Inl _ \<Rightarrow> st)
            ''RolledBack'' msg steadyPollInterval}) (\<lambda>_ _. True)" for rb st msg
    by (cases rb) (auto intro!: emits_step [OF hm.get_scoped] intro: emits_mono [OF setDegraded_trace])
  show ?thesis
    unfolding handleUnhealthy_def Let_def
    apply (simp only: assms(1) not_one if_False simp_thms split: prod.split)
    apply (intro allI impI emits_bind emits_setCondition_any emits_client(7) emits_case_sum emits_return)
     apply (simp add: rolls_back_intros on_base_def)
    apply (rule emits_mono [OF rollback_first])
    apply (rule emits_mono [OF after_attempt [OF rest]])
        apply (simp_all add: on_base_def)
    done
qed

lemma unhealthy_drives:
  assumes "health = FailedStatus \<or> health \<noteq> CurrentStatus \<and> deadline_passed app (Now E (world s))"
  shows "run_state (drivePhase E app health detail) s = run_state (handleUnhealthy E app health detail) s"
  using assms by (auto simp: drivePhase_def deadlineExceeded_def)

text \<open>
  C11. A failed rollout is rolled back: a pass over an Application whose release is applied,
  stands at a revision above 1 and has not spent its rollback, which reads a failed workload,
  or one not yet current after the deadline, records that revision as failed with phase
  RollingBack, and when that write is accepted goes on to the rollback of that release to the
  revision before; only if Helm cannot be configured for the namespace is it not run.
\<close>

theorem failed_rollout_is_rolled_back:
  assumes "LastFailedRevision (Status app) = 0" "HelmRevision (Status app) > 1" "\<not> needsApply app h"
    "pass_reads E app h t health detail t3"
    "health = FailedStatus \<or> health \<noteq> CurrentStatus \<and> deadline_passed app (Now E (world t3))"
    "run_state (reconcile_live E app) t = (r, t')"
  shows "\<exists>sent upd rest. log t' = log t3 @ EvStatusUpdate sent upd # rest \<and> on_base app sent \<and>
    Phase (Status sent) = PhaseRollingBack \<and> LastFailedRevision (Status sent) = HelmRevision (Status app) \<and>
    (case upd of
       Inl err \<Rightarrow> rest = [] \<and> r = (emptyResult, Some err)
     | Inr stored \<Rightarrow> (\<exists>rest'. let ns = Namespace (Spec stored) in
         (\<exists>err. rest = EvActionInit (config_for ns) (Some err) # rest') \<or>
         (\<exists>res. rest = EvActionInit (config_for ns) None # EvRollback (rollback_action ns) (metaName (Meta stored)) res # rest')))"
proof -
  have run: "run_state (handleUnhealthy E app health detail) t3 = (r, t')"
    using assms(6) unfolding reads_then_drives [OF assms(4,3)] unhealthy_drives [OF assms(5)] .
  obtain es where "log t' = log t3 @ es" "rolls_back app r es"
    using emitsD [OF handle_rolls_back [OF assms(1,2)] run] .
  then show ?thesis unfolding rolls_back_def attempts_def Let_def by blast
qed

section \<open>Examples\<close>

text \<open>What a pass reads, as a function that computes.\<close>

definition reads_of :: "'w env \<Rightarrow> Application \<Rightarrow> ('w, event) st \<Rightarrow> (string \<times> kstatus \<times> string) option" where
  "reads_of E app t =
     (case run_state (resolveValues E app) t of
        (Inl _, _) \<Rightarrow> None
      | (Inr (vals, h), t1) \<Rightarrow>
          (case run_state (GetRelease E (metaName (Meta app)) (Namespace (Spec app))) t1 of
             (Inl _, _) \<Rightarrow> None
           | (Inr rel, t2) \<Rightarrow>
               (case fst (run_state (releaseHealth E (rrManifest rel) (Namespace (Spec app))) t2) of
                  Inl _ \<Rightarrow> None
                | Inr (health, detail) \<Rightarrow> Some (h, health, detail))))"

lemma pass_reads_eval: "reads_of E app t = Some (h, health, detail) \<Longrightarrow> \<exists>t3. pass_reads E app h t health detail t3"
  by (auto simp: reads_of_def pass_reads_def prod_eq_iff split: prod.splits sum.splits)

text \<open>An apply, and the pass after it, with every workload current.\<close>

definition demo_applied :: "(demo, event) st" where
  "demo_applied = snd (run_state (applyRelease (demo_env (\<lambda>_ _. CurrentStatus))
     (demo_app (demo_status PhaseDegraded 4 3)) None '''') demo_stale_state)"

definition demo_sent :: Application where
  "demo_sent = fst (hd (status_writes (log demo_applied)))"

definition demo_apply_ok :: "((Result \<times> go_error option) \<times> (demo, event) st) \<Rightarrow> bool" where
  "demo_apply_ok run \<longleftrightarrow> snd (fst run) = None \<and>
     (case status_writes (log (snd run)) of
        [] \<Rightarrow> False
      | (sent, _) # _ \<Rightarrow> Generation (Meta sent) = 3 \<and> Phase (Status sent) = PhaseDeploying)"

lemma demo_apply_runs: "demo_apply_ok (run_state (applyRelease (demo_env (\<lambda>_ _. CurrentStatus))
    (demo_app (demo_status PhaseDegraded 4 3)) None '''') demo_stale_state)"
  by code_simp

lemma demo_apply_reads:
  "reads_of (demo_env (\<lambda>_ _. CurrentStatus)) demo_sent demo_applied = Some ('''', CurrentStatus, ''all workloads current'')"
  by code_simp

theorem healthy_rollout_completes_witness:
  "\<exists>sent. Phase (Status demo_sent) = PhaseDeploying \<and> on_base demo_sent sent \<and> Phase (Status sent) = PhaseDeployed"
proof -
  let ?E = "demo_env (\<lambda>_ _. CurrentStatus)" and ?app = "demo_app (demo_status PhaseDegraded 4 3)"
  let ?run = "run_state (applyRelease ?E ?app None '''') demo_stale_state"
  have applied: "snd ?run = demo_applied" by (simp add: demo_applied_def)
  have gen: "Generation (Meta ?app) = 3" by (simp add: demo_app_def)
  have ok: "snd (fst ?run) = None" "status_writes (log demo_applied) \<noteq> []"
    "Generation (Meta demo_sent) = Generation (Meta ?app)" "Phase (Status demo_sent) = PhaseDeploying"
    using demo_apply_runs
    by (auto simp: demo_apply_ok_def applied demo_sent_def gen split: list.splits)
  then have run: "?run = ((fst (fst ?run), None), demo_applied)"
    unfolding demo_applied_def by (metis prod.collapse)
  have ev: "log demo_applied = log demo_stale_state @ log demo_applied"
    by (simp add: demo_stale_state_def demo_state_def)
  have sent: "EvStatusUpdate demo_sent (snd (hd (status_writes (log demo_applied)))) \<in> set (log demo_applied)"
    using ok(2) unfolding status_writes_mem [symmetric] demo_sent_def by simp
  from pass_reads_eval [OF demo_apply_reads] obtain t3
    where reads: "pass_reads ?E demo_sent '''' demo_applied CurrentStatus ''all workloads current'' t3" ..
  obtain r t' where "run_state (reconcile_live ?E demo_sent) demo_applied = (r, t')" by fastforce
  from healthy_rollout_completes [OF run ev sent refl ok(3) reads this] ok(4) show ?thesis by blast
qed

text \<open>A workload of the deployed revision 3 fails.\<close>

theorem failed_rollout_is_rolled_back_witness:
  "\<exists>sent upd. EvStatusUpdate sent upd \<in> set (log (snd (run_state (reconcile_live (demo_env (\<lambda>_ _. FailedStatus))
      (demo_app (demo_status PhaseDeployed 3 0))) (demo_state (demo_app (demo_status PhaseDeployed 3 0)) 3 10)))) \<and>
     Phase (Status sent) = PhaseRollingBack \<and> LastFailedRevision (Status sent) = 3"
proof -
  let ?E = "demo_env (\<lambda>_ _. FailedStatus)" and ?app = "demo_app (demo_status PhaseDeployed 3 0)"
  let ?s = "demo_state ?app 3 10"
  let ?run = "run_state (reconcile_live ?E ?app) ?s"
  have run: "?run = (fst ?run, snd ?run)" by simp
  have app: "LastFailedRevision (Status ?app) = 0" "HelmRevision (Status ?app) > 1" "\<not> needsApply ?app ''''"
    "HelmRevision (Status ?app) = 3"
    by (simp_all add: demo_app_def demo_status_def needsApply_def)
  have "reads_of ?E ?app ?s = Some ('''', FailedStatus, ''Deployment/web: Failed'')" by code_simp
  then have "\<exists>t3. pass_reads ?E ?app '''' ?s FailedStatus ''Deployment/web: Failed'' t3"
    by (rule pass_reads_eval)
  then obtain t3 where reads: "pass_reads ?E ?app '''' ?s FailedStatus ''Deployment/web: Failed'' t3" ..
  from failed_rollout_is_rolled_back [OF app(1-3) reads disjI1 [OF refl] run] app(4)
  show ?thesis by fastforce
qed

end
