(* ===== verification/Webhook.thy ===== *)
theory Webhook
  imports ApiTypes
begin

text \<open>
  The validating admission webhook, \<open>internal/webhook/v1alpha1/application_webhook.go\<close>.
  The structured errors of \<open>field\<close> and \<open>apierrors\<close> are kept as the terms the code builds:
  a path is the list of its elements, \<open>field.Invalid\<close> and \<open>field.Required\<close> are constructors,
  and so is \<open>apierrors.NewInvalid\<close>. The semver parser and the DNS label rule are parameters.
\<close>

section \<open>What the validator calls and builds\<close>

text \<open>\<open>semver.NewVersion\<close>, of which only the error is used, and \<open>validation.IsDNS1123Label\<close>.\<close>

record validation_rules =
  NewVersion :: "string \<Rightarrow> go_error option"
  IsDNS1123Label :: "string \<Rightarrow> string list"

type_synonym field_path = "string list"

datatype field_error =
    FieldInvalid (errPath: field_path) string (errDetail: string)
  | FieldRequired (errPath: field_path) (errDetail: string)

record GroupKind =
  gkGroup :: string
  gkKind :: string

datatype api_error = NewInvalid GroupKind string (causes: "field_error list")

text \<open>\<open>GroupVersion\<close> of \<open>groupversion_info.go\<close>.\<close>

record GroupVersionT =
  gvGroup :: string
  gvVersion :: string

definition SchemeGroupVersion :: GroupVersionT where
  "SchemeGroupVersion = \<lparr>gvGroup = ''apps.helmwarden.dev'', gvVersion = ''v1alpha1''\<rparr>"

definition GroupVersion :: GroupVersionT where
  "GroupVersion = SchemeGroupVersion"

section \<open>The validator\<close>

text \<open>The loop over the messages of the label rule, appending to the errors found so far.\<close>

fun label_loop :: "string \<Rightarrow> string list \<Rightarrow> field_error list \<Rightarrow> field_error list" where
  "label_loop ns [] errs = errs"
| "label_loop ns (msg # msgs) errs =
     label_loop ns msgs (errs @ [FieldInvalid [''spec'', ''namespace''] ns msg])"

definition validateApplication :: "validation_rules \<Rightarrow> Application \<Rightarrow> api_error option" where
  "validateApplication V app =
     (let errs0 = [];
          errs1 = (case NewVersion V (Version (Spec app)) of
                     Some err \<Rightarrow> errs0 @ [FieldInvalid [''spec'', ''version''] (Version (Spec app))
                                        (''must be a valid semantic version: '' @ error_text err)]
                   | None \<Rightarrow> errs0);
          errs2 = label_loop (Namespace (Spec app)) (IsDNS1123Label V (Namespace (Spec app))) errs1;
          errs3 = (case ValuesSecretRef (Spec app) of
                     Some ref \<Rightarrow>
                       (if refName ref = ''''
                        then errs2 @ [FieldRequired [''spec'', ''valuesSecretRef'', ''name'']
                                        ''must be set when valuesSecretRef is provided'']
                        else errs2)
                   | None \<Rightarrow> errs2)
      in if length errs3 = 0 then None
         else Some (NewInvalid \<lparr>gkGroup = gvGroup GroupVersion, gkKind = ''Application''\<rparr>
                      (metaName (Meta app)) errs3))"

text \<open>The three hooks answer the warnings, of which there are none, and the error.\<close>

definition ValidateCreate :: "validation_rules \<Rightarrow> Application \<Rightarrow> string list \<times> api_error option" where
  "ValidateCreate V obj = ([], validateApplication V obj)"

definition ValidateUpdate ::
  "validation_rules \<Rightarrow> Application \<Rightarrow> Application \<Rightarrow> string list \<times> api_error option" where
  "ValidateUpdate V oldObj newObj = ([], validateApplication V newObj)"

definition ValidateDelete :: "validation_rules \<Rightarrow> Application \<Rightarrow> string list \<times> api_error option" where
  "ValidateDelete V obj = ([], None)"

section \<open>Lemmas\<close>

text \<open>The errors of an Application, field by field.\<close>

definition version_errors :: "validation_rules \<Rightarrow> Application \<Rightarrow> field_error list" where
  "version_errors V app = (case NewVersion V (Version (Spec app)) of
     None \<Rightarrow> []
   | Some err \<Rightarrow> [FieldInvalid [''spec'', ''version''] (Version (Spec app))
                   (''must be a valid semantic version: '' @ error_text err)])"

definition namespace_errors :: "validation_rules \<Rightarrow> Application \<Rightarrow> field_error list" where
  "namespace_errors V app = map (FieldInvalid [''spec'', ''namespace''] (Namespace (Spec app)))
     (IsDNS1123Label V (Namespace (Spec app)))"

definition nameless_ref :: "Application \<Rightarrow> bool" where
  "nameless_ref app \<longleftrightarrow> (\<exists>ref. ValuesSecretRef (Spec app) = Some ref \<and> refName ref = '''')"

definition ref_errors :: "Application \<Rightarrow> field_error list" where
  "ref_errors app = (if nameless_ref app
     then [FieldRequired [''spec'', ''valuesSecretRef'', ''name''] ''must be set when valuesSecretRef is provided'']
     else [])"

definition spec_errors :: "validation_rules \<Rightarrow> Application \<Rightarrow> field_error list" where
  "spec_errors V app = version_errors V app @ namespace_errors V app @ ref_errors app"

lemma label_loop_map: "label_loop ns msgs errs = errs @ map (FieldInvalid [''spec'', ''namespace''] ns) msgs"
  by (induction ns msgs errs rule: label_loop.induct) simp_all

lemma validateApplication_spec:
  "validateApplication V app = (if spec_errors V app = [] then None
     else Some (NewInvalid \<lparr>gkGroup = ''apps.helmwarden.dev'', gkKind = ''Application''\<rparr>
            (metaName (Meta app)) (spec_errors V app)))"
  by (simp add: validateApplication_def spec_errors_def version_errors_def namespace_errors_def ref_errors_def
      nameless_ref_def label_loop_map Let_def GroupVersion_def SchemeGroupVersion_def split: option.split)

lemma spec_errors_Nil:
  "spec_errors V app = [] \<longleftrightarrow> NewVersion V (Version (Spec app)) = None \<and>
     IsDNS1123Label V (Namespace (Spec app)) = [] \<and> \<not> nameless_ref app"
  by (simp add: spec_errors_def version_errors_def namespace_errors_def ref_errors_def split: option.split)

lemma admitted_iff:
  "validateApplication V app = None \<longleftrightarrow> NewVersion V (Version (Spec app)) = None \<and>
     IsDNS1123Label V (Namespace (Spec app)) = [] \<and> \<not> nameless_ref app"
  unfolding validateApplication_spec spec_errors_Nil [symmetric] by simp

text \<open>The validator looks at the spec alone, but for the name it puts into its error.\<close>

lemma admission_by_spec:
  "Spec app = Spec app' \<Longrightarrow> validateApplication V app = None \<longleftrightarrow> validateApplication V app' = None"
  by (simp add: admitted_iff nameless_ref_def)

end
