(* ===== verification/IndexFacts.thy ===== *)
theory IndexFacts
  imports Refinement
begin

text \<open>
  The lists of Applications the program asks its cache for: the gauge of managed
  Applications, the guard on shared namespaces, and the map from a Secret to the
  Applications that use it.
\<close>

section \<open>Shared namespaces\<close>

lemma run_others:
  "ListApplications E (namespace_list (Namespace (Spec app))) (world t) = (la, w) \<Longrightarrow>
   run_state (otherApplicationsInNamespace E app) t =
     (case la of Inl err \<Rightarrow> Inl err | Inr items \<Rightarrow> Inr (count_others app items 0),
      t\<lparr>world := w, log := log t @ [EvListApplications (namespace_list (Namespace (Spec app))) la]\<rparr>)"
  by (simp add: otherApplicationsInNamespace_def client_defs namespace_list_def split: sum.split)

lemma run_cleanup_deletes:
  assumes "run_state (maybeDeleteNamespace E app) s = (r, s')" "log s' = log s @ es"
    "EvDeleteNamespace obj res \<in> set es"
    "GetNamespace E (Namespace (Spec app)) (world s) = (ans, w)"
    "ListApplications E (namespace_list (Namespace (Spec app))) w = (la, w')"
  shows "\<exists>items. la = Inr items \<and> \<not> others_alive app items"
proof (cases ans)
  case (Inl err)
  then have "es = [EvGetNamespace (Namespace (Spec app)) ans]"
    using assms(1,2,4) by (auto simp: maybeDeleteNamespace_def client_defs)
  with assms(3) show ?thesis by simp
next
  case (Inr ns)
  show ?thesis
  proof (cases "go_lookup (nsAnnotations ns) managedByAnnotation = managedByValue")
    case False
    then have "es = [EvGetNamespace (Namespace (Spec app)) ans]"
      using assms(1,2,4) Inr by (auto simp: maybeDeleteNamespace_def client_defs)
    with assms(3) show ?thesis by simp
  next
    case True
    let ?stop = "es = [EvGetNamespace (Namespace (Spec app)) ans,
      EvListApplications (namespace_list (Namespace (Spec app))) la]"
    have "?stop" if "\<not> (\<exists>items. la = Inr items \<and> \<not> others_alive app items)"
      using assms(1,2,4) Inr True that
      by (cases la) (auto simp: maybeDeleteNamespace_def client_defs run_others assms(5) count_others_positive)
    with assms(3) show ?thesis by fastforce
  qed
qed

text \<open>
  C19. The shared-namespace guard, in terms of what the cache holds: the cleanup deletes a
  namespace only when at the moment of its list no live Application but the one being
  finalized targets that namespace.
\<close>

theorem shared_namespace_is_kept:
  assumes "list_law E apps" "run_state (maybeDeleteNamespace E app) s = (r, s')"
    "log s' = log s @ es" "EvDeleteNamespace obj res \<in> set es"
    "GetNamespace E (Namespace (Spec app)) (world s) = (ans, w)"
    "other \<in> set (apps w)" "live_app other" "Namespace (Spec other) = Namespace (Spec app)"
  shows "UID (Meta other) = UID (Meta app)"
proof -
  let ?ns = "Namespace (Spec app)"
  obtain la w' where l: "ListApplications E (namespace_list ?ns) w = (la, w')" by fastforce
  from run_cleanup_deletes [OF assms(2-5) l]
  obtain items where items: "la = Inr items" "\<not> others_alive app items" by blast
  have "other \<in> set items"
    using list_law_set [OF assms(1) l [unfolded items(1)]] assms(6,8) by (simp add: matches_namespace)
  with items(2) assms(7) show ?thesis by (auto simp: others_alive_def)
qed

text \<open>
  The Application itself is dying and alone: its namespace goes. Its own entry in the cache
  is found by the law and does not count.
\<close>

definition demo_dying :: Application where
  "demo_dying = (let app = demo_app (demo_status PhaseDeployed 3 0)
     in app\<lparr>Meta := (Meta app)\<lparr>DeletionTimestamp := Some 9\<rparr>\<rparr>)"

theorem shared_namespace_is_kept_witness:
  "\<exists>other. other \<in> set (demo_apps (demo_world (demo_app (demo_status PhaseDeployed 3 0)) 3 10)) \<and>
     live_app other \<and> UID (Meta other) = UID (Meta demo_dying)"
proof -
  let ?other = "demo_app (demo_status PhaseDeployed 3 0)"
  let ?E = "demo_env (\<lambda>_ _. CurrentStatus)" and ?s = "demo_state (demo_app (demo_status PhaseDeployed 3 0)) 3 10"
  let ?run = "run_state (maybeDeleteNamespace ?E demo_dying) ?s"
  have run: "?run = (fst ?run, snd ?run)" by simp
  have ev: "log (snd ?run) = log ?s @ log (snd ?run)" by (simp add: demo_state_def)
  have del: "EvDeleteNamespace (operator_namespace ''demo'') None \<in> set (log (snd ?run))" by code_simp
  have get: "GetNamespace ?E (Namespace (Spec demo_dying)) (world ?s) =
      (Inr (operator_namespace ''demo''), demo_world (demo_app (demo_status PhaseDeployed 3 0)) 3 10)"
    by (simp add: demo_env_def demo_option_def demo_state_def demo_world_def)
  have o: "?other \<in> set (demo_apps (demo_world ?other 3 10))"
    by (simp add: demo_apps_def demo_world_def)
  have live: "live_app ?other" "Namespace (Spec ?other) = Namespace (Spec demo_dying)"
    by (simp_all add: live_app_def demo_app_def demo_dying_def Let_def)
  from shared_namespace_is_kept [OF demo_list_law run ev del get o live] o live(1)
  show ?thesis by blast
qed

section \<open>Secrets\<close>

text \<open>
  C21. A change of a values Secret reaches every Application that uses it: if resolving the
  values of an Application in the cache would read that Secret, then the requests computed
  for the Secret contain the Application's key, and they contain no key of an Application
  that does not refer to it.
\<close>

theorem secret_change_reaches_users:
  assumes "list_law E apps" "run_state (applicationsForSecret E obj) s = (reqs, s')"
    "ListApplications E \<lparr>InNamespace = Some (nnNamespace obj), MatchingFields = [(secretRefIndexKey, nnName obj)]\<rparr> (world s) =
       (Inr items, w)" "nnName obj \<noteq> ''''"
  shows "set reqs = app_key ` {app \<in> set (apps (world s)). \<exists>t t' ans r.
    run_state (resolveValues E app) t = (r, t') \<and> log t' = log t @ [EvGetSecret obj ans]}"
proof -
  have reqs: "reqs = map app_key items"
    using assms(2,3) by (auto simp: applicationsForSecret_def client_defs)
  have reads: "(\<exists>t t' ans r. run_state (resolveValues E app) t = (r, t') \<and> log t' = log t @ [EvGetSecret obj ans]) \<longleftrightarrow>
      metaNamespace (Meta app) = nnNamespace obj \<and>
      (\<exists>ref. ValuesSecretRef (Spec app) = Some ref \<and> refName ref = nnName obj)" for app
    by (cases "ValuesSecretRef (Spec app)") (auto simp: resolveValues_run Let_def split: prod.splits)
  show ?thesis
    unfolding reqs set_map list_law_set [OF assms(1,3)] matches_secret reads using assms(4) by simp
qed

text \<open>The Application of the demo uses the Secret; the request computed for it is its key.\<close>

definition demo_user :: Application where
  "demo_user = (let app = demo_app (demo_status PhaseDeployed 3 0)
     in app\<lparr>Spec := (Spec app)\<lparr>ValuesSecretRef := Some \<lparr>refName = ''conf'', refKey = ''''\<rparr>\<rparr>\<rparr>)"

theorem secret_change_reaches_users_witness:
  "\<exists>t t' ans r. run_state (resolveValues (demo_env (\<lambda>_ _. CurrentStatus)) demo_user) t = (r, t') \<and>
     log t' = log t @ [EvGetSecret \<lparr>nnNamespace = ''default'', nnName = ''conf''\<rparr> ans]"
proof -
  let ?E = "demo_env (\<lambda>_ _. CurrentStatus)" and ?s = "demo_state demo_user 3 10"
  let ?obj = "\<lparr>nnNamespace = ''default'', nnName = ''conf''\<rparr>"
  let ?run = "run_state (applicationsForSecret ?E ?obj) ?s"
  have run: "?run = (fst ?run, snd ?run)" by simp
  have "ListApplications ?E \<lparr>InNamespace = Some ''default'', MatchingFields = [(secretRefIndexKey, ''conf'')]\<rparr> (world ?s) =
      (Inr [demo_user], world ?s)"
    by code_simp
  then have list: "ListApplications ?E \<lparr>InNamespace = Some (nnNamespace ?obj),
      MatchingFields = [(secretRefIndexKey, nnName ?obj)]\<rparr> (world ?s) = (Inr [demo_user], world ?s)"
    by simp
  have "nnName ?obj \<noteq> ''''" by simp
  note users = secret_change_reaches_users [OF demo_list_law run list this]
  have "app_key demo_user \<in> set (fst ?run)" by code_simp
  then show ?thesis
    unfolding users by (auto simp: demo_apps_def demo_state_def demo_world_def)
qed

section \<open>The gauge\<close>

lemma bump_keys: "distinct (map fst m) \<Longrightarrow> distinct (map fst (bump k m)) \<and> fst ` set (bump k m) = insert k (fst ` set m)"
  by (induction k m rule: bump.induct) auto

lemma bump_lookup:
  "distinct (map fst m) \<Longrightarrow> map_of (bump k m) j =
     (if j = k then Some (case map_of m k of None \<Rightarrow> 1 | Some n \<Rightarrow> n + 1) else map_of m j)"
  by (induction k m rule: bump.induct) (auto split: option.splits)

definition live_in :: "string \<Rightarrow> Application list \<Rightarrow> int" where
  "live_in ns items = int (length (filter (\<lambda>a. live_app a \<and> Namespace (Spec a) = ns) items))"

lemma count_namespaces_spec:
  "distinct (map fst m) \<Longrightarrow> distinct (map fst (count_namespaces items m)) \<and>
   (\<forall>ns. map_of (count_namespaces items m) ns =
     (if live_in ns items = 0 then map_of m ns
      else Some ((case map_of m ns of None \<Rightarrow> 0 | Some n \<Rightarrow> n) + live_in ns items)))"
proof (induction items m rule: count_namespaces.induct)
  case (2 app rest counts)
  show ?case
  proof (cases "live_app app")
    case True
    note IH = 2(2) [OF _ conjunct1 [OF bump_keys [OF 2(3)]]]
    have nonneg: "1 + live_in ns rest \<noteq> 0" "live_in ns rest \<ge> 0" for ns by (simp_all add: live_in_def)
    have step: "live_in ns (app # rest) = (if Namespace (Spec app) = ns then 1 + live_in ns rest else live_in ns rest)" for ns
      using True by (simp add: live_in_def)
    show ?thesis
      using IH True nonneg by (simp add: step bump_lookup [OF 2(3)] split: option.split)
  qed (use 2 in \<open>simp add: live_in_def\<close>)
qed (simp add: live_in_def)

lemma counts_set: "set (count_namespaces items []) = {(ns, n). n = live_in ns items \<and> n > 0}"
proof -
  have spec: "distinct (map fst (count_namespaces items []))"
    "map_of (count_namespaces items []) ns = (if live_in ns items = 0 then None else Some (live_in ns items))" for ns
    using count_namespaces_spec [of "[]" items] by simp_all
  have "(ns, n) \<in> set (count_namespaces items []) \<longleftrightarrow> n = live_in ns items \<and> n > 0" for ns n
    unfolding map_of_eq_Some_iff [OF spec(1), symmetric] spec(2) by (auto simp: live_in_def)
  then show ?thesis by auto
qed

lemma run_gauge_loop:
  "run_state (for_each xs (\<lambda>(ns, n). signal (EvGaugeSet ns n))) t =
     ((), t\<lparr>log := log t @ map (\<lambda>(ns, n). EvGaugeSet ns n) xs\<rparr>)"
  by (induction xs arbitrary: t) (auto split: prod.split)

text \<open>
  The gauge is exact: a refresh that gets the list resets the gauge and then sets, once
  for each target namespace with a live Application in the cache and for no other, the
  number of live Applications targeting it; a refresh that does not get the list leaves the
  gauge alone.
\<close>

theorem gauge_is_exact:
  assumes "list_law E apps" "range_law E" "run_state (refreshActiveGauge E) s = (u, s')"
    "ListApplications E \<lparr>InNamespace = None, MatchingFields = []\<rparr> (world s) = (ans, w)"
  shows "case ans of
     Inl err \<Rightarrow> log s' = log s @ [EvListApplications \<lparr>InNamespace = None, MatchingFields = []\<rparr> (Inl err)]
   | Inr items \<Rightarrow> \<exists>sets. log s' = log s @ [EvListApplications \<lparr>InNamespace = None, MatchingFields = []\<rparr> (Inr items),
         EvGaugeReset] @ map (\<lambda>(ns, n). EvGaugeSet ns n) sets \<and> distinct (map fst sets) \<and>
       set sets = {(ns, n). n = live_in ns (apps (world s)) \<and> n > 0}"
proof (cases ans)
  case (Inl err)
  have "s' = snd (run_state (refreshActiveGauge E) s)" using assms(3) by simp
  then show ?thesis by (simp add: refreshActiveGauge_def client_defs assms(4) Inl)
next
  case (Inr items)
  let ?sets = "RangeOrder E (count_namespaces items [])"
  have "mset items = mset (apps (world s))"
    using list_lawD [OF assms(1) assms(4) [unfolded Inr]] by (simp add: list_matches_def)
  then have live: "live_in ns items = live_in ns (apps (world s))" for ns
    using mset_filter [of _ items] mset_filter [of _ "apps (world s)"]
    by (simp add: live_in_def flip: size_mset)
  have "distinct (map fst ?sets) \<and> set ?sets = set (count_namespaces items [])"
    using count_namespaces_spec [of "[]" items] assms(2) by (simp add: range_law_def)
  then have sets: "distinct (map fst ?sets)" "set ?sets = {(ns, n). n = live_in ns (apps (world s)) \<and> n > 0}"
    unfolding counts_set live by simp_all
  have "s' = snd (run_state (refreshActiveGauge E) s)" using assms(3) by simp
  then have "log s' = log s @ [EvListApplications \<lparr>InNamespace = None, MatchingFields = []\<rparr> (Inr items), EvGaugeReset] @
      map (\<lambda>(ns, n). EvGaugeSet ns n) ?sets"
    by (simp add: refreshActiveGauge_def client_defs Let_def run_gauge_loop assms(4) Inr)
  with sets show ?thesis unfolding Inr sum.case by blast
qed

text \<open>One Application in the cache: one namespace, set to one.\<close>

theorem gauge_is_exact_witness:
  "\<exists>sets. log (snd (run_state (refreshActiveGauge (demo_env (\<lambda>_ _. CurrentStatus)))
       (demo_state (demo_app (demo_status PhaseDeployed 3 0)) 3 10))) =
     [EvListApplications \<lparr>InNamespace = None, MatchingFields = []\<rparr> (Inr [demo_app (demo_status PhaseDeployed 3 0)]),
      EvGaugeReset] @ map (\<lambda>(ns, n). EvGaugeSet ns n) sets \<and> set sets = {(''demo'', 1)}"
proof -
  let ?E = "demo_env (\<lambda>_ _. CurrentStatus)" and ?app = "demo_app (demo_status PhaseDeployed 3 0)"
  let ?s = "demo_state ?app 3 10"
  have run: "run_state (refreshActiveGauge ?E) ?s = ((), snd (run_state (refreshActiveGauge ?E) ?s))"
    by (simp add: prod_eq_iff)
  have list: "ListApplications ?E \<lparr>InNamespace = None, MatchingFields = []\<rparr> (world ?s) = (Inr [?app], world ?s)"
    by (simp add: demo_env_def demo_list_def demo_apps_def demo_state_def demo_world_def list_matches_def)
  have live: "live_in ns (demo_apps (world ?s)) = (if ns = ''demo'' then 1 else 0)" for ns
    by (simp add: live_in_def demo_apps_def demo_state_def demo_world_def live_app_def demo_app_def)
  have "{(ns, n). n = live_in ns (demo_apps (world ?s)) \<and> n > 0} = {(''demo'', 1)}"
    unfolding live by (auto split: if_splits)
  with gauge_is_exact [OF demo_list_law demo_range_law run list, unfolded sum.case] show ?thesis
    by (simp add: demo_state_def) blast
qed

end
