(* ===== verification/AdmissionFacts.thy ===== *)
theory AdmissionFacts
  imports Webhook IndexFacts
begin

text \<open>
  What the admission webhook decides, and what its decisions mean for the reconciler behind
  it: which Applications the Secret watch finds, and which ones can be finalized.
\<close>

section \<open>The decision\<close>

text \<open>
  C24. Every problem of a spec is reported at once: creation is refused exactly when
  something is wrong, with an error for this Application listing first an unparsable version,
  then one entry for each violation of the label rule by the target namespace, then a values
  reference without a name; none of them hides another. An update is judged by the new object
  alone, as its creation would be, and a deletion is always allowed.
\<close>

theorem admission_reports_every_problem:
  "map_option (\<lambda>e. (e, map errPath (causes e))) (snd (ValidateCreate V app)) =
     (let paths = (if NewVersion V (Version (Spec app)) = None then [] else [[''spec'', ''version'']]) @
          replicate (length (IsDNS1123Label V (Namespace (Spec app)))) [''spec'', ''namespace''] @
          (if \<exists>k. ValuesSecretRef (Spec app) = Some \<lparr>refName = '''', refKey = k\<rparr>
           then [[''spec'', ''valuesSecretRef'', ''name'']] else [])
      in if paths = [] then None
         else Some (NewInvalid \<lparr>gkGroup = ''apps.helmwarden.dev'', gkKind = ''Application''\<rparr>
                (metaName (Meta app)) (spec_errors V app), paths)) \<and>
   snd (ValidateUpdate V old app) = snd (ValidateCreate V app) \<and> snd (ValidateDelete V app) = None"
proof -
  have ref: "(\<exists>k. ValuesSecretRef (Spec app) = Some \<lparr>refName = '''', refKey = k\<rparr>) \<longleftrightarrow> nameless_ref app"
    unfolding nameless_ref_def by (metis (full_types) ValuesSecretRef.select_convs(1) ValuesSecretRef.surjective old.unit.exhaust)
  have paths: "map errPath (spec_errors V app) =
      (if NewVersion V (Version (Spec app)) = None then [] else [[''spec'', ''version'']]) @
      replicate (length (IsDNS1123Label V (Namespace (Spec app)))) [''spec'', ''namespace''] @
      (if nameless_ref app then [[''spec'', ''valuesSecretRef'', ''name'']] else [])"
    by (simp add: spec_errors_def version_errors_def namespace_errors_def ref_errors_def o_def
        map_replicate_const split: option.split)
  show ?thesis
    unfolding ref Let_def paths [symmetric]
    by (simp add: ValidateCreate_def ValidateUpdate_def ValidateDelete_def validateApplication_spec)
qed

section \<open>Admitted Applications are watched\<close>

text \<open>
  C22. Admission and the Secret watch fit together. Of the Applications that refer to a values
  Secret, the index of the watch drops exactly those that the webhook refuses with an error at
  \<open>spec.valuesSecretRef.name\<close>. An admitted Application in the cache that refers to a Secret is
  therefore among the requests that a change of that Secret makes, whenever the cache answers the
  list; when the list fails, no request is made for the change.
\<close>

theorem admitted_reference_is_watched:
  assumes "list_law E apps" "app \<in> set (apps (world s))" "ValuesSecretRef (Spec app) = Some ref"
    "run_state (applicationsForSecret E \<lparr>nnNamespace = metaNamespace (Meta app), nnName = refName ref\<rparr>) s = (reqs, s')"
  shows "(secretRefIndex app = [] \<longleftrightarrow> (\<exists>e. snd (ValidateCreate V app) = Some e \<and>
      [''spec'', ''valuesSecretRef'', ''name''] \<in> errPath ` set (causes e))) \<and>
    (\<exists>ans. log s' = log s @ [EvListApplications \<lparr>InNamespace = Some (metaNamespace (Meta app)),
        MatchingFields = [(''spec.valuesSecretRef.name'', refName ref)]\<rparr> ans] \<and>
      (case ans of Inl err \<Rightarrow> reqs = []
       | Inr items \<Rightarrow> snd (ValidateCreate V app) = None \<longrightarrow> app_key app \<in> set reqs))"
proof
  have "secretRefIndex app = [] \<longleftrightarrow> nameless_ref app"
    by (simp add: secretRefIndex_def nameless_ref_def assms(3))
  moreover have "(\<exists>e. snd (ValidateCreate V app) = Some e \<and>
      [''spec'', ''valuesSecretRef'', ''name''] \<in> errPath ` set (causes e)) \<longleftrightarrow> nameless_ref app"
    by (auto simp: ValidateCreate_def validateApplication_spec spec_errors_def version_errors_def
        namespace_errors_def ref_errors_def split: option.split)
  ultimately show "secretRefIndex app = [] \<longleftrightarrow> (\<exists>e. snd (ValidateCreate V app) = Some e \<and>
      [''spec'', ''valuesSecretRef'', ''name''] \<in> errPath ` set (causes e))" by simp
next
  let ?opts = "\<lparr>InNamespace = Some (metaNamespace (Meta app)), MatchingFields = [(secretRefIndexKey, refName ref)]\<rparr>"
  obtain ans w where l: "ListApplications E ?opts (world s) = (ans, w)" by fastforce
  have log: "log s' = log s @ [EvListApplications ?opts ans]"
    and reqs: "reqs = (case ans of Inl err \<Rightarrow> [] | Inr items \<Rightarrow> map app_key items)"
    using assms(4) l by (auto simp: applicationsForSecret_def client_defs split: sum.splits)
  have "app \<in> set items" if "ans = Inr items" "snd (ValidateCreate V app) = None" for items
  proof -
    have "refName ref \<noteq> ''''" using that(2) assms(3) by (simp add: ValidateCreate_def admitted_iff nameless_ref_def)
    then show ?thesis
      unfolding list_law_set [OF assms(1) l [unfolded that(1)]] using assms(2,3) by (simp add: matches_secret)
  qed
  with log reqs show "\<exists>ans. log s' = log s @ [EvListApplications \<lparr>InNamespace = Some (metaNamespace (Meta app)),
        MatchingFields = [(''spec.valuesSecretRef.name'', refName ref)]\<rparr> ans] \<and>
      (case ans of Inl err \<Rightarrow> reqs = []
       | Inr items \<Rightarrow> snd (ValidateCreate V app) = None \<longrightarrow> app_key app \<in> set reqs)"
    unfolding secretRefIndexKey_def by (intro exI [of _ ans]) (auto split: sum.split)
qed

definition lenient :: validation_rules where
  "lenient = \<lparr>NewVersion = (\<lambda>v. if v = '''' then Some (ExtErr OtherErr ''invalid'') else None),
     IsDNS1123Label = (\<lambda>n. if n = '''' then [''empty''] else [])\<rparr>"

theorem admitted_reference_is_watched_witness:
  "secretRefIndex demo_user \<noteq> [] \<and> app_key demo_user \<in> set (fst (run_state
     (applicationsForSecret (demo_env (\<lambda>_ _. CurrentStatus)) \<lparr>nnNamespace = ''default'', nnName = ''conf''\<rparr>)
     (demo_state demo_user 3 10)))"
proof -
  let ?E = "demo_env (\<lambda>_ _. CurrentStatus)" and ?s = "demo_state demo_user 3 10"
  let ?ref = "\<lparr>refName = ''conf'', refKey = ''''\<rparr>"
  let ?run = "run_state (applicationsForSecret ?E \<lparr>nnNamespace = ''default'', nnName = ''conf''\<rparr>) ?s"
  have ns: "metaNamespace (Meta demo_user) = ''default''" and ref: "ValuesSecretRef (Spec demo_user) = Some ?ref"
    by (simp_all add: demo_user_def demo_app_def Let_def)
  have admitted: "snd (ValidateCreate lenient demo_user) = None" by code_simp
  have cached: "demo_user \<in> set (demo_apps (world ?s))"
    by (simp add: demo_apps_def demo_state_def demo_world_def)
  have run: "run_state (applicationsForSecret ?E \<lparr>nnNamespace = metaNamespace (Meta demo_user), nnName = refName ?ref\<rparr>) ?s =
      (fst ?run, snd ?run)"
    by (simp add: ns)
  have listed: "log (snd ?run) \<noteq> log ?s @ [EvListApplications \<lparr>InNamespace = Some (metaNamespace (Meta demo_user)),
      MatchingFields = [(''spec.valuesSecretRef.name'', refName ?ref)]\<rparr> (Inl err)]" for err
    by (simp add: applicationsForSecret_def client_defs demo_env_def demo_list_def demo_state_def)
  note watched = admitted_reference_is_watched [OF demo_list_law cached ref run, of lenient]
  from conjunct2 [OF watched] obtain ans where ans: "log (snd ?run) = log ?s @ [EvListApplications
      \<lparr>InNamespace = Some (metaNamespace (Meta demo_user)),
       MatchingFields = [(''spec.valuesSecretRef.name'', refName ?ref)]\<rparr> ans]"
    "case ans of Inl err \<Rightarrow> fst ?run = []
     | Inr items \<Rightarrow> snd (ValidateCreate lenient demo_user) = None \<longrightarrow> app_key demo_user \<in> set (fst ?run)" by blast
  with listed admitted have "app_key demo_user \<in> set (fst ?run)" by (cases ans) auto
  moreover have "secretRefIndex demo_user \<noteq> []" using conjunct1 [OF watched] admitted by simp
  ultimately show ?thesis by blast
qed

section \<open>Rejected Applications cannot be finalized\<close>

text \<open>
  The API server calls the webhook on every update of an Application (\<open>verbs=create;update\<close>)
  and refuses the update when the webhook does (\<open>failurePolicy=fail\<close>).
\<close>

definition admission_law :: "'w env \<Rightarrow> validation_rules \<Rightarrow> bool" where
  "admission_law E V \<longleftrightarrow> (\<forall>app w stored w'. UpdateApplication E app w = (Inr stored, w') \<longrightarrow>
     (\<exists>old. snd (ValidateUpdate V old app) = None))"

text \<open>
  C23. Removing the finalizer is an update, so it is validated too: while the webhook is on, an
  Application whose spec the webhook refuses (created before it was installed, or while
  \<open>ENABLE_WEBHOOKS\<close> was false) is never finalized. Every deletion pass over it returns an
  error and the finalizer stays.
\<close>

theorem rejected_application_is_not_finalized:
  assumes "finalizer_laws E" "admission_law E V" "snd (ValidateCreate V app) \<noteq> None"
    "finalizerName \<in> set (Finalizers (Meta app))" "run_state (reconcileDelete E app) s = (r, s')"
  shows "r \<noteq> None"
proof -
  obtain fs where "RemoveFinalizer E app finalizerName = app\<lparr>Meta := (Meta app)\<lparr>Finalizers := fs\<rparr>\<rparr>"
    using remove_finalizer [OF assms(1)] by blast
  then have "Spec (RemoveFinalizer E app finalizerName) = Spec app" by simp
  from admission_by_spec [OF this, of V]
  have rejected: "validateApplication V (RemoveFinalizer E app finalizerName) \<noteq> None"
    using assms(3) by (simp add: ValidateCreate_def)
  have refused: "\<exists>err w'. UpdateApplication E (RemoveFinalizer E app finalizerName) w = (Inl err, w')" for w
  proof -
    obtain ans w' where "UpdateApplication E (RemoveFinalizer E app finalizerName) w = (ans, w')" by fastforce
    with assms(2) rejected show ?thesis
      unfolding admission_law_def ValidateUpdate_def by (cases ans) fastforce+
  qed
  have fin: "ContainsFinalizer E app finalizerName"
    using contains_finalizer_iff [OF assms(1)] assms(4) by blast
  obtain u s1 where u: "run_state (Uninstall E (metaName (Meta app)) (Namespace (Spec app))) s = (u, s1)" by fastforce
  obtain d s2 where d: "run_state (maybeDeleteNamespace E app) s1 = (d, s2)" by fastforce
  obtain err w' where e: "UpdateApplication E (RemoveFinalizer E app finalizerName) (world s2) = (Inl err, w')"
    using refused by blast
  have "r = fst (run_state (reconcileDelete E app) s)" using assms(5) by simp
  then show ?thesis
    by (simp add: reconcileDelete_def fin u d e c_Update_def split: option.split)
qed

text \<open>The demo with an API server that enforces admission, and a dying Application without a version.\<close>

definition guarded_env :: "demo env" where
  "guarded_env = (let E = demo_env (\<lambda>_ _. CurrentStatus) in
     E\<lparr>UpdateApplication := (\<lambda>app w. case validateApplication lenient app of
        None \<Rightarrow> UpdateApplication E app w
      | Some _ \<Rightarrow> (Inl (ExtErr OtherErr ''admission webhook denied the request''), w))\<rparr>)"

definition demo_unversioned :: Application where
  "demo_unversioned = demo_dying\<lparr>Spec := (Spec demo_dying)\<lparr>Version := ''''\<rparr>\<rparr>"

lemma guarded_finalizer_laws: "finalizer_laws guarded_env"
  using demo_finalizer_laws [of "\<lambda>_ _. CurrentStatus"]
  by (simp add: finalizer_laws_def guarded_env_def Let_def)

lemma guarded_admission: "admission_law guarded_env lenient"
  by (auto simp: admission_law_def guarded_env_def Let_def ValidateUpdate_def split: option.splits)

theorem rejected_application_is_not_finalized_witness:
  "fst (run_state (reconcileDelete guarded_env demo_unversioned) (demo_state demo_unversioned 3 10)) \<noteq> None"
proof -
  let ?run = "run_state (reconcileDelete guarded_env demo_unversioned) (demo_state demo_unversioned 3 10)"
  have run: "?run = (fst ?run, snd ?run)" by simp
  have refused: "snd (ValidateCreate lenient demo_unversioned) \<noteq> None"
    and fin: "finalizerName \<in> set (Finalizers (Meta demo_unversioned))" by code_simp+
  from rejected_application_is_not_finalized [OF guarded_finalizer_laws guarded_admission refused fin run]
  show ?thesis .
qed

end
