(* ===== verification/Observations.thy ===== *)
theory Observations
  imports RolloutFacts AdmissionFacts
begin

text \<open>
  Runs of the model on which the code does not do what its comments or its documentation say.
  Each is one concrete pass, or two, in the demo environment.
\<close>

definition run_live :: "demo env \<Rightarrow> Application \<Rightarrow> time \<Rightarrow> (Result \<times> go_error option) \<times> (demo, event) st" where
  "run_live E app now = run_state (reconcile_live E app) (demo_state app 3 now)"

definition sent_statuses :: "demo env \<Rightarrow> Application \<Rightarrow> time \<Rightarrow> ApplicationStatus list" where
  "sent_statuses E app now = map (Status \<circ> fst) (status_writes (log (snd (run_live E app now))))"

section \<open>The deadline after the rollout\<close>

text \<open>
  An Application that reached Deployed long ago: one reading of a workload in progress (a pod
  being rescheduled, say) is past the deadline that was counted from the last deploy, and the
  release is rolled back, although the deadline is said to bound only a rollout in progress.
\<close>

lemma deployed_application_is_rolled_back_on_a_blip:
  "map Phase (sent_statuses (demo_env (\<lambda>_ _. InProgressStatus)) (demo_app (demo_status PhaseDeployed 3 0)) 900000000000) =
     [PhaseRollingBack, PhaseDegraded]"
  by code_simp

section \<open>A rollback that failed\<close>

text \<open>
  The failed revision is recorded before the rollback runs. When the rollback then fails, the next
  pass finds the record, says that it already rolled back, and does not try again.
\<close>

definition no_rollback_env :: "demo env" where
  "no_rollback_env = (demo_env (\<lambda>_ _. FailedStatus))
     \<lparr>RunRollback := (\<lambda>_ _ w. (Some (ExtErr OtherErr ''etcd unavailable''), w))\<rparr>"

lemma failed_rollback_is_recorded_as_done:
  "map (\<lambda>s. (Phase s, LastFailedRevision s))
     (sent_statuses no_rollback_env (demo_app (demo_status PhaseDeployed 3 0)) 10) =
   [(PhaseRollingBack, 3), (PhaseDegraded, 3)]"
  by code_simp

definition degraded_message :: "ApplicationStatus \<Rightarrow> string option" where
  "degraded_message s = map_option condMessage (find_condition ConditionHealthy (Conditions s))"

lemma failed_rollback_is_not_retried:
  "filter sdk_mutation (log (snd (run_live (demo_env (\<lambda>_ _. FailedStatus)) (demo_app (demo_status PhaseDegraded 3 3)) 10))) = []"
  "map degraded_message (sent_statuses (demo_env (\<lambda>_ _. FailedStatus)) (demo_app (demo_status PhaseDegraded 3 3)) 10) =
     [Some ''Deployment/web: Failed (already rolled back; awaiting a spec fix)'']"
proof -
  have "filter sdk_mutation (log (snd (run_live (demo_env (\<lambda>_ _. FailedStatus)) (demo_app (demo_status PhaseDegraded 3 3)) 10))) = [] \<and>
      map degraded_message (sent_statuses (demo_env (\<lambda>_ _. FailedStatus)) (demo_app (demo_status PhaseDegraded 3 3)) 10) =
     [Some ''Deployment/web: Failed (already rolled back; awaiting a spec fix)'']"
    by code_simp
  then show "filter sdk_mutation (log (snd (run_live (demo_env (\<lambda>_ _. FailedStatus)) (demo_app (demo_status PhaseDegraded 3 3)) 10))) = []"
    "map degraded_message (sent_statuses (demo_env (\<lambda>_ _. FailedStatus)) (demo_app (demo_status PhaseDegraded 3 3)) 10) =
     [Some ''Deployment/web: Failed (already rolled back; awaiting a spec fix)'']"
    by blast+
qed

section \<open>After a rollback\<close>

text \<open>
  After a rollback the Application is to stay Degraded until its spec changes. A reading in
  progress before the deadline sets phase Deploying all the same, and the reading of a healthy
  release that follows leaves that untouched.
\<close>

lemma rolled_back_application_shows_deploying:
  "map Phase (sent_statuses (demo_env (\<lambda>_ _. InProgressStatus)) (demo_app (demo_status PhaseDegraded 4 3)) 10) = [PhaseDeploying]"
  "sent_statuses (demo_env (\<lambda>_ _. CurrentStatus)) (demo_app (demo_status PhaseDeploying 4 3)) 10 = []"
proof -
  have "map Phase (sent_statuses (demo_env (\<lambda>_ _. InProgressStatus)) (demo_app (demo_status PhaseDegraded 4 3)) 10) = [PhaseDeploying] \<and>
      sent_statuses (demo_env (\<lambda>_ _. CurrentStatus)) (demo_app (demo_status PhaseDeploying 4 3)) 10 = []"
    by code_simp
  then show "map Phase (sent_statuses (demo_env (\<lambda>_ _. InProgressStatus)) (demo_app (demo_status PhaseDegraded 4 3)) 10) = [PhaseDeploying]"
    "sent_statuses (demo_env (\<lambda>_ _. CurrentStatus)) (demo_app (demo_status PhaseDeploying 4 3)) 10 = []"
    by blast+
qed

section \<open>The Released condition\<close>

text \<open>
  A values Secret that could not be read for one pass sets Released to False. Once it can be read
  again nothing is applied, since generation and hash did not change, and the health check
  restores phase Deployed and Ready but leaves Released as it was.
\<close>

definition released_status :: "ApplicationStatus \<Rightarrow> ConditionStatus option" where
  "released_status s = map_option condStatus (find_condition ConditionReleased (Conditions s))"

definition failed_once :: ApplicationStatus where
  "failed_once = (demo_status PhaseFailed 3 0)\<lparr>Conditions :=
     [\<lparr>condType = ConditionReleased, condStatus = ConditionFalse, condObservedGeneration = 3,
       condLastTransitionTime = Some 5, condReason = ''ValuesError'', condMessage = ''timeout''\<rparr>]\<rparr>"

lemma released_stays_false:
  "map (\<lambda>s. (Phase s, released_status s)) (sent_statuses (demo_env (\<lambda>_ _. CurrentStatus)) (demo_app failed_once) 10) =
     [(PhaseDeployed, Some ConditionFalse)]"
  by code_simp

section \<open>The success counter\<close>

text \<open>
  The counter is incremented before the status is written, so a refused write is counted, and
  the next pass counts the same transition again.
\<close>

definition conflict_env :: "demo env" where
  "conflict_env = (demo_env (\<lambda>_ _. CurrentStatus))\<lparr>UpdateStatus := (\<lambda>_ w. (Inl demo_conflict, w))\<rparr>"

lemma refused_transition_is_counted:
  "filter is_EvDeploymentSuccess (log (snd (run_live conflict_env (demo_app (demo_status PhaseDeploying 3 0)) 10))) =
     [EvDeploymentSuccess ''web'' ''default'']"
  "snd (fst (run_live conflict_env (demo_app (demo_status PhaseDeploying 3 0)) 10)) = Some demo_conflict"
proof -
  have "filter is_EvDeploymentSuccess (log (snd (run_live conflict_env (demo_app (demo_status PhaseDeploying 3 0)) 10))) =
     [EvDeploymentSuccess ''web'' ''default''] \<and>
      snd (fst (run_live conflict_env (demo_app (demo_status PhaseDeploying 3 0)) 10)) = Some demo_conflict"
    by code_simp
  then show "filter is_EvDeploymentSuccess (log (snd (run_live conflict_env (demo_app (demo_status PhaseDeploying 3 0)) 10))) =
     [EvDeploymentSuccess ''web'' ''default'']"
    "snd (fst (run_live conflict_env (demo_app (demo_status PhaseDeploying 3 0)) 10)) = Some demo_conflict"
    by blast+
qed

end
