(* ===== verification/Metrics.thy ===== *)
theory Metrics
  imports IndexFacts
begin

text \<open>
  \<open>internal/controller/metrics.go\<close>: the three collectors, their registration when the package
  is initialised, and the Prometheus call behind each metric event of a pass, with the label
  values the code passes. The client library of Prometheus is a parameter: a registry with its
  samples, and calls that panic (None) when they are given a wrong number of label values.
\<close>

section \<open>The collectors\<close>

definition labelAppName :: string where
  "labelAppName = ''application_name''"

definition labelNamespace :: string where
  "labelNamespace = ''namespace''"

datatype collector_kind = HistogramVec | CounterVec | GaugeVec

record collector =
  colKind :: collector_kind
  colName :: string
  colLabels :: "string list"

definition reconciliationLatency :: collector where
  "reconciliationLatency =
     \<lparr>colKind = HistogramVec, colName = ''helmwarden_reconciliation_latency_seconds'',
      colLabels = [labelAppName, labelNamespace]\<rparr>"

definition deploymentSuccessTotal :: collector where
  "deploymentSuccessTotal =
     \<lparr>colKind = CounterVec, colName = ''helmwarden_deployment_success_total'',
      colLabels = [labelAppName, labelNamespace]\<rparr>"

definition activeManagedApps :: collector where
  "activeManagedApps =
     \<lparr>colKind = GaugeVec, colName = ''helmwarden_active_managed_apps'', colLabels = [labelNamespace]\<rparr>"

lemmas collector_defs = reconciliationLatency_def deploymentSuccessTotal_def activeManagedApps_def

section \<open>The registry\<close>

record 'r prometheus =
  MustRegister :: "collector list \<Rightarrow> 'r \<Rightarrow> 'r option"
  ObserveOne :: "collector \<Rightarrow> string list \<Rightarrow> 'r \<Rightarrow> 'r option"
  IncOne :: "collector \<Rightarrow> string list \<Rightarrow> 'r \<Rightarrow> 'r option"
  SetOne :: "collector \<Rightarrow> string list \<Rightarrow> int \<Rightarrow> 'r \<Rightarrow> 'r option"
  ResetAll :: "collector \<Rightarrow> 'r \<Rightarrow> 'r"
  registered :: "'r \<Rightarrow> string set"
  sample :: "'r \<Rightarrow> collector \<Rightarrow> string list \<Rightarrow> int option"

text \<open>
  \<open>ObserveOne c vs\<close> is \<open>c.WithLabelValues(vs).Observe\<close>, and so on. \<open>sample\<close> is what a scrape
  shows for a series: the value of a counter or gauge, the number of observations of a
  histogram, nothing for a series that does not exist.
\<close>

definition init_metrics :: "'r prometheus \<Rightarrow> 'r \<Rightarrow> 'r option" where
  "init_metrics P reg = MustRegister P [reconciliationLatency, deploymentSuccessTotal, activeManagedApps] reg"

text \<open>The calls of the program, with the labels it passes.\<close>

definition observe_latency :: "'r prometheus \<Rightarrow> string \<Rightarrow> string \<Rightarrow> 'r \<Rightarrow> 'r option" where
  "observe_latency P name namespace = ObserveOne P reconciliationLatency [name, namespace]"

definition count_success :: "'r prometheus \<Rightarrow> string \<Rightarrow> string \<Rightarrow> 'r \<Rightarrow> 'r option" where
  "count_success P name namespace = IncOne P deploymentSuccessTotal [name, namespace]"

definition reset_gauge :: "'r prometheus \<Rightarrow> 'r \<Rightarrow> 'r" where
  "reset_gauge P = ResetAll P activeManagedApps"

definition set_gauge :: "'r prometheus \<Rightarrow> string \<Rightarrow> int \<Rightarrow> 'r \<Rightarrow> 'r option" where
  "set_gauge P ns n = SetOne P activeManagedApps [ns] n"

lemmas metric_defs = observe_latency_def count_success_def reset_gauge_def set_gauge_def

fun metric_call :: "'r prometheus \<Rightarrow> event \<Rightarrow> 'r \<Rightarrow> 'r option" where
  "metric_call P (EvObserveLatency name namespace) reg = observe_latency P name namespace reg"
| "metric_call P (EvDeploymentSuccess name namespace) reg = count_success P name namespace reg"
| "metric_call P EvGaugeReset reg = Some (reset_gauge P reg)"
| "metric_call P (EvGaugeSet ns n) reg = set_gauge P ns n reg"
| "metric_call P _ reg = Some reg"

fun metric_calls :: "'r prometheus \<Rightarrow> event list \<Rightarrow> 'r \<Rightarrow> 'r option" where
  "metric_calls P [] reg = Some reg"
| "metric_calls P (e # es) reg = (case metric_call P e reg of None \<Rightarrow> None | Some reg' \<Rightarrow> metric_calls P es reg')"

section \<open>What the library promises\<close>

text \<open>A sample changed at one series.\<close>

definition changes ::
  "'r prometheus \<Rightarrow> collector \<Rightarrow> string list \<Rightarrow> (int option \<Rightarrow> int option) \<Rightarrow> 'r \<Rightarrow> 'r \<Rightarrow> bool" where
  "changes P c vs f reg reg' \<longleftrightarrow> (\<forall>c' vs'. sample P reg' c' vs' =
     (if c' = c \<and> vs' = vs then f (sample P reg c vs) else sample P reg c' vs'))"

definition one_more :: "int option \<Rightarrow> int option" where
  "one_more x = Some (case x of None \<Rightarrow> 1 | Some n \<Rightarrow> n + 1)"

definition prometheus_laws :: "'r prometheus \<Rightarrow> bool" where
  "prometheus_laws P \<longleftrightarrow>
     (\<forall>cs reg. distinct (map colName cs) \<longrightarrow> set (map colName cs) \<inter> registered P reg = {} \<longrightarrow>
        (\<exists>reg'. MustRegister P cs reg = Some reg' \<and> registered P reg' = set (map colName cs) \<union> registered P reg \<and>
           sample P reg' = sample P reg)) \<and>
     (\<forall>c vs reg. length vs = length (colLabels c) \<longrightarrow>
        (\<exists>reg'. ObserveOne P c vs reg = Some reg' \<and> changes P c vs one_more reg reg')) \<and>
     (\<forall>c vs reg. length vs = length (colLabels c) \<longrightarrow>
        (\<exists>reg'. IncOne P c vs reg = Some reg' \<and> changes P c vs one_more reg reg')) \<and>
     (\<forall>c vs n reg. length vs = length (colLabels c) \<longrightarrow>
        (\<exists>reg'. SetOne P c vs n reg = Some reg' \<and> changes P c vs (\<lambda>_. Some n) reg reg')) \<and>
     (\<forall>c reg c' vs. sample P (ResetAll P c reg) c' vs = (if c' = c then None else sample P reg c' vs))"

lemma prometheus_lawsD:
  assumes "prometheus_laws P"
  shows "distinct (map colName cs) \<Longrightarrow> set (map colName cs) \<inter> registered P reg = {} \<Longrightarrow>
      \<exists>reg'. MustRegister P cs reg = Some reg' \<and> registered P reg' = set (map colName cs) \<union> registered P reg \<and>
        sample P reg' = sample P reg"
    and "length vs = length (colLabels c) \<Longrightarrow> \<exists>reg'. ObserveOne P c vs reg = Some reg' \<and> changes P c vs one_more reg reg'"
    and "length vs = length (colLabels c) \<Longrightarrow> \<exists>reg'. IncOne P c vs reg = Some reg' \<and> changes P c vs one_more reg reg'"
    and "length vs = length (colLabels c) \<Longrightarrow>
      \<exists>reg'. SetOne P c vs n reg = Some reg' \<and> changes P c vs (\<lambda>_. Some n) reg reg'"
    and "sample P (ResetAll P c reg) c' vs = (if c' = c then None else sample P reg c' vs)"
  using assms unfolding prometheus_laws_def by blast+

section \<open>No panic\<close>

lemma collectors_differ [simp]:
  "reconciliationLatency \<noteq> deploymentSuccessTotal" "deploymentSuccessTotal \<noteq> reconciliationLatency"
  "reconciliationLatency \<noteq> activeManagedApps" "activeManagedApps \<noteq> reconciliationLatency"
  "deploymentSuccessTotal \<noteq> activeManagedApps" "activeManagedApps \<noteq> deploymentSuccessTotal"
  by (simp_all add: collector_defs)

lemma label_counts [simp]:
  "length (colLabels reconciliationLatency) = 2" "length (colLabels deploymentSuccessTotal) = 2"
  "length (colLabels activeManagedApps) = 1"
  by (simp_all add: collector_defs)

text \<open>What one event does to the samples, as a function on them.\<close>

fun moved :: "event \<Rightarrow> (collector \<Rightarrow> string list \<Rightarrow> int option) \<Rightarrow> collector \<Rightarrow> string list \<Rightarrow> int option" where
  "moved (EvObserveLatency name namespace) m c vs =
     (if c = reconciliationLatency \<and> vs = [name, namespace] then one_more (m c vs) else m c vs)"
| "moved (EvDeploymentSuccess name namespace) m c vs =
     (if c = deploymentSuccessTotal \<and> vs = [name, namespace] then one_more (m c vs) else m c vs)"
| "moved EvGaugeReset m c vs = (if c = activeManagedApps then None else m c vs)"
| "moved (EvGaugeSet ns n) m c vs = (if c = activeManagedApps \<and> vs = [ns] then Some n else m c vs)"
| "moved _ m c vs = m c vs"

lemma metric_call_moves:
  assumes "prometheus_laws P"
  shows "\<exists>reg'. metric_call P e reg = Some reg' \<and> sample P reg' = moved e (sample P reg)"
proof (cases e)
  case (EvObserveLatency name namespace)
  then show ?thesis
    using prometheus_lawsD(2) [OF assms, of "[name, namespace]" reconciliationLatency reg]
    by (auto simp: metric_defs changes_def fun_eq_iff)
next
  case (EvDeploymentSuccess name namespace)
  then show ?thesis
    using prometheus_lawsD(3) [OF assms, of "[name, namespace]" deploymentSuccessTotal reg]
    by (auto simp: metric_defs changes_def fun_eq_iff)
next
  case (EvGaugeSet ns n)
  then show ?thesis
    using prometheus_lawsD(4) [OF assms, of "[ns]" activeManagedApps n reg]
    by (auto simp: metric_defs changes_def fun_eq_iff)
next
  case EvGaugeReset
  then show ?thesis by (simp add: metric_defs fun_eq_iff prometheus_lawsD(5) [OF assms])
qed (simp_all add: fun_eq_iff)

lemma metric_calls_move:
  assumes "prometheus_laws P"
  shows "\<exists>reg'. metric_calls P es reg = Some reg' \<and> sample P reg' = fold moved es (sample P reg)"
proof (induction es arbitrary: reg)
  case (Cons e es)
  obtain reg1 where "metric_call P e reg = Some reg1" "sample P reg1 = moved e (sample P reg)"
    using metric_call_moves [OF assms] by blast
  with Cons.IH [of reg1] show ?case by auto
qed simp

section \<open>A registry that obeys the laws\<close>

text \<open>A registry that keeps its names and its samples.\<close>

type_synonym demo_registry = "string set \<times> (collector \<Rightarrow> string list \<Rightarrow> int option)"

definition demo_update :: "collector \<Rightarrow> string list \<Rightarrow> (int option \<Rightarrow> int option) \<Rightarrow> demo_registry \<Rightarrow> demo_registry option" where
  "demo_update c vs f reg =
     (if length vs \<noteq> length (colLabels c) then None
      else Some (fst reg, (snd reg)(c := (snd reg c)(vs := f (snd reg c vs)))))"

definition demo_prometheus :: "demo_registry prometheus" where
  "demo_prometheus =
     \<lparr>MustRegister = (\<lambda>cs reg. if distinct (map colName cs) \<and> set (map colName cs) \<inter> fst reg = {}
        then Some (set (map colName cs) \<union> fst reg, snd reg) else None),
      ObserveOne = (\<lambda>c vs. demo_update c vs one_more), IncOne = (\<lambda>c vs. demo_update c vs one_more),
      SetOne = (\<lambda>c vs n. demo_update c vs (\<lambda>_. Some n)),
      ResetAll = (\<lambda>c reg. (fst reg, (snd reg)(c := \<lambda>_. None))), registered = fst, sample = snd\<rparr>"

lemma demo_prometheus_laws: "prometheus_laws demo_prometheus"
  by (auto simp: prometheus_laws_def demo_prometheus_def demo_update_def changes_def)

end
