(* ===== verification/HealthFacts.thy ===== *)
theory HealthFacts
  imports ReconcileFacts Demo
begin

text \<open>
  Properties of the health half of the reconciler: the workloads of a manifest, the
  aggregate health, the progress deadline, and when an Application is called Deployed.
\<close>

section \<open>The workloads of a manifest\<close>

text \<open>
  C18. The workloads of a manifest are the documents decoded before the end of the text, in
  order, that are not empty and of one of the four kinds; a document that fails to decode
  before the end fails the whole manifest with the first such error.
\<close>

theorem workloads_are_filtered_documents:
  "workloadsFromManifest E m =
     (case filter isl (decoded_prefix (DecodeManifest E m)) of
        d # _ \<Rightarrow> Inl (projl d)
      | [] \<Rightarrow> Inr (filter (\<lambda>u. u \<noteq> [] \<and> GetKind E u \<in> {''Deployment'', ''StatefulSet'', ''DaemonSet'', ''Job''})
                (documents (decoded_prefix (DecodeManifest E m)))))"
  by (simp add: workloadsFromManifest_def decode_loop_spec is_workload_def [abs_def] workloadKinds_def
      cong: list.case_cong)

section \<open>The aggregate\<close>

text \<open>
  C17. The health of a release is the worst level among its workloads. Each workload's live
  object is read once, in manifest order; the answers decide the result, and only a failed
  workload ends the reading early.
\<close>

theorem releaseHealth_is_worst:
  assumes "workloadsFromManifest E m = Inr ws"
    "run_state (releaseHealth E m dns) s = (Inr (st, detail), s')"
  shows "\<exists>as. log s' = log s @ map2 (live_read E dns) (take (length as) ws) as \<and>
    (\<forall>a\<in>set as. \<not> answer_error E a) \<and>
    kstatus_level st = worst (map (answer_level E) as) \<and>
    (length as = length ws \<or> st = FailedStatus \<and> length as < length ws)"
proof -
  obtain es where es: "log s' = log s @ es" "release_health_trace E m dns (Inr (st, detail)) es"
    using emitsD [OF releaseHealth_trace assms(2)] .
  then have "health_trace E dns ws LevelCurrent (Inr (st, detail)) es"
    using assms(1) by (simp add: release_health_trace_def)
  with es(1) show ?thesis unfolding health_trace_def by force
qed

theorem releaseHealth_is_worst_witness:
  "\<exists>as. worst (map (answer_level (demo_env (\<lambda>_ _. FailedStatus))) as) = LevelFailed"
proof -
  let ?E = "demo_env (\<lambda>_ _. FailedStatus)" and ?s = "demo_state (demo_app (demo_status PhaseDeploying 3 0)) 3 10"
  have ws: "workloadsFromManifest ?E ''web'' = Inr [[(''kind'', YStr ''Deployment''), (''name'', YStr ''web'')]]"
    by code_simp
  have "fst (run_state (releaseHealth ?E ''web'' ''demo'') ?s) = Inr (FailedStatus, ''Deployment/web: Failed'')"
    by code_simp
  then have "run_state (releaseHealth ?E ''web'' ''demo'') ?s = (Inr (FailedStatus, ''Deployment/web: Failed''),
      snd (run_state (releaseHealth ?E ''web'' ''demo'') ?s))"
    by (metis prod.collapse)
  from releaseHealth_is_worst [OF ws this] show ?thesis by (metis kstatus_level.simps(1))
qed

section \<open>The progress deadline\<close>

lemma sint32_bounds: "- (2 ^ 31) \<le> sint (x :: 32 word)" "sint (x :: 32 word) < 2 ^ 31"
  using sint_ge [of x] sint_lt [of x] by simp_all

lemma deadline_no_overflow: "sint (deadline_of secs) = sint secs * 1000000000"
proof -
  have "deadline_of secs = word_of_int (sint secs) * word_of_int 1000000000"
    by (simp add: deadline_of_def second_def)
  then have "deadline_of secs = word_of_int (sint secs * 1000000000)"
    by (simp only: wi_hom_mult)
  moreover have "- (2 ^ 63) \<le> sint secs * 1000000000" "sint secs * 1000000000 < 2 ^ 63"
    using sint32_bounds [of secs] by simp_all
  ultimately show ?thesis by (simp only: sint_word64)
qed

text \<open>
  C34. The progress deadline is exact: for every 32-bit number of seconds the product with
  a second does not overflow the 64-bit duration, and the saturation of the elapsed time
  never changes the comparison. The deadline has passed exactly when a start time is set
  and more than that many seconds lie between it and now.
\<close>

theorem deadline_passed_iff:
  "deadline_passed app now \<longleftrightarrow>
     (\<exists>start. LastDeployStartTime (Status app) = Some start \<and>
        now - start > sint (ProgressDeadlineSeconds (Spec app)) * 1000000000)"
proof (cases "LastDeployStartTime (Status app)")
  case (Some start)
  let ?d = "sint (ProgressDeadlineSeconds (Spec app)) * 1000000000"
  have "min_duration \<le> ?d" "?d < max_duration"
    using sint32_bounds [of "ProgressDeadlineSeconds (Spec app)"] by (simp_all add: min_duration_def max_duration_def)
  then have "max min_duration (min max_duration (now - start)) > ?d \<longleftrightarrow> now - start > ?d"
    by (auto simp: max_def min_def)
  with Some show ?thesis by (simp add: deadline_passed_def sint_time_Sub deadline_no_overflow)
qed (simp add: deadline_passed_def)

section \<open>What Deployed means\<close>

lemma other_phases:
  "fail_trace app cause r es \<Longrightarrow> EvStatusUpdate sent upd \<in> set es \<Longrightarrow> Phase (Status sent) = PhaseFailed"
  "degraded_trace app d r' es \<Longrightarrow> EvStatusUpdate sent upd \<in> set es \<Longrightarrow> Phase (Status sent) = PhaseDegraded"
  unfolding fail_trace_def degraded_trace_def by (elim disjE exE conjE; simp)+

lemma scoped_no_status: "\<forall>e\<in>set es. in_scope ns e \<Longrightarrow> EvStatusUpdate sent upd \<notin> set es"
  by force

lemma ensure_no_status: "ensure_trace n x es \<Longrightarrow> EvStatusUpdate sent upd \<notin> set es"
  unfolding ensure_trace_def by (elim disjE exE conjE; simp)

lemma install_no_status: "install_contract spec x es \<Longrightarrow> EvStatusUpdate sent upd \<notin> set es"
  by (rule scoped_no_status [of _ "rsNamespace spec"]) (simp add: install_contract_def Let_def)

lemma apply_phases:
  assumes "apply_trace app vs h r es" "EvStatusUpdate sent upd \<in> set es"
  shows "Phase (Status sent) = PhaseFailed \<or>
    Phase (Status sent) = PhaseDeploying \<and> (\<exists>res. applied app res h sent \<and>
      r = write_answer \<lparr>RequeueAfter = healthPollInterval\<rparr> upd)"
  using assms(1) unfolding apply_trace_def Let_def
proof (elim disjE exE conjE)
  fix res sent' upd' es1 es2
  assume a: "ensure_trace (Namespace (Spec app)) None es1" "install_contract (release_spec app vs) (Inr res) es2"
    "applied app res h sent'" "es = es1 @ es2 @ [EvStatusUpdate sent' upd']"
    "r = write_answer \<lparr>RequeueAfter = healthPollInterval\<rparr> upd'"
  then have "sent = sent'" "upd = upd'"
    using assms(2) ensure_no_status [OF a(1)] install_no_status [OF a(2)] by simp_all
  with a(3,5) show ?thesis by (auto simp: applied_def applied_status_def)
qed (use assms(2) ensure_no_status install_no_status other_phases(1) in auto)

lemma unhealthy_phases:
  assumes "unhealthy_trace app es" "EvStatusUpdate sent upd \<in> set es"
  shows "Phase (Status sent) \<in> {PhaseDegraded, PhaseRollingBack}"
proof -
  have rb: "Phase (Status a) = PhaseRollingBack" if "lifecycle_step s LRollback (Status a)" for s a
    using that by (simp add: lifecycle_rollback_iff)
  from assms(1) show ?thesis
    unfolding unhealthy_trace_def
    by (elim disjE exE conjE) (use assms(2) rb scoped_no_status other_phases(2) in auto)
qed

text \<open>
  C15. An Application is called Deployed only on evidence: when a pass sends a status with
  phase Deployed it has just fetched the release, and read in that same pass every workload
  of that release's manifest, each one with status Current; and no rollback is on record.
\<close>

theorem deployed_only_when_all_current:
  assumes "EvStatusUpdate sent upd \<in> set (reconcile_events E req s)" "Phase (Status sent) = PhaseDeployed"
  shows "\<exists>app rel ws. LastFailedRevision (Status app) = 0 \<and> on_base app sent \<and>
    EvGetRelease (config_for (Namespace (Spec app))) (metaName (Meta app)) (Inr (V1Release rel))
      \<in> set (reconcile_events E req s) \<and>
    workloadsFromManifest E (relManifest rel) = Inr ws \<and>
    (\<forall>w\<in>set ws. \<exists>obj msg. ComputeStatus E obj = Inr (CurrentStatus, msg) \<and>
       EvGetLive (GVKOf E w) (workload_key E (Namespace (Spec app)) w) (Inr obj)
         \<in> set (reconcile_events E req s))"
  using reconcile_events_trace assms(1)
proof (cases rule: write_cases)
  case (bad_values app read err f es1 es2 tail)
  with assms(2) show ?thesis using other_phases(1) [OF bad_values(3,4)] by simp
next
  case (applied_now app read vs h es1 es2 tail)
  with assms(2) show ?thesis using apply_phases [OF applied_now(4,5)] by simp
next
  case (checked app read vs h es1 rel g health detail hs es2 tail)
  let ?ns = "Namespace (Spec app)" and ?n = "metaName (Meta app)"
  have "health = CurrentStatus \<and> LastFailedRevision (Status app) = 0 \<and> on_base app sent"
    using checked(6) unfolding drive_trace_def
  proof (elim disjE exE conjE)
    assume "unhealthy_trace app es2"
    with unhealthy_phases checked(7) assms(2) show ?thesis by fastforce
  next
    fix es' assume "health = CurrentStatus" "LastFailedRevision (Status app) = 0" "es2 = success_signal app @ es'"
      "settle_trace app PhaseDeployed steadyPollInterval (reconcile_result E req s) es'"
    with checked(7) show ?thesis by (auto simp: settle_trace_def success_signal_def split: if_splits)
  next
    assume "es2 = []"
    with checked(7) show ?thesis by simp
  next
    assume "settle_trace app PhaseDeploying healthPollInterval (reconcile_result E req s) es2"
    with checked(7) assms(2) show ?thesis by (auto simp: settle_trace_def)
  qed
  then have cur: "health = CurrentStatus" "LastFailedRevision (Status app) = 0" "on_base app sent" by simp_all
  from checked(5) obtain ws where ws: "workloadsFromManifest E (rrManifest rel) = Inr ws"
      and ht: "health_trace E ?ns ws LevelCurrent (Inr (CurrentStatus, detail)) hs"
    using cur(1) by (auto simp: release_health_trace_def split: sum.splits)
  have live: "\<exists>obj msg. ComputeStatus E obj = Inr (CurrentStatus, msg) \<and>
      EvGetLive (GVKOf E w) (workload_key E ?ns w) (Inr obj) \<in> set hs" if "w \<in> set ws" for w
    using health_current_reads [OF ht that] .
  from checked(4) obtain rr where rr: "EvGetRelease (config_for ?ns) ?n (Inr (V1Release rr)) \<in> set g"
      "rrManifest rel = relManifest rr"
    unfolding get_contract_def by blast
  have sub: "set g \<subseteq> set (reconcile_events E req s)" "set hs \<subseteq> set (reconcile_events E req s)"
    unfolding checked(8) by auto
  show ?thesis
    using cur(2,3) rr ws live sub by (intro exI [of _ app] exI [of _ rr] exI [of _ ws]) (auto, blast)
qed

theorem deployed_only_when_all_current_witness:
  "\<exists>rel. EvGetRelease (config_for ''demo'') ''web'' (Inr (V1Release rel)) \<in> set (reconcile_events
     (demo_env (\<lambda>_ _. CurrentStatus)) demo_req (demo_state (demo_app (demo_status PhaseDeploying 3 0)) 3 10))"
proof -
  let ?es = "reconcile_events (demo_env (\<lambda>_ _. CurrentStatus)) demo_req
    (demo_state (demo_app (demo_status PhaseDeploying 3 0)) 3 10)"
  let ?w = "hd (status_writes ?es)"
  have "EvStatusUpdate (fst ?w) (snd ?w) \<in> set ?es \<and> Phase (Status (fst ?w)) = PhaseDeployed \<and>
      Namespace (Spec (fst ?w)) = ''demo'' \<and> metaName (Meta (fst ?w)) = ''web''"
    by code_simp
  then show ?thesis
    using deployed_only_when_all_current [of "fst ?w" "snd ?w"] unfolding on_base_def by metis
qed

section \<open>Counting deployments\<close>

abbreviation successes :: "event list \<Rightarrow> event list" where
  "successes es \<equiv> filter is_EvDeploymentSuccess es"

lemma no_success_kinds:
  "in_scope ns e \<Longrightarrow> \<not> is_EvDeploymentSuccess e"
  "namespace_event e \<Longrightarrow> \<not> is_EvDeploymentSuccess e"
  "is_EvGetSecret e \<Longrightarrow> \<not> is_EvDeploymentSuccess e"
  "is_EvGetLive e \<Longrightarrow> \<not> is_EvDeploymentSuccess e"
  "gauge_event e \<Longrightarrow> \<not> is_EvDeploymentSuccess e"
  by (cases e; simp)+

lemma no_success_list: "\<forall>e\<in>set es. P e \<Longrightarrow> (\<And>e. P e \<Longrightarrow> \<not> is_EvDeploymentSuccess e) \<Longrightarrow> successes es = []"
  by (induction es) auto

lemma no_success_scope: "\<forall>e\<in>set es. in_scope ns e \<Longrightarrow> successes es = []"
  by (erule no_success_list) (rule no_success_kinds)

lemma no_success_gauge: "\<forall>e\<in>set es. gauge_event e \<Longrightarrow> successes es = []"
  by (erule no_success_list) (rule no_success_kinds)

lemma no_success_values: "values_trace E app v es \<Longrightarrow> successes es = []"
  using values_events no_success_list no_success_kinds(3) by metis

lemma no_success_health: "release_health_trace E m dns h es \<Longrightarrow> successes es = []"
  using release_health_reads no_success_list no_success_kinds(4) by metis

lemma no_success_get: "get_contract n ns x es \<Longrightarrow> successes es = []"
  by (rule no_success_scope [of _ ns]) (simp add: get_contract_def)

lemma no_success_install: "install_contract spec x es \<Longrightarrow> successes es = []"
  by (rule no_success_scope [of _ "rsNamespace spec"]) (simp add: install_contract_def Let_def)

lemma no_success_uninstall: "uninstall_contract n ns x es \<Longrightarrow> successes es = []"
  by (rule no_success_scope [of _ ns]) (simp add: uninstall_contract_def)

lemma no_success_writes:
  "fail_trace app cause f es \<Longrightarrow> successes es = []"
  "degraded_trace app d r es \<Longrightarrow> successes es = []"
  "settle_trace app p d r es \<Longrightarrow> successes es = []"
  "ensure_trace n x es \<Longrightarrow> successes es = []"
  "cleanup_trace E app x es \<Longrightarrow> successes es = []"
  unfolding fail_trace_def degraded_trace_def settle_trace_def ensure_trace_def cleanup_trace_def Let_def
  by (elim disjE exE conjE; simp)+

lemma no_success_delete: "delete_trace E app x es \<Longrightarrow> successes es = []"
  unfolding delete_trace_def Let_def
  by (elim disjE exE conjE; (drule no_success_uninstall)?; (drule no_success_writes(5))?; simp)

lemma no_success_apply: "apply_trace app vs h r es \<Longrightarrow> successes es = []"
  unfolding apply_trace_def Let_def
  by (elim disjE exE conjE; drule no_success_writes(4); (drule no_success_install)?;
      (drule no_success_writes(1))?; simp)

lemma no_success_unhealthy: "unhealthy_trace app es \<Longrightarrow> successes es = []"
  unfolding unhealthy_trace_def
  by (elim disjE exE conjE; (drule no_success_scope)?; (drule no_success_writes(2))?; simp)

text \<open>A list of events sends a status with phase Deployed.\<close>

definition sends_deployed :: "event list \<Rightarrow> bool" where
  "sends_deployed es \<longleftrightarrow> (\<exists>(sent, upd)\<in>set (status_writes es). Phase (Status sent) = PhaseDeployed)"

lemma sends_deployed_iff:
  "sends_deployed es \<longleftrightarrow> (\<exists>sent upd. EvStatusUpdate sent upd \<in> set es \<and> Phase (Status sent) = PhaseDeployed)"
  unfolding sends_deployed_def by (auto simp: status_writes_mem) blast

lemma sends_deployed_append [simp]:
  "\<not> sends_deployed []"
  "sends_deployed (xs @ ys) \<longleftrightarrow> sends_deployed xs \<or> sends_deployed ys"
  by (auto simp: sends_deployed_def)

lemma not_deployed:
  "fail_trace app cause f es \<Longrightarrow> \<not> sends_deployed es"
  "apply_trace app vs h r es \<Longrightarrow> \<not> sends_deployed es"
  "unhealthy_trace app es \<Longrightarrow> \<not> sends_deployed es"
  "\<forall>e\<in>set es. \<not> any_write e \<Longrightarrow> \<not> sends_deployed es"
  "delete_trace E app x es \<Longrightarrow> \<not> sends_deployed es"
proof -
  show "fail_trace app cause f es \<Longrightarrow> \<not> sends_deployed es"
    using other_phases(1) by (fastforce simp: sends_deployed_iff)
  show "apply_trace app vs h r es \<Longrightarrow> \<not> sends_deployed es"
    using apply_phases by (fastforce simp: sends_deployed_iff)
  show "unhealthy_trace app es \<Longrightarrow> \<not> sends_deployed es"
    using unhealthy_phases by (fastforce simp: sends_deployed_iff)
  show "\<forall>e\<in>set es. \<not> any_write e \<Longrightarrow> \<not> sends_deployed es"
    using no_status_writes by (fastforce simp: sends_deployed_iff)
  show "delete_trace E app x es \<Longrightarrow> \<not> sends_deployed es"
    using delete_no_status by (fastforce simp: sends_deployed_iff)
qed

text \<open>The events of a branch count a success exactly when they send the transition.\<close>

definition counted :: "Application \<Rightarrow> event list \<Rightarrow> bool" where
  "counted app es \<longleftrightarrow> successes es =
     (if sends_deployed es \<and> Phase (Status app) \<noteq> PhaseDeployed
      then [EvDeploymentSuccess (metaName (Meta app)) (metaNamespace (Meta app))] else [])"

lemma counted_none: "successes es = [] \<Longrightarrow> \<not> sends_deployed es \<Longrightarrow> counted app es"
  by (simp add: counted_def)

lemma counted_pad:
  assumes "counted app es" "successes pre = []" "\<not> sends_deployed pre" "successes post = []" "\<not> sends_deployed post"
  shows "counted app (pre @ es @ post)"
  using assms by (simp add: counted_def)

lemma counted_drive: "drive_trace app health r es \<Longrightarrow> counted app es"
  unfolding drive_trace_def
proof (elim disjE exE conjE)
  assume u: "unhealthy_trace app es"
  show ?thesis by (rule counted_none [OF no_success_unhealthy [OF u] not_deployed(3) [OF u]])
next
  fix es' assume s: "es = success_signal app @ es'" "settle_trace app PhaseDeployed steadyPollInterval r es'"
  then show ?thesis
    using no_success_writes(3) [OF s(2)]
    by (auto simp: counted_def settle_trace_def success_signal_def sends_deployed_def)
next
  assume s: "settle_trace app PhaseDeploying healthPollInterval r es"
  then show ?thesis
    using no_success_writes(3) [OF s] by (auto simp: counted_def settle_trace_def sends_deployed_def)
qed (simp add: counted_def sends_deployed_def)

lemma counted_check: "check_trace E app r es \<Longrightarrow> counted app es"
  unfolding check_trace_def Let_def
proof (elim disjE exE conjE)
  fix err assume g: "get_contract (metaName (Meta app)) (Namespace (Spec app)) (Inl err) es"
  show ?thesis by (rule counted_none [OF no_success_get [OF g] not_deployed(4) [OF no_writes(2) [OF g]]])
next
  fix rel es1 err es2
  assume g: "get_contract (metaName (Meta app)) (Namespace (Spec app)) (Inr rel) es1"
    "release_health_trace E (rrManifest rel) (Namespace (Spec app)) (Inl err) es2" "es = es1 @ es2"
  show ?thesis
    using no_success_get [OF g(1)] no_success_health [OF g(2)] not_deployed(4) [OF no_writes(2) [OF g(1)]]
      not_deployed(4) [OF no_writes(3) [OF g(2)]] g(3)
    by (intro counted_none) simp_all
next
  fix rel es1 health detail es2 es3
  assume g: "get_contract (metaName (Meta app)) (Namespace (Spec app)) (Inr rel) es1"
    "release_health_trace E (rrManifest rel) (Namespace (Spec app)) (Inr (health, detail)) es2"
    "drive_trace app health r es3" "es = es1 @ es2 @ es3"
  show ?thesis
    using counted_pad [OF counted_drive [OF g(3)], of "es1 @ es2" "[]"] g(4)
      no_success_get [OF g(1)] no_success_health [OF g(2)] not_deployed(4) [OF no_writes(2) [OF g(1)]]
      not_deployed(4) [OF no_writes(3) [OF g(2)]]
    by simp
qed

lemma counted_live:
  assumes "live_trace E app r es"
  shows "counted app es"
proof -
  have pad: "counted app (es1 @ es2)" if "values_trace E app v es1" "counted app es2" for v es1 es2
    using counted_pad [OF that(2), of es1 "[]"] no_success_values [OF that(1)]
      not_deployed(4) [OF no_writes(1) [OF that(1)]]
    by (simp add: sends_deployed_def)
  from assms show ?thesis
    unfolding live_trace_def
  proof (elim disjE exE conjE)
    fix err f es1 es2 assume a: "values_trace E app (Inl err) es1" "fail_trace app err f es2" "es = es1 @ es2"
    then show ?thesis using pad counted_none [OF no_success_writes(1) [OF a(2)] not_deployed(1) [OF a(2)]] by simp
  next
    fix vs h es1 es2
    assume a: "values_trace E app (Inr (vs, h)) es1" "apply_trace app vs h r es2" "es = es1 @ es2"
    then show ?thesis using pad counted_none [OF no_success_apply [OF a(2)] not_deployed(2) [OF a(2)]] by simp
  next
    fix vs h es1 es2
    assume a: "values_trace E app (Inr (vs, h)) es1" "check_trace E app r es2" "es = es1 @ es2"
    then show ?thesis using pad [OF a(1) counted_check [OF a(2)]] by simp
  qed
qed

text \<open>
  The success counter counts transitions into Deployed: a pass increments it once,
  with the Application's own name and namespace, exactly when the Application it read was
  in another phase and the pass sends a status with phase Deployed; otherwise not at all.
\<close>

theorem success_counts_transitions:
  assumes "finalizer_laws E" "EvGetApplication req (Inr app) \<in> set (reconcile_events E req s)"
  shows "successes (reconcile_events E req s) =
    (if sends_deployed (reconcile_events E req s) \<and> Phase (Status app) \<noteq> PhaseDeployed
     then [EvDeploymentSuccess (metaName (Meta app)) (metaNamespace (Meta app))] else [])"
proof -
  have "counted app (reconcile_events E req s)"
    using reconcile_events_trace assms(2)
  proof (cases rule: reconcile_branch)
    case (1 e es1 tail)
    show ?thesis
      unfolding 1(4)
      using counted_none [OF no_success_delete [OF 1(2)] not_deployed(5) [OF 1(2)], of app]
        no_success_gauge [OF 1(5)] not_deployed(4) [OF no_writes(4) [OF 1(5)]]
        counted_pad [of app es1 "[EvGetApplication req (Inr app)]" tail]
      by (simp add: sends_deployed_def)
  next
    case (2 app' upd tail)
    show ?thesis
      unfolding 2(3)
      using no_success_gauge [OF 2(5)] not_deployed(4) [OF no_writes(4) [OF 2(5)]]
      by (intro counted_none) (simp_all add: sends_deployed_def)
  next
    case (3 app' es1 tail)
    have "app' = app" using add_finalizer_False [OF assms(1) 3(2)] by blast
    then show ?thesis
      unfolding 3(4)
      using counted_live [OF 3(3)] no_success_gauge [OF 3(5)] not_deployed(4) [OF no_writes(4) [OF 3(5)]]
        counted_pad [of app es1 "[EvGetApplication req (Inr app)]" tail]
      by (simp add: sends_deployed_def)
  qed
  then show ?thesis by (simp add: counted_def)
qed

theorem success_counts_transitions_witness:
  "filter is_EvDeploymentSuccess (reconcile_events (demo_env (\<lambda>_ _. CurrentStatus)) demo_req
     (demo_state (demo_app (demo_status PhaseDeploying 3 0)) 3 10)) = [EvDeploymentSuccess ''web'' ''default'']"
proof -
  let ?app = "demo_app (demo_status PhaseDeploying 3 0)"
  let ?es = "reconcile_events (demo_env (\<lambda>_ _. CurrentStatus)) demo_req (demo_state ?app 3 10)"
  have run: "EvGetApplication demo_req (Inr ?app) \<in> set ?es \<and> list_ex (\<lambda>(sent, upd). Phase (Status sent) = PhaseDeployed)
      (status_writes ?es) \<and> (metaName (Meta ?app), metaNamespace (Meta ?app)) = (''web'', ''default'')"
    by code_simp
  have "Phase (Status ?app) \<noteq> PhaseDeployed" by (simp add: demo_app_def demo_status_def)
  with success_counts_transitions [OF demo_finalizer_laws conjunct1 [OF run]] run show ?thesis
    by (simp add: sends_deployed_def list_ex_iff)
qed

end
