(* ===== verification/MetricsFacts.thy ===== *)
theory MetricsFacts
  imports Metrics HealthFacts
begin

text \<open>
  What a scrape shows after a pass: the samples of the three collectors as a function of the
  events of the pass, and with it the effect of one \<open>Reconcile\<close> on each of them.
\<close>

section \<open>The deferred metrics come last\<close>

text \<open>Events of the timer and the gauge: the two deferred calls make them, nothing else does.\<close>

fun deferred_event :: "event \<Rightarrow> bool" where
  "deferred_event (EvObserveLatency _ _) = True"
| "deferred_event EvGaugeReset = True"
| "deferred_event (EvGaugeSet _ _) = True"
| "deferred_event _ = False"

lemma not_deferred_kinds:
  "in_scope ns e \<Longrightarrow> \<not> deferred_event e"
  "is_EvGetSecret e \<Longrightarrow> \<not> deferred_event e"
  "is_EvGetLive e \<Longrightarrow> \<not> deferred_event e"
  by (cases e; simp)+

abbreviation not_deferred :: "event list \<Rightarrow> bool" where
  "not_deferred es \<equiv> \<forall>e\<in>set es. \<not> deferred_event e"

lemma not_deferred_parts:
  "values_trace E app v es \<Longrightarrow> not_deferred es"
  "release_health_trace E m dns h es \<Longrightarrow> not_deferred es"
  "get_contract n ns x es \<Longrightarrow> not_deferred es"
  "install_contract spec y es \<Longrightarrow> not_deferred es"
  "uninstall_contract n ns z es \<Longrightarrow> not_deferred es"
  "\<forall>e\<in>set es. in_scope ns e \<Longrightarrow> not_deferred es"
  using values_events release_health_reads not_deferred_kinds
  by (fastforce simp: get_contract_def install_contract_def uninstall_contract_def Let_def)+

lemma not_deferred_writes:
  "fail_trace app cause f es \<Longrightarrow> not_deferred es"
  "degraded_trace app d r es \<Longrightarrow> not_deferred es"
  "settle_trace app p d r es \<Longrightarrow> not_deferred es"
  "ensure_trace n x es \<Longrightarrow> not_deferred es"
  "cleanup_trace E app x es \<Longrightarrow> not_deferred es"
  unfolding fail_trace_def degraded_trace_def settle_trace_def ensure_trace_def cleanup_trace_def Let_def
  by (elim disjE exE conjE; simp)+

lemma not_deferred_delete: "delete_trace E app x es \<Longrightarrow> not_deferred es"
  unfolding delete_trace_def Let_def
  by (elim disjE exE conjE; (drule not_deferred_parts(5))?; (drule not_deferred_writes(5))?; simp add: ball_Un)

lemma not_deferred_apply: "apply_trace app vs h r es \<Longrightarrow> not_deferred es"
  unfolding apply_trace_def Let_def
  by (elim disjE exE conjE; drule not_deferred_writes(4); (drule not_deferred_parts(4))?;
      (drule not_deferred_writes(1))?; simp add: ball_Un)

lemma not_deferred_unhealthy: "unhealthy_trace app es \<Longrightarrow> not_deferred es"
  unfolding unhealthy_trace_def
  by (elim disjE exE conjE; (drule not_deferred_parts(6))?; (drule not_deferred_writes(2))?; simp add: ball_Un)

lemma not_deferred_drive: "drive_trace app health r es \<Longrightarrow> not_deferred es"
  unfolding drive_trace_def success_signal_def
  by (elim disjE exE conjE; (drule not_deferred_writes(3))?; (drule not_deferred_unhealthy)?; simp add: ball_Un)

lemma not_deferred_check: "check_trace E app r es \<Longrightarrow> not_deferred es"
  unfolding check_trace_def Let_def
  by (elim disjE exE conjE; drule not_deferred_parts(3); (drule not_deferred_parts(2))?;
      (drule not_deferred_drive)?; simp add: ball_Un)

lemma not_deferred_live: "live_trace E app r es \<Longrightarrow> not_deferred es"
  unfolding live_trace_def
  by (elim disjE exE conjE; drule not_deferred_parts(1); (drule not_deferred_writes(1))?;
      (drule not_deferred_apply)?; (drule not_deferred_check)?; simp add: ball_Un)

lemma not_deferred_body: "emits (reconcile_body E req) (\<lambda>_ es. not_deferred es)"
proof (rule emits_mono [OF reconcile_body_contract])
  fix r es assume "body_trace E req r es"
  then show "not_deferred es"
    unfolding body_trace_def
  proof (elim disjE exE conjE)
    fix app e es' assume d: "delete_trace E app e es'" "es = EvGetApplication req (Inr app) # es'"
    show ?thesis using not_deferred_delete [OF d(1)] d(2) by simp
  next
    fix app app' es' assume d: "live_trace E app' r es'" "es = EvGetApplication req (Inr app) # es'"
    show ?thesis using not_deferred_live [OF d(1)] d(2) by simp
  qed simp_all
qed

section \<open>The samples after some events\<close>

text \<open>Only the events of a collector move its samples.\<close>

lemma moved_other:
  "\<not> is_EvObserveLatency e \<Longrightarrow> moved e m reconciliationLatency vs = m reconciliationLatency vs"
  "\<not> is_EvDeploymentSuccess e \<Longrightarrow> moved e m deploymentSuccessTotal vs = m deploymentSuccessTotal vs"
  "\<not> deferred_event e \<Longrightarrow> moved e m activeManagedApps vs = m activeManagedApps vs"
  by (cases e; simp)+

lemma moved_local: "m c vs = n c vs \<Longrightarrow> moved e m c vs = moved e n c vs"
  by (cases e) auto

lemma moved_local_fold: "m c vs = n c vs \<Longrightarrow> fold moved es m c vs = fold moved es n c vs"
proof (induction es arbitrary: m n)
  case (Cons e es)
  show ?case
    using Cons.IH [of "moved e m" "moved e n"] moved_local [of m c vs n e] Cons.prems by simp
qed simp

lemma fold_moved_filter:
  assumes "\<And>e m vs. \<not> P e \<Longrightarrow> moved e m c vs = m c vs"
  shows "fold moved es m c vs = fold moved (filter P es) m c vs"
proof (induction es arbitrary: m)
  case (Cons e es)
  show ?case
  proof (cases "P e")
    case False
    then show ?thesis
      using Cons.IH [of "moved e m"] moved_local_fold [of "moved e m" c vs m "filter P es"] assms [OF False] by simp
  qed (use Cons.IH in simp)
qed simp

lemma samples_latency: "fold moved es m reconciliationLatency vs = fold moved (filter is_EvObserveLatency es) m reconciliationLatency vs"
  by (rule fold_moved_filter) (simp add: moved_other)

lemma samples_success: "fold moved es m deploymentSuccessTotal vs = fold moved (successes es) m deploymentSuccessTotal vs"
  by (rule fold_moved_filter) (simp add: moved_other)

lemma samples_gauge: "fold moved es m activeManagedApps vs = fold moved (filter deferred_event es) m activeManagedApps vs"
  by (rule fold_moved_filter) (simp add: moved_other)

lemma samples_sets:
  "distinct (map fst xs) \<Longrightarrow> fold moved (map (\<lambda>(ns, n). EvGaugeSet ns n) xs) m activeManagedApps [ns] =
     (case map_of xs ns of None \<Rightarrow> m activeManagedApps [ns] | Some n \<Rightarrow> Some n)"
proof (induction xs arbitrary: m)
  case (Cons x xs)
  obtain k n where x: "x = (k, n)" by fastforce
  have "map_of xs k = None" using Cons.prems x by (simp add: map_of_eq_None_iff)
  then show ?case using Cons x by (auto split: option.split)
qed simp

section \<open>A pass\<close>

lemma reconcile_parts:
  obtains es1 es2 where
    "reconcile_events E req s = es1 @ es2 @ [EvObserveLatency (nnName req) (nnNamespace req)]" "not_deferred es1"
    "log (snd (run_state (refreshActiveGauge E) (snd (run_state (reconcile_body E req) s)))) =
       log (snd (run_state (reconcile_body E req) s)) @ es2"
    "\<forall>e\<in>set es2. gauge_event e"
proof -
  obtain r s1 where b: "run_state (reconcile_body E req) s = (r, s1)" by fastforce
  obtain u s2 where g: "run_state (refreshActiveGauge E) s1 = (u, s2)" by (rule prod.exhaust)
  obtain es1 where es1: "log s1 = log s @ es1" "not_deferred es1" using emitsD [OF not_deferred_body b] .
  obtain es2 where es2: "log s2 = log s1 @ es2" "\<forall>e\<in>set es2. gauge_event e" using emitsD [OF refresh_events g] .
  have "reconcile_events E req s = es1 @ es2 @ [EvObserveLatency (nnName req) (nnNamespace req)]"
    by (simp add: reconcile_events_def reconcile_next_def Reconcile_def b g es1 es2)
  with that es1(2) es2 b g show thesis by simp
qed

lemma not_deferred_latency: "not_deferred es \<Longrightarrow> filter is_EvObserveLatency es = []"
  by (auto simp: filter_empty_conv is_EvObserveLatency_def)

text \<open>The refresh as a map of samples, from the events \<open>gauge_is_exact\<close> gives.\<close>

lemma refresh_samples:
  assumes "list_law E apps" "range_law E" "log (snd (run_state (refreshActiveGauge E) t)) = log t @ es"
  shows "filter is_EvObserveLatency es = [] \<and>
    (case fst (ListApplications E \<lparr>InNamespace = None, MatchingFields = []\<rparr> (world t)) of
       Inl _ \<Rightarrow> fold moved es m activeManagedApps [ns] = m activeManagedApps [ns]
     | Inr _ \<Rightarrow> fold moved es m activeManagedApps [ns] =
         (if live_in ns (apps (world t)) = 0 then None else Some (live_in ns (apps (world t)))))"
proof -
  obtain u t' where run: "run_state (refreshActiveGauge E) t = (u, t')" by (rule prod.exhaust)
  obtain ans w where ans: "ListApplications E \<lparr>InNamespace = None, MatchingFields = []\<rparr> (world t) = (ans, w)" by fastforce
  note exact = gauge_is_exact [OF assms(1,2) run ans]
  show ?thesis
  proof (cases ans)
    case (Inl err)
    then have "es = [EvListApplications \<lparr>InNamespace = None, MatchingFields = []\<rparr> (Inl err)]"
      using exact assms(3) run by simp
    then show ?thesis using ans Inl by simp
  next
    case (Inr items)
    then obtain sets where sets: "es = [EvListApplications \<lparr>InNamespace = None, MatchingFields = []\<rparr> (Inr items),
         EvGaugeReset] @ map (\<lambda>(ns, n). EvGaugeSet ns n) sets" "distinct (map fst sets)"
       "set sets = {(ns, n). n = live_in ns (apps (world t)) \<and> n > 0}"
      using exact assms(3) run by auto
    have nonneg: "live_in ns (apps (world t)) \<ge> 0" by (simp add: live_in_def)
    have val: "map_of sets ns = (if live_in ns (apps (world t)) = 0 then None else Some (live_in ns (apps (world t))))"
    proof (cases "live_in ns (apps (world t)) = 0")
      case True
      then have "ns \<notin> fst ` set sets" unfolding sets(3) by auto
      with True show ?thesis by (simp add: map_of_eq_None_iff)
    next
      case False
      then have "(ns, live_in ns (apps (world t))) \<in> set sets" unfolding sets(3) using nonneg by simp
      with False show ?thesis by (simp add: map_of_eq_Some_iff [OF sets(2)])
    qed
    have "is_EvObserveLatency e \<Longrightarrow> e \<notin> set es" for e by (auto simp: sets(1))
    then have none: "filter is_EvObserveLatency es = []" by (auto simp: filter_empty_conv)
    have "fold moved es m activeManagedApps [ns] =
        (if live_in ns (apps (world t)) = 0 then None else Some (live_in ns (apps (world t))))"
      by (simp add: sets(1) samples_sets [OF sets(2)] val split: option.split)
    then show ?thesis using ans Inr none by simp
  qed
qed

text \<open>
  C36. What a scrape shows after a pass over an Application that was found, whatever it showed
  before: no call of the metrics library panics; the latency histogram has one more
  observation, at the labels of the request; the success counter is one higher, at the
  Application's own labels, exactly when the pass sends, whether it is accepted or refused, a
  status that moves the Application it read into phase Deployed; and the gauge of a namespace is the number of live Applications in the cache that
  target it, with no series left for a namespace that has none, or stays what it was when the list
  failed.
\<close>

theorem pass_metrics_are_exact:
  assumes "prometheus_laws P" "finalizer_laws E" "list_law E apps" "range_law E"
    "EvGetApplication req (Inr app) \<in> set (reconcile_events E req s)"
  shows "let es = reconcile_events E req s; w = world (snd (run_state (reconcile_body E req) s)) in
    \<exists>reg'. metric_calls P es reg = Some reg' \<and>
      (\<forall>vs. sample P reg' reconciliationLatency vs =
         (if vs = [nnName req, nnNamespace req] then one_more (sample P reg reconciliationLatency vs)
          else sample P reg reconciliationLatency vs)) \<and>
      (\<forall>vs. sample P reg' deploymentSuccessTotal vs =
         (if sends_deployed es \<and> Phase (Status app) \<noteq> PhaseDeployed \<and> vs = [metaName (Meta app), metaNamespace (Meta app)]
          then one_more (sample P reg deploymentSuccessTotal vs) else sample P reg deploymentSuccessTotal vs)) \<and>
      (\<forall>ns. sample P reg' activeManagedApps [ns] =
         (case fst (ListApplications E \<lparr>InNamespace = None, MatchingFields = []\<rparr> w) of
            Inl _ \<Rightarrow> sample P reg activeManagedApps [ns]
          | Inr _ \<Rightarrow> (if live_in ns (apps w) = 0 then None else Some (live_in ns (apps w)))))"
proof -
  let ?es = "reconcile_events E req s" and ?t = "snd (run_state (reconcile_body E req) s)"
  obtain es1 es2 where es: "?es = es1 @ es2 @ [EvObserveLatency (nnName req) (nnNamespace req)]" "not_deferred es1"
      "log (snd (run_state (refreshActiveGauge E) ?t)) = log ?t @ es2" "\<forall>e\<in>set es2. gauge_event e"
    by (rule reconcile_parts)
  obtain reg' where reg': "metric_calls P ?es reg = Some reg'" "sample P reg' = fold moved ?es (sample P reg)"
    using metric_calls_move [OF assms(1)] by blast
  note refresh = refresh_samples [OF assms(3,4) es(3)]
  have "filter is_EvObserveLatency ?es = [EvObserveLatency (nnName req) (nnNamespace req)]"
    using refresh not_deferred_latency [OF es(2)] by (simp add: es(1))
  then have latency: "sample P reg' reconciliationLatency vs =
      (if vs = [nnName req, nnNamespace req] then one_more (sample P reg reconciliationLatency vs)
       else sample P reg reconciliationLatency vs)" for vs
    unfolding reg'(2) samples_latency [of ?es] by simp
  have success: "sample P reg' deploymentSuccessTotal vs =
      (if sends_deployed ?es \<and> Phase (Status app) \<noteq> PhaseDeployed \<and> vs = [metaName (Meta app), metaNamespace (Meta app)]
       then one_more (sample P reg deploymentSuccessTotal vs) else sample P reg deploymentSuccessTotal vs)" for vs
    unfolding reg'(2) samples_success [of ?es] success_counts_transitions [OF assms(2,5)] by simp
  have "fold moved es1 m activeManagedApps vs = m activeManagedApps vs" for m vs
    unfolding samples_gauge [of es1] using es(2) by simp
  then have "sample P reg' activeManagedApps [ns] =
      (case fst (ListApplications E \<lparr>InNamespace = None, MatchingFields = []\<rparr> (world ?t)) of
         Inl _ \<Rightarrow> sample P reg activeManagedApps [ns]
       | Inr _ \<Rightarrow> (if live_in ns (apps (world ?t)) = 0 then None else Some (live_in ns (apps (world ?t)))))" for ns
    using refresh [of "fold moved es1 (sample P reg)" ns] by (auto simp: reg'(2) es(1) split: sum.splits)
  with latency success reg'(1) show ?thesis unfolding Let_def by blast
qed

text \<open>The pass of the demo that reaches Deployed.\<close>

theorem pass_metrics_are_exact_witness:
  "\<exists>reg'. metric_calls demo_prometheus
      (reconcile_events (demo_env (\<lambda>_ _. CurrentStatus)) demo_req (demo_state (demo_app (demo_status PhaseDeploying 3 0)) 3 10))
      ({}, \<lambda>_ _. Some 5) = Some reg' \<and>
    snd reg' reconciliationLatency [''web'', ''default''] = Some 6 \<and>
    snd reg' deploymentSuccessTotal [''web'', ''default''] = Some 6 \<and>
    snd reg' deploymentSuccessTotal [''api'', ''default''] = Some 5 \<and>
    snd reg' activeManagedApps [''demo''] = Some 1 \<and> snd reg' activeManagedApps [''old''] = None"
proof -
  let ?E = "demo_env (\<lambda>_ _. CurrentStatus)" and ?app = "demo_app (demo_status PhaseDeploying 3 0)"
  let ?s = "demo_state ?app 3 10"
  let ?es = "reconcile_events ?E demo_req ?s" and ?w = "world (snd (run_state (reconcile_body ?E demo_req) ?s))"
  have run: "EvGetApplication demo_req (Inr ?app) \<in> set ?es \<and>
      list_ex (\<lambda>(sent, upd). Phase (Status sent) = PhaseDeployed) (status_writes ?es) \<and>
      map (\<lambda>a. (live_app a, Namespace (Spec a))) (demo_apps ?w) = [(True, ''demo'')]"
    by code_simp
  note read = conjunct1 [OF run]
  have sent: "sends_deployed ?es" using run by (simp add: sends_deployed_def list_ex_iff)
  have list: "ListApplications ?E opts w = (Inr (filter (list_matches opts) (demo_apps w)), w)" for opts w
    by (simp add: demo_env_def demo_list_def)
  from run obtain a where a: "demo_apps ?w = [a]" "live_app a" "Namespace (Spec a) = ''demo''" by auto
  have live: "live_in ns (demo_apps ?w) = (if ns = ''demo'' then 1 else 0)" for ns
    by (simp add: a live_in_def)
  have ph: "Phase (Status ?app) \<noteq> PhaseDeployed" "metaName (Meta ?app) = ''web''" "metaNamespace (Meta ?app) = ''default''"
    "nnName demo_req = ''web''" "nnNamespace demo_req = ''default''"
    by (simp_all add: demo_app_def demo_status_def demo_req_def)
  have snd: "sample demo_prometheus = snd" by (simp add: demo_prometheus_def)
  from pass_metrics_are_exact [OF demo_prometheus_laws demo_finalizer_laws demo_list_law demo_range_law read,
      of "({}, \<lambda>_ _. Some 5)"]
  show ?thesis unfolding Let_def snd live list ph by (auto simp: sent ph(1) one_more_def)
qed

end
