(* ===== verification/Registration.thy ===== *)
theory Registration
  imports Webhook Metrics
begin

text \<open>
  The initialisation of the packages, before \<open>main\<close> runs: \<open>api/v1alpha1/groupversion_info.go\<close>
  and the \<open>init\<close> functions of \<open>application_types.go\<close>, \<open>metrics.go\<close> and \<open>cmd/main.go\<close>. The scheme
  and the scheme builder of \<open>apimachinery\<close> are parameters. A panic is None.
\<close>

section \<open>The scheme library\<close>

type_synonym 's scheme_fn = "'s \<Rightarrow> (go_error option \<times> 's) option"

record ('s, 'b) scheme_lib =
  NewScheme :: 's
  clientgo_AddToScheme :: "'s scheme_fn"
  AddToGroupVersion :: "GroupVersionT \<Rightarrow> 's \<Rightarrow> 's"
  AddKnownTypes :: "GroupVersionT \<Rightarrow> string list \<Rightarrow> 's \<Rightarrow> 's option"
  NewSchemeBuilder :: "'s scheme_fn list \<Rightarrow> 'b"
  BuilderRegister :: "'s scheme_fn list \<Rightarrow> 'b \<Rightarrow> 'b"
  BuilderAddToScheme :: "'b \<Rightarrow> 's scheme_fn"
  Must :: "go_error option \<Rightarrow> bool"
  Recognizes :: "'s \<Rightarrow> GroupVersionT \<Rightarrow> string \<Rightarrow> bool"

section \<open>The package of the API\<close>

text \<open>
  The variable \<open>SchemeBuilder\<close>. \<open>AddToScheme\<close> is a method value with a pointer receiver: it is
  bound to the variable, not to what the variable held when it was bound, so a function that
  an \<open>init\<close> registers later is applied as well.
\<close>

record 'b api_vars =
  SchemeBuilder :: 'b

definition api_vars_init :: "('s, 'b) scheme_lib \<Rightarrow> 'b api_vars" where
  "api_vars_init K = \<lparr>SchemeBuilder = NewSchemeBuilder K [\<lambda>s. Some (None, AddToGroupVersion K SchemeGroupVersion s)]\<rparr>"

definition AddToScheme :: "('s, 'b) scheme_lib \<Rightarrow> 'b api_vars \<Rightarrow> 's scheme_fn" where
  "AddToScheme K vars = BuilderAddToScheme K (SchemeBuilder vars)"

definition add_application_types :: "('s, 'b) scheme_lib \<Rightarrow> 's scheme_fn" where
  "add_application_types K s =
     (case AddKnownTypes K SchemeGroupVersion [''Application'', ''ApplicationList''] s of
        None \<Rightarrow> None
      | Some s' \<Rightarrow> Some (None, s'))"

definition api_init :: "('s, 'b) scheme_lib \<Rightarrow> 'b api_vars \<Rightarrow> 'b api_vars" where
  "api_init K vars = vars\<lparr>SchemeBuilder := BuilderRegister K [add_application_types K] (SchemeBuilder vars)\<rparr>"

section \<open>The package of the program\<close>

text \<open>\<open>Must K e\<close> says whether \<open>utilruntime.Must\<close> returns when it is given \<open>e\<close>; otherwise it panics.\<close>

definition main_init :: "('s, 'b) scheme_lib \<Rightarrow> 'b api_vars \<Rightarrow> 's \<Rightarrow> 's option" where
  "main_init K vars s0 =
     (case clientgo_AddToScheme K s0 of
        None \<Rightarrow> None
      | Some (e1, s1) \<Rightarrow>
          (if \<not> Must K e1 then None
           else (case AddToScheme K vars s1 of
             None \<Rightarrow> None
           | Some (e2, s2) \<Rightarrow> (if \<not> Must K e2 then None else Some s2))))"

text \<open>Go initialises a package after the packages it imports: the API, the controller, the program.\<close>

definition init_program :: "'r prometheus \<Rightarrow> ('s, 'b) scheme_lib \<Rightarrow> 'r \<Rightarrow> ('s \<times> 'r) option" where
  "init_program P K reg =
     (let vars = api_init K (api_vars_init K) in
      case init_metrics P reg of
        None \<Rightarrow> None
      | Some reg' \<Rightarrow>
          (case main_init K vars (NewScheme K) of
             None \<Rightarrow> None
           | Some s \<Rightarrow> Some (s, reg')))"

section \<open>What the library promises\<close>

fun apply_funcs :: "'s scheme_fn list \<Rightarrow> 's scheme_fn" where
  "apply_funcs [] s = Some (None, s)"
| "apply_funcs (f # fs) s = (case f s of
     None \<Rightarrow> None
   | Some (Some err, s') \<Rightarrow> Some (Some err, s')
   | Some (None, s') \<Rightarrow> apply_funcs fs s')"

definition meta_kinds :: "string list" where
  "meta_kinds = [''WatchEvent'', ''ListOptions'', ''GetOptions'', ''DeleteOptions'', ''CreateOptions'',
     ''UpdateOptions'', ''PatchOptions'']"

text \<open>
  A builder applies its functions in order until one fails; \<open>AddToGroupVersion\<close> adds the kinds
  every version has; \<open>AddKnownTypes\<close> adds the given kinds, and does not panic when none of them
  is taken; \<open>Must\<close> panics when there is an error.
\<close>

definition scheme_laws :: "('s, 'b) scheme_lib \<Rightarrow> bool" where
  "scheme_laws K \<longleftrightarrow> (\<forall>e. Must K e \<longleftrightarrow> e = None) \<and>
     (\<forall>fs gs s. BuilderAddToScheme K (BuilderRegister K gs (NewSchemeBuilder K fs)) s = apply_funcs (fs @ gs) s) \<and>
     (\<forall>gv s v t. Recognizes K s v t \<longrightarrow> Recognizes K (AddToGroupVersion K gv s) v t) \<and>
     (\<forall>gv s t. Recognizes K (AddToGroupVersion K gv s) gv t \<longrightarrow> Recognizes K s gv t \<or> t \<in> set meta_kinds) \<and>
     (\<forall>gv ts s. (\<forall>t\<in>set ts. \<not> Recognizes K s gv t) \<longrightarrow> (\<exists>s'. AddKnownTypes K gv ts s = Some s' \<and>
        (\<forall>v t. Recognizes K s' v t \<longleftrightarrow> Recognizes K s v t \<or> v = gv \<and> t \<in> set ts)))"

lemma scheme_lawsD:
  assumes "scheme_laws K"
  shows "Must K e \<longleftrightarrow> e = None"
    and "BuilderAddToScheme K (BuilderRegister K gs (NewSchemeBuilder K fs)) s = apply_funcs (fs @ gs) s"
    and "Recognizes K s v t \<Longrightarrow> Recognizes K (AddToGroupVersion K gv s) v t"
    and "Recognizes K (AddToGroupVersion K gv s) gv t \<Longrightarrow> Recognizes K s gv t \<or> t \<in> set meta_kinds"
    and "\<forall>t\<in>set ts. \<not> Recognizes K s gv t \<Longrightarrow> \<exists>s'. AddKnownTypes K gv ts s = Some s' \<and>
        (\<forall>v t. Recognizes K s' v t \<longleftrightarrow> Recognizes K s v t \<or> v = gv \<and> t \<in> set ts)"
proof -
  note laws = conjunct2 [OF assms [unfolded scheme_laws_def]]
  show "Must K e \<longleftrightarrow> e = None" using conjunct1 [OF assms [unfolded scheme_laws_def]] by blast
  show "BuilderAddToScheme K (BuilderRegister K gs (NewSchemeBuilder K fs)) s = apply_funcs (fs @ gs) s"
    by (rule conjunct1 [OF laws, rule_format])
  show "Recognizes K s v t \<Longrightarrow> Recognizes K (AddToGroupVersion K gv s) v t"
    using conjunct1 [OF conjunct2 [OF laws]] by blast
  show "Recognizes K (AddToGroupVersion K gv s) gv t \<Longrightarrow> Recognizes K s gv t \<or> t \<in> set meta_kinds"
    using conjunct1 [OF conjunct2 [OF conjunct2 [OF laws]]] by blast
  show "\<forall>t\<in>set ts. \<not> Recognizes K s gv t \<Longrightarrow> \<exists>s'. AddKnownTypes K gv ts s = Some s' \<and>
      (\<forall>v t. Recognizes K s' v t \<longleftrightarrow> Recognizes K s v t \<or> v = gv \<and> t \<in> set ts)"
    using conjunct2 [OF conjunct2 [OF conjunct2 [OF laws]]] by blast
qed

section \<open>The scheme of the program\<close>

lemma AddToScheme_types:
  assumes "scheme_laws K" "\<not> Recognizes K s SchemeGroupVersion ''Application''"
    "\<not> Recognizes K s SchemeGroupVersion ''ApplicationList''"
  shows "\<exists>s'. AddToScheme K (api_init K (api_vars_init K)) s = Some (None, s') \<and>
    Recognizes K s' SchemeGroupVersion ''Application'' \<and> Recognizes K s' SchemeGroupVersion ''ApplicationList'' \<and>
    (\<forall>v t. Recognizes K s v t \<longrightarrow> Recognizes K s' v t)"
proof -
  let ?s1 = "AddToGroupVersion K SchemeGroupVersion s"
  have "\<forall>t\<in>set [''Application'', ''ApplicationList'']. \<not> Recognizes K ?s1 SchemeGroupVersion t"
    using scheme_lawsD(4) [OF assms(1), of SchemeGroupVersion s] assms(2,3) by (auto simp: meta_kinds_def)
  from scheme_lawsD(5) [OF assms(1) this] obtain s' where
    s': "AddKnownTypes K SchemeGroupVersion [''Application'', ''ApplicationList''] ?s1 = Some s'"
      "\<forall>v t. Recognizes K s' v t \<longleftrightarrow> Recognizes K ?s1 v t \<or>
         v = SchemeGroupVersion \<and> t \<in> set [''Application'', ''ApplicationList'']"
    by blast
  have "AddToScheme K (api_init K (api_vars_init K)) s = Some (None, s')"
    by (simp add: AddToScheme_def api_init_def api_vars_init_def scheme_lawsD(2) [OF assms(1)]
        add_application_types_def s'(1))
  with s'(2) scheme_lawsD(3) [OF assms(1)] show ?thesis by auto
qed

text \<open>
  C37. The initialisation of the packages panics only if the scheme of client-go cannot be built:
  otherwise the program starts with a scheme that knows \<open>Application\<close> and \<open>ApplicationList\<close> in
  the group version of the API, though they are registered by an \<open>init\<close> that runs after
  \<open>AddToScheme\<close> was bound, and every kind of client-go, and the three metrics are registered
  under names of their own.
\<close>

theorem scheme_knows_the_api:
  assumes "scheme_laws K" "prometheus_laws P"
    "{''helmwarden_reconciliation_latency_seconds'', ''helmwarden_deployment_success_total'',
      ''helmwarden_active_managed_apps''} \<inter> registered P reg = {}"
    "\<And>e s1 t. clientgo_AddToScheme K (NewScheme K) = Some (e, s1) \<Longrightarrow> \<not> Recognizes K s1 SchemeGroupVersion t"
  shows "case clientgo_AddToScheme K (NewScheme K) of
     Some (None, s1) \<Rightarrow> \<exists>s reg'. init_program P K reg = Some (s, reg') \<and>
       Recognizes K s \<lparr>gvGroup = ''apps.helmwarden.dev'', gvVersion = ''v1alpha1''\<rparr> ''Application'' \<and>
       Recognizes K s \<lparr>gvGroup = ''apps.helmwarden.dev'', gvVersion = ''v1alpha1''\<rparr> ''ApplicationList'' \<and>
       (\<forall>v t. Recognizes K s1 v t \<longrightarrow> Recognizes K s v t) \<and>
       registered P reg' = {''helmwarden_reconciliation_latency_seconds'', ''helmwarden_deployment_success_total'',
         ''helmwarden_active_managed_apps''} \<union> registered P reg
   | _ \<Rightarrow> init_program P K reg = None"
proof -
  let ?cs = "[reconciliationLatency, deploymentSuccessTotal, activeManagedApps]"
  have "distinct (map colName ?cs)" "set (map colName ?cs) \<inter> registered P reg = {}"
    using assms(3) by (auto simp: collector_defs)
  from prometheus_lawsD(1) [OF assms(2) this] obtain reg' where
    reg': "init_metrics P reg = Some reg'" "registered P reg' = set (map colName ?cs) \<union> registered P reg"
    unfolding init_metrics_def by blast
  show ?thesis
  proof (cases "\<exists>s1. clientgo_AddToScheme K (NewScheme K) = Some (None, s1)")
    case True
    then obtain s1 where s1: "clientgo_AddToScheme K (NewScheme K) = Some (None, s1)" by blast
    from AddToScheme_types [OF assms(1) assms(4) [OF s1] assms(4) [OF s1]] obtain s' where
      "AddToScheme K (api_init K (api_vars_init K)) s1 = Some (None, s')"
      "Recognizes K s' SchemeGroupVersion ''Application''" "Recognizes K s' SchemeGroupVersion ''ApplicationList''"
      "\<forall>v t. Recognizes K s1 v t \<longrightarrow> Recognizes K s' v t"
      by blast
    with s1 reg' show ?thesis
      by (simp add: init_program_def main_init_def scheme_lawsD(1) [OF assms(1)] SchemeGroupVersion_def collector_defs insert_commute)
  next
    case False
    then show ?thesis
      by (auto simp: init_program_def main_init_def scheme_lawsD(1) [OF assms(1)] reg' split: option.split prod.split)
  qed
qed

text \<open>A scheme that is a list of kinds, its builder a list of functions, client-go with one kind.\<close>

type_synonym demo_scheme = "(GroupVersionT \<times> string) list"

definition demo_core :: GroupVersionT where
  "demo_core = \<lparr>gvGroup = '''', gvVersion = ''v1''\<rparr>"

definition demo_scheme_lib :: "(demo_scheme, demo_scheme scheme_fn list) scheme_lib" where
  "demo_scheme_lib =
     \<lparr>NewScheme = [], clientgo_AddToScheme = (\<lambda>s. Some (None, (demo_core, ''Secret'') # s)),
      AddToGroupVersion = (\<lambda>gv s. map (Pair gv) meta_kinds @ s),
      AddKnownTypes = (\<lambda>gv ts s. if \<exists>t\<in>set ts. (gv, t) \<in> set s then None else Some (map (Pair gv) ts @ s)),
      NewSchemeBuilder = (\<lambda>fs. fs), BuilderRegister = (\<lambda>gs fs. fs @ gs), BuilderAddToScheme = apply_funcs,
      Must = (\<lambda>e. e = None), Recognizes = (\<lambda>s gv t. (gv, t) \<in> set s)\<rparr>"

lemma demo_scheme_laws: "scheme_laws demo_scheme_lib"
  by (auto simp: scheme_laws_def demo_scheme_lib_def)

theorem scheme_knows_the_api_witness:
  "\<exists>s reg'. init_program demo_prometheus demo_scheme_lib ({''go_goroutines''}, \<lambda>_ _. None) = Some (s, reg') \<and>
     (\<lparr>gvGroup = ''apps.helmwarden.dev'', gvVersion = ''v1alpha1''\<rparr>, ''Application'') \<in> set s \<and>
     (demo_core, ''Secret'') \<in> set s \<and> ''go_goroutines'' \<in> fst reg'"
proof -
  have kinds: "clientgo_AddToScheme demo_scheme_lib (NewScheme demo_scheme_lib) = Some (None, [(demo_core, ''Secret'')])"
    "Recognizes demo_scheme_lib s gv t = ((gv, t) \<in> set s)" for s gv t
    by (simp_all add: demo_scheme_lib_def)
  have reg: "registered demo_prometheus = fst" by (simp add: demo_prometheus_def)
  have fresh: "\<not> Recognizes demo_scheme_lib s1 SchemeGroupVersion t"
    if "clientgo_AddToScheme demo_scheme_lib (NewScheme demo_scheme_lib) = Some (e, s1)" for e s1 t
    using that by (auto simp: kinds demo_core_def SchemeGroupVersion_def)
  have names: "{''helmwarden_reconciliation_latency_seconds'', ''helmwarden_deployment_success_total'',
      ''helmwarden_active_managed_apps''} \<inter> registered demo_prometheus ({''go_goroutines''}, \<lambda>_ _. None) = {}"
    by (simp add: reg)
  from scheme_knows_the_api [OF demo_scheme_laws demo_prometheus_laws names fresh]
  show ?thesis by (fastforce simp: kinds reg)
qed

end
