(* ===== verification/HelmDirs.thy ===== *)
theory HelmDirs
  imports Trace
begin

text \<open>
  The construction of the Helm manager, \<open>NewManager\<close> and \<open>ensureWritableHelmDirs\<close> of
  \<open>internal/helm/manager.go\<close>. The state is the environment of the process and the file system
  behind it. \<open>os.Getenv\<close>, \<open>os.Setenv\<close>, \<open>os.TempDir\<close> and \<open>filepath.Join\<close> are those of Go on
  Unix; creating a directory, the iteration order of a Go map and Helm's own \<open>cli.New\<close> are
  parameters.
\<close>

section \<open>The process environment\<close>

type_synonym environ = "string \<Rightarrow> string option"

definition os_Getenv :: "environ \<Rightarrow> string \<Rightarrow> string" where
  "os_Getenv env k = (case env k of None \<Rightarrow> '''' | Some v \<Rightarrow> v)"

definition nul :: char where
  "nul = char_of (0 :: nat)"

text \<open>\<open>os.Setenv\<close> refuses an empty key, a key with \<open>=\<close> or NUL, and a value with NUL.\<close>

definition os_Setenv :: "string \<Rightarrow> string \<Rightarrow> environ \<Rightarrow> go_error option \<times> environ" where
  "os_Setenv k v env =
     (if k = '''' \<or> CHR ''='' \<in> set k \<or> nul \<in> set k \<or> nul \<in> set v
      then (Some (ExtErr OtherErr ''setenv: invalid argument''), env)
      else (None, env(k \<mapsto> v)))"

definition os_TempDir :: "environ \<Rightarrow> string" where
  "os_TempDir env = (if os_Getenv env ''TMPDIR'' = '''' then ''/tmp'' else os_Getenv env ''TMPDIR'')"

section \<open>Paths\<close>

abbreviation split_path :: "string \<Rightarrow> string list" where
  "split_path \<equiv> split_on CHR ''/''"

abbreviation join_path :: "string list \<Rightarrow> string" where
  "join_path \<equiv> join_on CHR ''/''"

text \<open>One element of \<open>filepath.Clean\<close>; the elements kept so far, the last one first.\<close>

definition clean_step :: "bool \<Rightarrow> string \<Rightarrow> string list \<Rightarrow> string list" where
  "clean_step rooted p kept =
     (if p = '''' \<or> p = ''.'' then kept
      else if p = ''..'' then
        (case kept of
           q # qs \<Rightarrow> (if q = ''..'' then p # kept else qs)
         | [] \<Rightarrow> (if rooted then [] else [p]))
      else p # kept)"

definition Clean :: "string \<Rightarrow> string" where
  "Clean path =
     (if path = '''' then ''.''
      else let rooted = (hd path = CHR ''/'');
               kept = rev (fold (clean_step rooted) (split_path path) [])
           in if rooted then ''/'' @ join_path kept
              else if kept = [] then ''.'' else join_path kept)"

definition Join :: "string list \<Rightarrow> string" where
  "Join elems = (case dropWhile (\<lambda>e. e = '''') elems of [] \<Rightarrow> '''' | es \<Rightarrow> Clean (join_path es))"

section \<open>The directories\<close>

datatype dir_event =
    EvMkdirAll string nat "go_error option"
  | EvSetenv string string "go_error option"

record 'f os =
  environ :: environ
  fs :: 'f

record ('f, 's) host =
  MkdirAll :: "string \<Rightarrow> nat \<Rightarrow> 'f \<Rightarrow> go_error option \<times> 'f"
  RangeDirs :: "(string \<times> string) list \<Rightarrow> (string \<times> string) list"
  CliNew :: "environ \<Rightarrow> 's"

type_synonym ('f, 'a) os_act = "('f os, dir_event, 'a) act"

definition do_MkdirAll :: "('f, 's) host \<Rightarrow> string \<Rightarrow> nat \<Rightarrow> ('f, go_error option) os_act" where
  "do_MkdirAll L dir perm =
     call (\<lambda>w. case MkdirAll L dir perm (fs w) of (e, f) \<Rightarrow> (e, w\<lparr>fs := f\<rparr>)) (EvMkdirAll dir perm)"

definition do_Setenv :: "string \<Rightarrow> string \<Rightarrow> ('f, go_error option) os_act" where
  "do_Setenv k v =
     call (\<lambda>w. case os_Setenv k v (environ w) of (e, env) \<Rightarrow> (e, w\<lparr>environ := env\<rparr>)) (EvSetenv k v)"

text \<open>The map literal of the loop, and the loop over it in the order Go happens to take.\<close>

definition helm_dirs :: "(string \<times> string) list" where
  "helm_dirs =
     [(''HELM_CACHE_HOME'', ''cache''), (''HELM_CONFIG_HOME'', ''config''), (''HELM_DATA_HOME'', ''data'')]"

fun dirs_loop :: "('f, 's) host \<Rightarrow> string \<Rightarrow> (string \<times> string) list \<Rightarrow> ('f, go_error option) os_act" where
  "dirs_loop L base [] = ret None"
| "dirs_loop L base ((env, sub) # rest) = do {
     cur \<leftarrow> peek (\<lambda>w. os_Getenv (environ w) env);
     if cur \<noteq> '''' then dirs_loop L base rest
     else do {
       let dir = Join [base, sub];
       made \<leftarrow> do_MkdirAll L dir 493;
       case made of
         Some err \<Rightarrow> ret (Some (Errorf (''create helm dir '' @ fmt_q dir @ '': '') (Some err)))
       | None \<Rightarrow> do {
           put \<leftarrow> do_Setenv env dir;
           case put of
             Some err \<Rightarrow> ret (Some (Errorf (''set '' @ env @ '': '') (Some err)))
           | None \<Rightarrow> dirs_loop L base rest
         }
     }
   }"

definition ensureWritableHelmDirs :: "('f, 's) host \<Rightarrow> ('f, go_error option) os_act" where
  "ensureWritableHelmDirs L = do {
     base0 \<leftarrow> peek (\<lambda>w. os_Getenv (environ w) ''HELM_HOME_BASE'');
     base \<leftarrow> (if base0 = '''' then peek (\<lambda>w. Join [os_TempDir (environ w), ''helm'']) else ret base0);
     dirs_loop L base (RangeDirs L helm_dirs)
   }"

record ('c, 's) Manager =
  mgrRestConfig :: 'c
  mgrSettings :: 's

definition NewManager :: "('f, 's) host \<Rightarrow> 'c \<Rightarrow> ('f, go_error + ('c, 's) Manager) os_act" where
  "NewManager L cfg = do {
     res \<leftarrow> ensureWritableHelmDirs L;
     case res of
       Some err \<Rightarrow> ret (Inl err)
     | None \<Rightarrow> do {
         settings \<leftarrow> peek (\<lambda>w. CliNew L (environ w));
         ret (Inr \<lparr>mgrRestConfig = cfg, mgrSettings = settings\<rparr>)
       }
   }"

section \<open>Cleaning a path and going down one level\<close>

definition plain_name :: "string \<Rightarrow> bool" where
  "plain_name q \<longleftrightarrow> CHR ''/'' \<notin> set q \<and> q \<notin> {'''', ''.'', ''..''}"

lemma clean_plain: "plain_name q \<Longrightarrow> clean_step rooted q kept = q # kept"
  by (simp add: clean_step_def plain_name_def)

lemma Join_plain:
  assumes "base \<noteq> ''''" "plain_name sub"
  shows "Join [base, sub] = (let rooted = (hd base = CHR ''/'');
      kept = rev (fold (clean_step rooted) (split_path base) []) in
    (if rooted then ''/'' else '''') @ join_path (kept @ [sub]))"
proof -
  have "hd (base @ ''/'' @ sub) = hd base" using assms(1) by (cases base) simp_all
  moreover have "CHR ''/'' \<notin> set sub" using assms(2) by (simp add: plain_name_def)
  ultimately show ?thesis
    using assms by (simp add: Join_def Clean_def Let_def split_on_below clean_plain)
qed

lemma Join_plain_inject:
  assumes "base \<noteq> ''''" "plain_name a" "plain_name b" "Join [base, a] = Join [base, b]"
  shows "a = b"
  using assms(4) unfolding Join_plain [OF assms(1,2)] Join_plain [OF assms(1,3)] Let_def join_on_snoc
  by (simp split: if_splits)

end
