(* ===== verification/Startup.thy ===== *)
theory Startup
  imports HelmDirs Controller
begin

text \<open>
  The entry point, \<open>cmd/main.go\<close>: the command line, the options it turns into, and the order in
  which the manager is put together and started, with \<open>SetupWithManager\<close> of the controller.
  Go's \<open>flag\<close> package is modelled; the flags that the logging and client libraries add to it
  (\<open>zap\<close>, \<open>kubeconfig\<close>) and the calls into controller-runtime are parameters.
\<close>

section \<open>The command line\<close>

record Flags =
  metricsAddr :: string
  probeAddr :: string
  enableLeaderElection :: bool
  secureMetrics :: bool
  webhookCertPath :: string
  webhookCertName :: string
  webhookCertKey :: string
  metricsCertPath :: string
  metricsCertName :: string
  metricsCertKey :: string
  enableHTTP2 :: bool

text \<open>The registration of the flags: names, kinds, default values.\<close>

definition default_flags :: Flags where
  "default_flags = \<lparr>metricsAddr = ''0'', probeAddr = '':8081'', enableLeaderElection = False, secureMetrics = True,
     webhookCertPath = '''', webhookCertName = ''tls.crt'', webhookCertKey = ''tls.key'',
     metricsCertPath = '''', metricsCertName = ''tls.crt'', metricsCertKey = ''tls.key'', enableHTTP2 = False\<rparr>"

datatype flag_var =
    StringVar "string \<Rightarrow> Flags \<Rightarrow> Flags"
  | BoolVar "bool \<Rightarrow> Flags \<Rightarrow> Flags"
  | OtherVar bool

definition flag_table :: "(string \<times> flag_var) list" where
  "flag_table =
     [(''metrics-bind-address'', StringVar (\<lambda>v f. f\<lparr>metricsAddr := v\<rparr>)),
      (''health-probe-bind-address'', StringVar (\<lambda>v f. f\<lparr>probeAddr := v\<rparr>)),
      (''leader-elect'', BoolVar (\<lambda>v f. f\<lparr>enableLeaderElection := v\<rparr>)),
      (''metrics-secure'', BoolVar (\<lambda>v f. f\<lparr>secureMetrics := v\<rparr>)),
      (''webhook-cert-path'', StringVar (\<lambda>v f. f\<lparr>webhookCertPath := v\<rparr>)),
      (''webhook-cert-name'', StringVar (\<lambda>v f. f\<lparr>webhookCertName := v\<rparr>)),
      (''webhook-cert-key'', StringVar (\<lambda>v f. f\<lparr>webhookCertKey := v\<rparr>)),
      (''metrics-cert-path'', StringVar (\<lambda>v f. f\<lparr>metricsCertPath := v\<rparr>)),
      (''metrics-cert-name'', StringVar (\<lambda>v f. f\<lparr>metricsCertName := v\<rparr>)),
      (''metrics-cert-key'', StringVar (\<lambda>v f. f\<lparr>metricsCertKey := v\<rparr>)),
      (''enable-http2'', BoolVar (\<lambda>v f. f\<lparr>enableHTTP2 := v\<rparr>))]"

text \<open>The flags of the libraries: whether a name is one, and boolean; and whether it takes a value.\<close>

record other_flags =
  OtherFlag :: "string \<Rightarrow> bool option"
  SetOther :: "string \<Rightarrow> string \<Rightarrow> bool"

definition find_flag :: "other_flags \<Rightarrow> string \<Rightarrow> flag_var option" where
  "find_flag F name = (case map_of flag_table name of
     Some v \<Rightarrow> Some v
   | None \<Rightarrow> map_option OtherVar (OtherFlag F name))"

text \<open>\<open>strconv.ParseBool\<close>\<close>

definition ParseBool :: "string \<Rightarrow> bool option" where
  "ParseBool s =
     (if s \<in> set [''1'', ''t'', ''T'', ''TRUE'', ''true'', ''True''] then Some True
      else if s \<in> set [''0'', ''f'', ''F'', ''FALSE'', ''false'', ''False''] then Some False
      else None)"

datatype flag_error = BadSyntax string | Undefined string | HelpRequested | NeedsArgument string | InvalidValue string string

definition set_flag :: "other_flags \<Rightarrow> string \<Rightarrow> flag_var \<Rightarrow> string \<Rightarrow> Flags \<Rightarrow> flag_error + Flags" where
  "set_flag F name var v f = (case var of
     StringVar upd \<Rightarrow> Inr (upd v f)
   | BoolVar upd \<Rightarrow> (case ParseBool v of None \<Rightarrow> Inl (InvalidValue v name) | Some b \<Rightarrow> Inr (upd b f))
   | OtherVar _ \<Rightarrow> (if SetOther F name v then Inr f else Inl (InvalidValue v name)))"

fun is_bool_flag :: "flag_var \<Rightarrow> bool" where
  "is_bool_flag (StringVar _) = False"
| "is_bool_flag (BoolVar _) = True"
| "is_bool_flag (OtherVar b) = b"

text \<open>
  A name with a value after \<open>=\<close>, from the second character on, as the loop of the package
  looks for it.
\<close>

definition split_value :: "string \<Rightarrow> string \<times> string option" where
  "split_value s =
     (let rest = dropWhile (\<lambda>c. c \<noteq> CHR ''='') (tl s) in
      (hd s # takeWhile (\<lambda>c. c \<noteq> CHR ''='') (tl s), if rest = [] then None else Some (tl rest)))"

text \<open>\<open>flag.Parse\<close>: the flags in front, up to the first argument that is none.\<close>

fun flag_Parse :: "other_flags \<Rightarrow> string list \<Rightarrow> Flags \<Rightarrow> flag_error + Flags \<times> string list" where
  "flag_Parse F [] f = Inr (f, [])"
| "flag_Parse F (s # args) f =
     (if length s < 2 \<or> hd s \<noteq> CHR ''-'' then Inr (f, s # args)
      else if s = ''--'' then Inr (f, args)
      else
        (let name = (if s ! 1 = CHR ''-'' then drop 2 s else drop 1 s) in
         if name = [] \<or> hd name = CHR ''-'' \<or> hd name = CHR ''='' then Inl (BadSyntax s)
         else (case split_value name of (n, value) \<Rightarrow>
           case find_flag F n of
             None \<Rightarrow> (if n = ''help'' \<or> n = ''h'' then Inl HelpRequested else Inl (Undefined n))
           | Some var \<Rightarrow>
               (if is_bool_flag var then
                  (case set_flag F n var (case value of None \<Rightarrow> ''true'' | Some v \<Rightarrow> v) f of
                     Inl e \<Rightarrow> Inl e
                   | Inr f' \<Rightarrow> flag_Parse F args f')
                else
                  (case value of
                     Some v \<Rightarrow>
                       (case set_flag F n var v f of Inl e \<Rightarrow> Inl e | Inr f' \<Rightarrow> flag_Parse F args f')
                   | None \<Rightarrow>
                       (case args of
                          [] \<Rightarrow> Inl (NeedsArgument n)
                        | v # args' \<Rightarrow>
                            (case set_flag F n var v f of Inl e \<Rightarrow> Inl e | Inr f' \<Rightarrow> flag_Parse F args' f')))))))"

section \<open>The options of the manager\<close>

text \<open>A function that changes a TLS configuration; the program has one, \<open>disableHTTP2\<close>.\<close>

datatype tls_opt = DisableHTTP2

record tls_config =
  NextProtos :: "string list"

fun apply_tls :: "tls_opt \<Rightarrow> 'a tls_config_scheme \<Rightarrow> 'a tls_config_scheme" where
  "apply_tls DisableHTTP2 c = c\<lparr>NextProtos := [''http/1.1'']\<rparr>"

datatype filter_provider = WithAuthenticationAndAuthorization

record WebhookOptions =
  whTLSOpts :: "tls_opt list"
  whCertDir :: string
  whCertName :: string
  whKeyName :: string

record MetricsOptions =
  msBindAddress :: string
  msSecureServing :: bool
  msTLSOpts :: "tls_opt list"
  msFilterProvider :: "filter_provider option"
  msCertDir :: string
  msCertName :: string
  msKeyName :: string

record ManagerOptions =
  moMetrics :: MetricsOptions
  moWebhookServer :: WebhookOptions
  moHealthProbeBindAddress :: string
  moLeaderElection :: bool
  moLeaderElectionID :: string

definition tls_opts :: "Flags \<Rightarrow> tls_opt list" where
  "tls_opts f = (if \<not> enableHTTP2 f then [] @ [DisableHTTP2] else [])"

definition webhook_options :: "Flags \<Rightarrow> WebhookOptions" where
  "webhook_options f =
     (let o0 = \<lparr>whTLSOpts = tls_opts f, whCertDir = '''', whCertName = '''', whKeyName = ''''\<rparr> in
      if length (webhookCertPath f) > 0
      then o0\<lparr>whCertDir := webhookCertPath f, whCertName := webhookCertName f, whKeyName := webhookCertKey f\<rparr>
      else o0)"

definition metrics_options :: "Flags \<Rightarrow> MetricsOptions" where
  "metrics_options f =
     (let o0 = \<lparr>msBindAddress = metricsAddr f, msSecureServing = secureMetrics f, msTLSOpts = tls_opts f,
               msFilterProvider = None, msCertDir = '''', msCertName = '''', msKeyName = ''''\<rparr>;
          o1 = (if secureMetrics f then o0\<lparr>msFilterProvider := Some WithAuthenticationAndAuthorization\<rparr> else o0) in
      if length (metricsCertPath f) > 0
      then o1\<lparr>msCertDir := metricsCertPath f, msCertName := metricsCertName f, msKeyName := metricsCertKey f\<rparr>
      else o1)"

definition manager_options :: "Flags \<Rightarrow> ManagerOptions" where
  "manager_options f =
     \<lparr>moMetrics = metrics_options f, moWebhookServer = webhook_options f,
      moHealthProbeBindAddress = probeAddr f, moLeaderElection = enableLeaderElection f,
      moLeaderElectionID = ''7ce400a9.helmwarden.dev''\<rparr>"

section \<open>Putting the manager together\<close>

datatype setup_call =
    GetConfig
  | NewCtrlManager ManagerOptions
  | IndexField string
  | CompleteController string
  | CompleteWebhook
  | AddHealthzCheck string
  | AddReadyzCheck string
  | StartManager

datatype main_event = EvDir dir_event | EvSetup setup_call "go_error option"

record ('f, 'w) process =
  os_part :: "'f os"
  cluster :: 'w

type_synonym ('f, 'w, 'a) main_act = "(('f, 'w) process, main_event, 'a) act"

record ('f, 's, 'w) runtime =
  rtHost :: "('f, 's) host"
  rtFlags :: other_flags
  Setup :: "setup_call \<Rightarrow> 'w \<Rightarrow> go_error option \<times> 'w"

definition do_setup :: "('f, 's, 'w) runtime \<Rightarrow> setup_call \<Rightarrow> ('f, 'w, go_error option) main_act" where
  "do_setup R c = call (\<lambda>w. case Setup R c (cluster w) of (e, x) \<Rightarrow> (e, w\<lparr>cluster := x\<rparr>)) (EvSetup c)"

text \<open>The construction of the Helm manager, run on the process's own environment.\<close>

definition in_process :: "('f, 'a) os_act \<Rightarrow> ('f, 'w, 'a) main_act" where
  "in_process m = State (\<lambda>s. case run_state m \<lparr>world = os_part (world s), log = []\<rparr> of
     (a, t) \<Rightarrow> (a, s\<lparr>world := (world s)\<lparr>os_part := world t\<rparr>, log := log s @ map EvDir (log t)\<rparr>))"

definition SetupWithManager :: "('f, 's, 'w) runtime \<Rightarrow> ('f, 'w, go_error option) main_act" where
  "SetupWithManager R = do {
     e1 \<leftarrow> do_setup R (IndexField namespaceIndexKey);
     case e1 of
       Some err \<Rightarrow> ret (Some err)
     | None \<Rightarrow> do {
         e2 \<leftarrow> do_setup R (IndexField secretRefIndexKey);
         case e2 of
           Some err \<Rightarrow> ret (Some err)
         | None \<Rightarrow> do_setup R (CompleteController ''application'')
       }
   }"

text \<open>\<open>internal/webhook/v1alpha1\<close>: the builder's last call registers the validator.\<close>

definition SetupApplicationWebhookWithManager :: "('f, 's, 'w) runtime \<Rightarrow> ('f, 'w, go_error option) main_act" where
  "SetupApplicationWebhookWithManager R = do_setup R CompleteWebhook"

datatype outcome = Exit nat | Returned

text \<open>After a call that fails \<open>main\<close> logs the error and exits with 1; otherwise it goes on.\<close>

definition or_exit :: "('f, 'w, go_error option) main_act \<Rightarrow> ('f, 'w, outcome) main_act \<Rightarrow> ('f, 'w, outcome) main_act" where
  "or_exit m rest = do { e \<leftarrow> m; case e of Some _ \<Rightarrow> ret (Exit 1) | None \<Rightarrow> rest }"

definition serve :: "('f, 's, 'w) runtime \<Rightarrow> ('f, 'w, outcome) main_act" where
  "serve R =
     or_exit (do_setup R (AddHealthzCheck ''healthz''))
     (or_exit (do_setup R (AddReadyzCheck ''readyz''))
      (or_exit (do_setup R StartManager) (ret Returned)))"

definition run_main :: "('f, 's, 'w) runtime \<Rightarrow> 'c \<Rightarrow> Flags \<Rightarrow> ('f, 'w, outcome) main_act" where
  "run_main R cfg f =
     or_exit (do_setup R GetConfig)
     (or_exit (do_setup R (NewCtrlManager (manager_options f)))
      (do {
         helm \<leftarrow> in_process (NewManager (rtHost R) cfg);
         case helm of
           Inl _ \<Rightarrow> ret (Exit 1)
         | Inr _ \<Rightarrow>
             or_exit (SetupWithManager R)
             (do {
                webhooks \<leftarrow> peek (\<lambda>w. os_Getenv (environ (os_part w)) ''ENABLE_WEBHOOKS'');
                (if webhooks \<noteq> ''false'' then or_exit (SetupApplicationWebhookWithManager R) (serve R) else serve R)
              })
       }))"

text \<open>The command line is parsed with \<open>flag.ExitOnError\<close>: 0 after help, 2 after an error.\<close>

definition main :: "('f, 's, 'w) runtime \<Rightarrow> 'c \<Rightarrow> string list \<Rightarrow> ('f, 'w, outcome) main_act" where
  "main R cfg args = (case flag_Parse (rtFlags R) args default_flags of
     Inl HelpRequested \<Rightarrow> ret (Exit 0)
   | Inl _ \<Rightarrow> ret (Exit 2)
   | Inr (f, _) \<Rightarrow> run_main R cfg f)"

end
