(* ===== verification/DirFacts.thy ===== *)
theory DirFacts
  imports HelmDirs
begin

text \<open>
  What \<open>NewManager\<close> does to the process: where Helm's directories end up, that a second
  manager finds everything in place, and how a failure is reported.
\<close>

section \<open>The environment it leaves\<close>

definition range_dirs_law :: "('f, 's) host \<Rightarrow> bool" where
  "range_dirs_law L \<longleftrightarrow> distinct (map fst (RangeDirs L helm_dirs)) \<and> set (RangeDirs L helm_dirs) = set helm_dirs"

definition home_base :: "environ \<Rightarrow> string" where
  "home_base env = (if os_Getenv env ''HELM_HOME_BASE'' = '''' then Join [os_TempDir env, ''helm'']
     else os_Getenv env ''HELM_HOME_BASE'')"

definition with_dirs :: "string \<Rightarrow> (string \<times> string) list \<Rightarrow> environ \<Rightarrow> environ" where
  "with_dirs base dirs env = (\<lambda>v. case map_of dirs v of
     Some sub \<Rightarrow> if os_Getenv env v = '''' then Some (Join [base, sub]) else env v
   | None \<Rightarrow> env v)"

lemma with_dirs_Nil [simp]: "with_dirs base [] env = env"
  by (simp add: with_dirs_def)

lemma with_dirs_Cons:
  "v \<notin> fst ` set dirs \<Longrightarrow> with_dirs base ((v, sub) # dirs) env =
     with_dirs base dirs (if os_Getenv env v = '''' then env(v \<mapsto> Join [base, sub]) else env)"
proof -
  assume "v \<notin> fst ` set dirs"
  then have "map_of dirs v = None" by (simp add: map_of_eq_None_iff)
  then show ?thesis
    by (intro ext) (simp add: with_dirs_def os_Getenv_def split: option.split)
qed

lemma Setenv_None: "os_Setenv k v env = (None, env') \<Longrightarrow> env' = env(k \<mapsto> v)"
  by (simp add: os_Setenv_def split: if_splits)

lemma Setenv_Some: "os_Setenv k v env = (Some err, env') \<Longrightarrow> env' = env"
  by (simp add: os_Setenv_def split: if_splits)

lemma run_ensure:
  "run_state (ensureWritableHelmDirs L) s = run_state (dirs_loop L (home_base (environ (world s))) (RangeDirs L helm_dirs)) s"
  by (simp add: ensureWritableHelmDirs_def home_base_def)

fun made_dir :: "string \<Rightarrow> string \<times> string \<Rightarrow> dir_event" where
  "made_dir base (v, sub) = EvMkdirAll (Join [base, sub]) 493 None"

fun set_var :: "string \<Rightarrow> string \<times> string \<Rightarrow> dir_event" where
  "set_var base (v, sub) = EvSetenv v (Join [base, sub]) None"

text \<open>A pass of the loop over an unset variable, in its three outcomes.\<close>

lemma dirs_loop_skip:
  "os_Getenv (environ (world s)) v \<noteq> '''' \<Longrightarrow>
   run_state (dirs_loop L base ((v, sub) # rest)) s = run_state (dirs_loop L base rest) s"
  by simp

lemma dirs_loop_unset:
  assumes "os_Getenv (environ (world s)) v = ''''"
    "MkdirAll L (Join [base, sub]) 493 (fs (world s)) = (made, f)"
    "os_Setenv v (Join [base, sub]) (environ (world s)) = (put, env)"
  shows "run_state (dirs_loop L base ((v, sub) # rest)) s =
    (let s1 = s\<lparr>world := (world s)\<lparr>fs := f\<rparr>, log := log s @ [EvMkdirAll (Join [base, sub]) 493 made]\<rparr>;
         s2 = s1\<lparr>world := (world s1)\<lparr>environ := env\<rparr>, log := log s1 @ [EvSetenv v (Join [base, sub]) put]\<rparr> in
     case made of
       Some err \<Rightarrow> (Some (Errorf (''create helm dir '' @ fmt_q (Join [base, sub]) @ '': '') (Some err)), s1)
     | None \<Rightarrow> (case put of
         Some err \<Rightarrow> (Some (Errorf (''set '' @ v @ '': '') (Some err)), s2)
       | None \<Rightarrow> run_state (dirs_loop L base rest) s2))"
  using assms by (simp add: do_MkdirAll_def do_Setenv_def Let_def split: option.split)

definition unset :: "environ \<Rightarrow> (string \<times> string) list \<Rightarrow> (string \<times> string) list" where
  "unset env dirs = filter (\<lambda>d. os_Getenv env (fst d) = '''') dirs"

lemma unset_simps [simp]:
  "unset env [] = []"
  "unset env ((v, sub) # dirs) = (if os_Getenv env v = '''' then (v, sub) # unset env dirs else unset env dirs)"
  by (simp_all add: unset_def)

lemma unset_other: "v \<notin> fst ` set dirs \<Longrightarrow> unset (env(v \<mapsto> x)) dirs = unset env dirs"
  unfolding unset_def by (rule filter_cong) (auto simp: os_Getenv_def)

abbreviation dir_events :: "string \<Rightarrow> (string \<times> string) list \<Rightarrow> dir_event list" where
  "dir_events base dirs \<equiv> concat (map (\<lambda>d. [made_dir base d, set_var base d]) dirs)"

lemma dirs_loop_done:
  "run_state (dirs_loop L base dirs) s = (None, s') \<Longrightarrow> distinct (map fst dirs) \<Longrightarrow>
   environ (world s') = with_dirs base dirs (environ (world s)) \<and>
   log s' = log s @ dir_events base (unset (environ (world s)) dirs)"
proof (induction dirs arbitrary: s)
  case (Cons d dirs)
  obtain v sub where d: "d = (v, sub)" by fastforce
  have new: "v \<notin> fst ` set dirs" "distinct (map fst dirs)" using Cons.prems(2) d by auto
  show ?case
  proof (cases "os_Getenv (environ (world s)) v = ''''")
    case False
    then show ?thesis
      using Cons.IH [of s] Cons.prems(1) new unfolding d dirs_loop_skip [OF False] with_dirs_Cons [OF new(1)]
      by simp
  next
    case True
    obtain made f where m: "MkdirAll L (Join [base, sub]) 493 (fs (world s)) = (made, f)" by fastforce
    obtain put env where p: "os_Setenv v (Join [base, sub]) (environ (world s)) = (put, env)" by fastforce
    have ok: "made = None" "put = None"
      using Cons.prems(1) unfolding d dirs_loop_unset [OF True m p] by (auto simp: Let_def split: option.splits)
    note env = Setenv_None [OF p [unfolded ok]]
    let ?s = "s\<lparr>world := (world s)\<lparr>fs := f, environ := env\<rparr>,
      log := log s @ [EvMkdirAll (Join [base, sub]) 493 None, EvSetenv v (Join [base, sub]) None]\<rparr>"
    have "run_state (dirs_loop L base dirs) ?s = (None, s')"
      using Cons.prems(1) unfolding d dirs_loop_unset [OF True m p] ok by (simp add: Let_def)
    from Cons.IH [OF this new(2)]
    have "environ (world s') = with_dirs base dirs env"
      "log s' = log s @ [EvMkdirAll (Join [base, sub]) 493 None, EvSetenv v (Join [base, sub]) None] @
        dir_events base (unset env dirs)"
      by simp_all
    then show ?thesis
      using True unfolding d with_dirs_Cons [OF new(1)] env unset_other [OF new(1)] by simp
  qed
qed simp

text \<open>A failing loop stops at the first call that fails, with everything before it done.\<close>

definition dir_failure :: "string \<Rightarrow> string \<Rightarrow> string \<Rightarrow> go_error \<Rightarrow> dir_event list \<Rightarrow> bool" where
  "dir_failure base v sub err es \<longleftrightarrow> (let dir = Join [base, sub] in \<exists>cause.
     (err = Errorf (''create helm dir '' @ fmt_q dir @ '': '') (Some cause) \<and> es = [EvMkdirAll dir 493 (Some cause)]) \<or>
     (err = Errorf (''set '' @ v @ '': '') (Some cause) \<and>
      es = [EvMkdirAll dir 493 None, EvSetenv v dir (Some cause)]))"

definition failed_at :: "string \<Rightarrow> (string \<times> string) list \<Rightarrow> go_error \<Rightarrow> environ \<Rightarrow> environ \<Rightarrow> dir_event list \<Rightarrow> bool" where
  "failed_at base dirs err env env' es \<longleftrightarrow> (\<exists>pre v sub rest last. dirs = pre @ (v, sub) # rest \<and>
     os_Getenv env v = '''' \<and> env' = with_dirs base pre env \<and> dir_failure base v sub err last \<and>
     es = dir_events base (unset env pre) @ last)"

lemma failed_here:
  "os_Getenv env v = '''' \<Longrightarrow> dir_failure base v sub err es \<Longrightarrow> failed_at base ((v, sub) # dirs) err env env es"
  unfolding failed_at_def by (rule exI [of _ "[]"]) auto

lemma failed_later:
  assumes "failed_at base dirs err env1 env' es" "v \<notin> fst ` set dirs"
    "env1 = (if os_Getenv env v = '''' then env(v \<mapsto> Join [base, sub]) else env)"
  shows "failed_at base ((v, sub) # dirs) err env env' (dir_events base (unset env [(v, sub)]) @ es)"
proof -
  obtain pre v' sub' rest last where h: "dirs = pre @ (v', sub') # rest" "os_Getenv env1 v' = ''''"
    "env' = with_dirs base pre env1" "dir_failure base v' sub' err last" "es = dir_events base (unset env1 pre) @ last"
    using assms(1) unfolding failed_at_def by blast
  have new: "v \<notin> fst ` set pre" "v' \<noteq> v" using assms(2) h(1) by auto
  have "os_Getenv env v' = ''''" using h(2) assms(3) new(2) by (simp add: os_Getenv_def split: if_splits)
  moreover have "env' = with_dirs base ((v, sub) # pre) env"
    using h(3) assms(3) by (simp add: with_dirs_Cons [OF new(1)])
  moreover have "unset env1 pre = unset env pre" using assms(3) unset_other [OF new(1)] by simp
  ultimately show ?thesis
    using h unfolding failed_at_def
    by (intro exI [of _ "(v, sub) # pre"] exI [of _ v'] exI [of _ sub'] exI [of _ rest] exI [of _ last]) simp
qed

lemma dirs_loop_failed:
  "run_state (dirs_loop L base dirs) s = (Some err, s') \<Longrightarrow> distinct (map fst dirs) \<Longrightarrow>
   \<exists>es. log s' = log s @ es \<and> failed_at base dirs err (environ (world s)) (environ (world s')) es"
proof (induction dirs arbitrary: s)
  case (Cons d dirs)
  obtain v sub where d: "d = (v, sub)" by fastforce
  have new: "v \<notin> fst ` set dirs" "distinct (map fst dirs)" using Cons.prems(2) d by auto
  show ?case
  proof (cases "os_Getenv (environ (world s)) v = ''''")
    case False
    have "run_state (dirs_loop L base dirs) s = (Some err, s')"
      using Cons.prems(1) unfolding d dirs_loop_skip [OF False] .
    from Cons.IH [OF this new(2)] show ?thesis
      using failed_later [OF _ new(1), where env = "environ (world s)" and sub = sub and base = base] False
      unfolding d by fastforce
  next
    case True
    obtain made f where m: "MkdirAll L (Join [base, sub]) 493 (fs (world s)) = (made, f)" by fastforce
    obtain put env where p: "os_Setenv v (Join [base, sub]) (environ (world s)) = (put, env)" by fastforce
    note step = dirs_loop_unset [OF True m p]
    consider cause where "made = Some cause" | cause where "made = None" "put = Some cause" | "made = None" "put = None"
      by (cases made; cases put) auto
    then show ?thesis
    proof cases
      case 1
      then have "environ (world s') = environ (world s)" "log s' = log s @ [EvMkdirAll (Join [base, sub]) 493 (Some cause)]"
        "dir_failure base v sub err [EvMkdirAll (Join [base, sub]) 493 (Some cause)]"
        using Cons.prems(1) unfolding d step by (auto simp: dir_failure_def Let_def)
      with failed_here [OF True] show ?thesis unfolding d by auto
    next
      case 2
      then have "environ (world s') = environ (world s)"
        "log s' = log s @ [EvMkdirAll (Join [base, sub]) 493 None, EvSetenv v (Join [base, sub]) (Some cause)]"
        "dir_failure base v sub err [EvMkdirAll (Join [base, sub]) 493 None, EvSetenv v (Join [base, sub]) (Some cause)]"
        using Cons.prems(1) Setenv_Some [of v _ _ cause env] p unfolding d step by (auto simp: dir_failure_def Let_def)
      with failed_here [OF True] show ?thesis unfolding d by auto
    next
      case 3
      then have env: "env = (environ (world s))(v \<mapsto> Join [base, sub])" using Setenv_None p by simp
      let ?s = "s\<lparr>world := (world s)\<lparr>fs := f, environ := env\<rparr>,
        log := log s @ [EvMkdirAll (Join [base, sub]) 493 None, EvSetenv v (Join [base, sub]) None]\<rparr>"
      have "run_state (dirs_loop L base dirs) ?s = (Some err, s')"
        using Cons.prems(1) 3 unfolding d step by (simp add: Let_def)
      from Cons.IH [OF this new(2)]
      obtain es where es: "log s' = log ?s @ es" "failed_at base dirs err env (environ (world s')) es" by auto
      from failed_later [OF es(2) new(1), of "environ (world s)" sub] True es(1) env show ?thesis
        unfolding d by auto
    qed
  qed
qed simp

section \<open>A manager\<close>

lemma helm_dirs_distinct: "distinct (map fst helm_dirs)"
  by (simp add: helm_dirs_def)

lemma with_dirs_order:
  assumes "range_dirs_law L"
  shows "with_dirs base (RangeDirs L helm_dirs) = with_dirs base helm_dirs"
proof -
  have "map_of (RangeDirs L helm_dirs) = map_of helm_dirs"
    using assms map_of_inject_set [OF _ helm_dirs_distinct] by (simp add: range_dirs_law_def)
  then show ?thesis by (simp add: with_dirs_def fun_eq_iff)
qed

lemma home_base_ne: "home_base env \<noteq> ''''"
proof -
  have t: "os_TempDir env \<noteq> ''''" "plain_name ''helm''" by (simp_all add: os_TempDir_def plain_name_def)
  show ?thesis unfolding home_base_def using Join_plain [OF t] by (simp add: Let_def join_on_snoc)
qed

lemma helm_dirs_plain: "(v, sub) \<in> set helm_dirs \<Longrightarrow> plain_name sub"
  by (auto simp: helm_dirs_def plain_name_def)

lemma helm_dir_ne: "(v, sub) \<in> set helm_dirs \<Longrightarrow> Join [home_base env, sub] \<noteq> ''''"
  using Join_plain [OF home_base_ne helm_dirs_plain, of v sub env] helm_dirs_plain [of v sub]
  by (auto simp: Let_def join_on_snoc plain_name_def)

lemma with_dirs_set:
  "(v, sub) \<in> set helm_dirs \<Longrightarrow> os_Getenv (with_dirs (home_base env) helm_dirs env) v =
     (if os_Getenv env v = '''' then Join [home_base env, sub] else os_Getenv env v)"
  using helm_dir_ne [of v sub env] by (simp add: with_dirs_def os_Getenv_def helm_dirs_distinct)

lemma NewManager_ok:
  assumes "range_dirs_law L" "run_state (NewManager L cfg) s = (Inr m, s')"
  shows "environ (world s') = with_dirs (home_base (environ (world s))) helm_dirs (environ (world s))"
    "log s' = log s @ dir_events (home_base (environ (world s)))
       (unset (environ (world s)) (RangeDirs L helm_dirs))"
    "m = \<lparr>mgrRestConfig = cfg, mgrSettings = CliNew L (environ (world s'))\<rparr>"
proof -
  have e: "run_state (ensureWritableHelmDirs L) s = (None, s')"
    and m: "m = \<lparr>mgrRestConfig = cfg, mgrSettings = CliNew L (environ (world s'))\<rparr>"
    using assms(2) by (auto simp: NewManager_def split: prod.splits option.splits)
  have "distinct (map fst (RangeDirs L helm_dirs))" using assms(1) by (simp add: range_dirs_law_def)
  from dirs_loop_done [OF e [unfolded run_ensure] this] m with_dirs_order [OF assms(1)]
  show "environ (world s') = with_dirs (home_base (environ (world s))) helm_dirs (environ (world s))"
    "log s' = log s @ dir_events (home_base (environ (world s))) (unset (environ (world s)) (RangeDirs L helm_dirs))"
    "m = \<lparr>mgrRestConfig = cfg, mgrSettings = CliNew L (environ (world s'))\<rparr>"
    by simp_all
qed

text \<open>
  C33. Helm finds writable homes: when \<open>NewManager\<close> succeeds, whatever order the map is iterated
  in, each of the three variables that was set keeps its value and each that was not names its
  own directory directly below the base, \<open>HELM_HOME_BASE\<close> or \<open>helm\<close> in the temporary
  directory, which was created before the variable was set; the three directories differ, no
  other variable changes, and Helm's settings are read from the environment as it is then.
\<close>

theorem helm_homes_are_writable:
  assumes "range_dirs_law L" "run_state (NewManager L cfg) s = (Inr m, s')"
  shows "let env = environ (world s); env' = environ (world s');
      base = (if os_Getenv env ''HELM_HOME_BASE'' = '''' then Join [os_TempDir env, ''helm''] else os_Getenv env ''HELM_HOME_BASE'');
      dir = (\<lambda>sub. Join [base, sub]) in
    m = \<lparr>mgrRestConfig = cfg, mgrSettings = CliNew L env'\<rparr> \<and>
    distinct (map dir [''cache'', ''config'', ''data'']) \<and>
    (\<forall>v. v \<notin> {''HELM_CACHE_HOME'', ''HELM_CONFIG_HOME'', ''HELM_DATA_HOME''} \<longrightarrow> env' v = env v) \<and>
    (\<exists>es. log s' = log s @ es \<and>
      (\<forall>(v, sub)\<in>{(''HELM_CACHE_HOME'', ''cache''), (''HELM_CONFIG_HOME'', ''config''), (''HELM_DATA_HOME'', ''data'')}.
        os_Getenv env' v \<noteq> '''' \<and>
        (if os_Getenv env v \<noteq> '''' then os_Getenv env' v = os_Getenv env v
         else os_Getenv env' v = dir sub \<and>
           (\<exists>pre post. es = pre @ [EvMkdirAll (dir sub) 493 None, EvSetenv v (dir sub) None] @ post))))"
proof -
  let ?env = "environ (world s)" and ?base = "home_base (environ (world s))"
  note ok = NewManager_ok [OF assms]
  have three: "{(''HELM_CACHE_HOME'', ''cache''), (''HELM_CONFIG_HOME'', ''config''), (''HELM_DATA_HOME'', ''data'')} = set helm_dirs"
    by (simp add: helm_dirs_def)
  have apart: "distinct (map (\<lambda>sub. Join [?base, sub]) [''cache'', ''config'', ''data''])"
  proof -
    have plain: "\<And>a. a \<in> {''cache'', ''config'', ''data''} \<Longrightarrow> plain_name a" by (auto simp: plain_name_def)
    have "inj_on (\<lambda>sub. Join [?base, sub]) {''cache'', ''config'', ''data''}"
      by (rule inj_onI, rule Join_plain_inject [OF home_base_ne plain plain])
    then show ?thesis unfolding distinct_map by simp
  qed
  have other: "environ (world s') v = ?env v" if "v \<notin> {''HELM_CACHE_HOME'', ''HELM_CONFIG_HOME'', ''HELM_DATA_HOME''}" for v
    using that by (simp add: ok(1) with_dirs_def helm_dirs_def)
  have made: "\<exists>pre post. dir_events ?base (unset ?env (RangeDirs L helm_dirs)) =
      pre @ [EvMkdirAll (Join [?base, sub]) 493 None, EvSetenv v (Join [?base, sub]) None] @ post"
    if "(v, sub) \<in> set helm_dirs" "os_Getenv ?env v = ''''" for v sub
  proof -
    have "(v, sub) \<in> set (unset ?env (RangeDirs L helm_dirs))"
      using that assms(1) by (simp add: unset_def range_dirs_law_def)
    then obtain xs ys where split: "unset ?env (RangeDirs L helm_dirs) = xs @ (v, sub) # ys" by (meson split_list)
    show ?thesis unfolding split
      by (intro exI [of _ "dir_events ?base xs"] exI [of _ "dir_events ?base ys"]) simp
  qed
  have each: "os_Getenv (environ (world s')) v \<noteq> '''' \<and>
      (if os_Getenv ?env v \<noteq> '''' then os_Getenv (environ (world s')) v = os_Getenv ?env v
       else os_Getenv (environ (world s')) v = Join [?base, sub] \<and>
         (\<exists>pre post. dir_events ?base (unset ?env (RangeDirs L helm_dirs)) =
            pre @ [EvMkdirAll (Join [?base, sub]) 493 None, EvSetenv v (Join [?base, sub]) None] @ post))"
    if d: "(v, sub) \<in> set helm_dirs" for v sub
    using with_dirs_set [OF d, of ?env] helm_dir_ne [OF d, of ?env] made [OF d] unfolding ok(1) by auto
  show ?thesis
    unfolding Let_def three home_base_def [symmetric]
    using ok(2,3) apart other each by blast
qed

text \<open>A host whose \<open>/ro\<close> cannot be written, and a process with one of the variables set.\<close>

definition demo_host :: "(string list, string list) host" where
  "demo_host = \<lparr>MkdirAll = (\<lambda>d _ f. if take 3 d = ''/ro'' then (Some (ExtErr OtherErr ''read-only file system''), f) else (None, d # f)),
     RangeDirs = rev,
     CliNew = (\<lambda>env. map (os_Getenv env) [''HELM_CACHE_HOME'', ''HELM_CONFIG_HOME'', ''HELM_DATA_HOME''])\<rparr>"

definition demo_process :: "(string \<times> string) list \<Rightarrow> (string list os, dir_event) st" where
  "demo_process vars = \<lparr>world = \<lparr>environ = map_of vars, fs = []\<rparr>, log = []\<rparr>"

lemma demo_range_dirs: "range_dirs_law demo_host"
  by (auto simp: range_dirs_law_def demo_host_def helm_dirs_def)

lemma demo_CliNew:
  "CliNew demo_host env = [os_Getenv env ''HELM_CACHE_HOME'', os_Getenv env ''HELM_CONFIG_HOME'', os_Getenv env ''HELM_DATA_HOME'']"
  by (simp add: demo_host_def)

theorem helm_homes_are_writable_witness:
  "\<exists>m. fst (run_state (NewManager demo_host ()) (demo_process [(''HELM_DATA_HOME'', ''/data'')])) = Inr m \<and>
     mgrSettings m = [''/tmp/helm/cache'', ''/tmp/helm/config'', ''/data'']"
proof -
  let ?s = "demo_process [(''HELM_DATA_HOME'', ''/data'')]"
  let ?run = "run_state (NewManager demo_host ()) ?s"
  have "\<not> isl (fst ?run)" by code_simp
  then obtain m where f: "fst ?run = Inr m" by (cases "fst ?run") auto
  then have m: "?run = (Inr m, snd ?run)" by (simp add: prod_eq_iff)
  have base: "Join [os_TempDir (environ (world ?s)), ''helm''] = ''/tmp/helm''"
    "os_Getenv (environ (world ?s)) ''HELM_HOME_BASE'' = ''''"
    "Join [''/tmp/helm'', ''cache''] = ''/tmp/helm/cache''" "Join [''/tmp/helm'', ''config''] = ''/tmp/helm/config''"
    "os_Getenv (environ (world ?s)) ''HELM_CACHE_HOME'' = ''''" "os_Getenv (environ (world ?s)) ''HELM_CONFIG_HOME'' = ''''"
    "os_Getenv (environ (world ?s)) ''HELM_DATA_HOME'' = ''/data''"
    by code_simp+
  from helm_homes_are_writable [OF demo_range_dirs m]
  have "m = \<lparr>mgrRestConfig = (), mgrSettings = CliNew demo_host (environ (world (snd ?run)))\<rparr> \<and>
    os_Getenv (environ (world (snd ?run))) ''HELM_CACHE_HOME'' = ''/tmp/helm/cache'' \<and>
    os_Getenv (environ (world (snd ?run))) ''HELM_CONFIG_HOME'' = ''/tmp/helm/config'' \<and>
    os_Getenv (environ (world (snd ?run))) ''HELM_DATA_HOME'' = ''/data''"
    unfolding Let_def by (auto simp: base)
  then have "mgrSettings m = [''/tmp/helm/cache'', ''/tmp/helm/config'', ''/data'']"
    by (simp add: demo_CliNew)
  with f show ?thesis by blast
qed

section \<open>Again, and when it fails\<close>

lemma dirs_loop_idle:
  "(\<forall>d\<in>set dirs. os_Getenv (environ (world s)) (fst d) \<noteq> '''') \<Longrightarrow> run_state (dirs_loop L base dirs) s = (None, s)"
  by (induction dirs) auto

text \<open>
  A second manager in the same process changes nothing: it creates no directory, sets no
  variable and reads the same settings.
\<close>

theorem second_manager_changes_nothing:
  assumes "range_dirs_law L" "run_state (NewManager L cfg) s = (Inr m, s')"
    "environ (world t) = environ (world s')"
  shows "run_state (NewManager L cfg') t = (Inr \<lparr>mgrRestConfig = cfg', mgrSettings = mgrSettings m\<rparr>, t)"
proof -
  note ok = NewManager_ok [OF assms(1,2)]
  have "os_Getenv (environ (world t)) (fst d) \<noteq> ''''" if "d \<in> set helm_dirs" for d
    using with_dirs_set [of "fst d" "snd d" "environ (world s)"] helm_dir_ne [of "fst d" "snd d"] that
    unfolding assms(3) ok(1) by (simp split: if_splits)
  then have "run_state (ensureWritableHelmDirs L) t = (None, t)"
    unfolding run_ensure using assms(1) by (intro dirs_loop_idle) (simp add: range_dirs_law_def)
  then show ?thesis using ok(3) assms(3) by (simp add: NewManager_def)
qed

theorem second_manager_changes_nothing_witness:
  "\<exists>s' m. run_state (NewManager demo_host (1::nat)) (demo_process []) = (Inr m, s') \<and>
     run_state (NewManager demo_host (2::nat)) s' = (Inr \<lparr>mgrRestConfig = 2, mgrSettings = mgrSettings m\<rparr>, s')"
proof -
  let ?run = "run_state (NewManager demo_host (1::nat)) (demo_process [])"
  have "\<not> isl (fst ?run)" by code_simp
  then obtain m where "fst ?run = Inr m" by (cases "fst ?run") auto
  then have m: "?run = (Inr m, snd ?run)" by (simp add: prod_eq_iff)
  from m second_manager_changes_nothing [OF demo_range_dirs m refl, of 2] show ?thesis by blast
qed

text \<open>
  A failure is reported as it happened: when \<open>NewManager\<close> fails, its error names the first
  directory that could not be created, or the variable that could not be set, and wraps the
  cause; that variable was not set before and is not set now, and nothing is tried after the
  failure.
\<close>

theorem helm_home_failure_is_reported:
  assumes "range_dirs_law L" "run_state (NewManager L cfg) s = (Inl err, s')"
  shows "\<exists>v sub cause pre. (v, sub) \<in> {(''HELM_CACHE_HOME'', ''cache''), (''HELM_CONFIG_HOME'', ''config''), (''HELM_DATA_HOME'', ''data'')} \<and>
    os_Getenv (environ (world s)) v = '''' \<and> environ (world s') v = environ (world s) v \<and>
    (let dir = Join [home_base (environ (world s)), sub] in
     log s' = log s @ pre @ [EvMkdirAll dir 493 (Some cause)] \<and>
       err = Errorf (''create helm dir '' @ fmt_q dir @ '': '') (Some cause) \<or>
     log s' = log s @ pre @ [EvMkdirAll dir 493 None, EvSetenv v dir (Some cause)] \<and>
       err = Errorf (''set '' @ v @ '': '') (Some cause))"
proof -
  have e: "run_state (ensureWritableHelmDirs L) s = (Some err, s')"
    using assms(2) by (auto simp: NewManager_def split: prod.splits option.splits)
  have d: "distinct (map fst (RangeDirs L helm_dirs))" using assms(1) by (simp add: range_dirs_law_def)
  from dirs_loop_failed [OF e [unfolded run_ensure] d]
  obtain es where es: "log s' = log s @ es" "failed_at (home_base (environ (world s))) (RangeDirs L helm_dirs) err
      (environ (world s)) (environ (world s')) es" by blast
  then obtain pre v sub rest last where h: "RangeDirs L helm_dirs = pre @ (v, sub) # rest"
    "os_Getenv (environ (world s)) v = ''''"
    "environ (world s') = with_dirs (home_base (environ (world s))) pre (environ (world s))"
    "dir_failure (home_base (environ (world s))) v sub err last"
    "es = dir_events (home_base (environ (world s))) (unset (environ (world s)) pre) @ last"
    unfolding failed_at_def by blast
  have "(v, sub) \<in> set helm_dirs" using assms(1) h(1) by (auto simp: range_dirs_law_def)
  then have "(v, sub) \<in> {(''HELM_CACHE_HOME'', ''cache''), (''HELM_CONFIG_HOME'', ''config''), (''HELM_DATA_HOME'', ''data'')}"
    by (simp add: helm_dirs_def)
  moreover have "environ (world s') v = environ (world s) v"
  proof -
    have "map_of pre v = None" using d h(1) by (auto simp: map_of_eq_None_iff)
    then show ?thesis by (simp add: h(3) with_dirs_def)
  qed
  moreover obtain cause where
    "err = Errorf (''create helm dir '' @ fmt_q (Join [home_base (environ (world s)), sub]) @ '': '') (Some cause) \<and>
       last = [EvMkdirAll (Join [home_base (environ (world s)), sub]) 493 (Some cause)] \<or>
     err = Errorf (''set '' @ v @ '': '') (Some cause) \<and>
       last = [EvMkdirAll (Join [home_base (environ (world s)), sub]) 493 None,
               EvSetenv v (Join [home_base (environ (world s)), sub]) (Some cause)]"
    using h(4) unfolding dir_failure_def Let_def by blast
  moreover have "log s' = log s @ dir_events (home_base (environ (world s))) (unset (environ (world s)) pre) @ last"
    using h(5) es(1) by simp
  ultimately show ?thesis
    using h(2) unfolding Let_def by blast
qed

theorem helm_home_failure_is_reported_witness:
  "\<exists>cause err. fst (run_state (NewManager demo_host ()) (demo_process [(''HELM_HOME_BASE'', ''/ro'')])) = Inl err \<and>
     error_text err \<noteq> error_text cause \<and> errors_Is err OtherErr = errors_Is cause OtherErr"
proof -
  let ?run = "run_state (NewManager demo_host ()) (demo_process [(''HELM_HOME_BASE'', ''/ro'')])"
  have "isl (fst ?run)" by code_simp
  then obtain err where f: "fst ?run = Inl err" by (cases "fst ?run") auto
  then have e: "?run = (Inl err, snd ?run)" by (simp add: prod_eq_iff)
  from helm_home_failure_is_reported [OF demo_range_dirs e]
  obtain v dir cause where "err = Errorf (''create helm dir '' @ fmt_q dir @ '': '') (Some cause) \<or>
      err = Errorf (''set '' @ v @ '': '') (Some cause)"
    unfolding Let_def by blast
  then obtain prefix where "err = Errorf prefix (Some cause)" "prefix \<noteq> ''''" by auto
  then show ?thesis using f by (intro exI [of _ cause] exI [of _ err]) simp
qed

end
