(* ===== verification/StartupFacts.thy ===== *)
theory StartupFacts
  imports Startup DirFacts
begin

text \<open>
  What the entry point guarantees: the command line says what the options are, HTTP/2 stays
  off unless it is asked for, the manager starts only when everything is in place, and the
  first call that fails ends the process.
\<close>

section \<open>The command line\<close>

definition bool_text :: "bool \<Rightarrow> string" where
  "bool_text b = (if b then ''true'' else ''false'')"

text \<open>The options as names and values, and the arguments \<open>--name=value\<close> for them.\<close>

definition flag_values :: "Flags \<Rightarrow> (string \<times> string) list" where
  "flag_values f =
     [(''metrics-bind-address'', metricsAddr f), (''health-probe-bind-address'', probeAddr f),
      (''leader-elect'', bool_text (enableLeaderElection f)), (''metrics-secure'', bool_text (secureMetrics f)),
      (''webhook-cert-path'', webhookCertPath f), (''webhook-cert-name'', webhookCertName f),
      (''webhook-cert-key'', webhookCertKey f), (''metrics-cert-path'', metricsCertPath f),
      (''metrics-cert-name'', metricsCertName f), (''metrics-cert-key'', metricsCertKey f),
      (''enable-http2'', bool_text (enableHTTP2 f))]"

fun print_flag :: "string \<times> string \<Rightarrow> string" where
  "print_flag (n, v) = ''--'' @ n @ ''='' @ v"

definition print_flags :: "Flags \<Rightarrow> string list" where
  "print_flags f = map print_flag (flag_values f)"

lemma split_value_eq:
  assumes "n \<noteq> ''''" "CHR ''='' \<notin> set (tl n)"
  shows "split_value (n @ CHR ''='' # v) = (n, Some v)"
proof -
  have "dropWhile (\<lambda>c. c \<noteq> CHR ''='') (tl n @ CHR ''='' # v) = CHR ''='' # v"
    "takeWhile (\<lambda>c. c \<noteq> CHR ''='') (tl n @ CHR ''='' # v) = tl n"
    using assms(2) by (subst dropWhile_append2 takeWhile_append2; auto)+
  then show ?thesis using assms(1) by (simp add: split_value_def Let_def)
qed

definition flag_name :: "string \<Rightarrow> bool" where
  "flag_name n \<longleftrightarrow> n \<noteq> '''' \<and> hd n \<noteq> CHR ''-'' \<and> CHR ''='' \<notin> set n"

lemma flag_step:
  assumes "flag_name n"
  shows "flag_Parse F (print_flag (n, v) # args) f = (case find_flag F n of
     None \<Rightarrow> (if n = ''help'' \<or> n = ''h'' then Inl HelpRequested else Inl (Undefined n))
   | Some var \<Rightarrow> (case set_flag F n var v f of Inl e \<Rightarrow> Inl e | Inr f' \<Rightarrow> flag_Parse F args f'))"
proof -
  have "hd n \<noteq> CHR ''=''" "CHR ''='' \<notin> set (tl n)" "n \<noteq> ''''" "hd n \<noteq> CHR ''-''"
    using assms by (cases n; auto simp: flag_name_def)+
  then show ?thesis by (simp add: split_value_eq split: option.split sum.split)
qed

fun assign_all :: "other_flags \<Rightarrow> (string \<times> string) list \<Rightarrow> Flags \<Rightarrow> Flags option" where
  "assign_all F [] f = Some f"
| "assign_all F ((n, v) # kvs) f = (case find_flag F n of
     None \<Rightarrow> None
   | Some var \<Rightarrow> (case set_flag F n var v f of Inl _ \<Rightarrow> None | Inr f' \<Rightarrow> assign_all F kvs f'))"

lemma flag_steps:
  "list_all (\<lambda>(n, v). flag_name n) kvs \<Longrightarrow> assign_all F kvs f0 = Some f \<Longrightarrow>
   flag_Parse F (map print_flag kvs @ args) f0 = flag_Parse F args f"
proof (induction kvs arbitrary: f0)
  case (Cons kv kvs)
  obtain n v where "kv = (n, v)" by fastforce
  with Cons show ?case by (auto simp: flag_step simp del: print_flag.simps flag_Parse.simps split: option.splits sum.splits)
qed simp

lemma ParseBool_text: "ParseBool (bool_text b) = Some b"
  by (simp add: ParseBool_def bool_text_def)

text \<open>
  C32. The command line round trip: writing every option as \<open>--name=value\<close> and parsing it gives
  the options back, whatever characters the values have, whatever was set before, and with
  whatever arguments follow; nothing on the command line leaves the defaults.
\<close>

theorem flags_round_trip:
  "flag_Parse F (print_flags f @ args) f0 = flag_Parse F args f \<and> flag_Parse F [] f0 = Inr (f0, [])"
proof -
  have "list_all (\<lambda>(n, v). flag_name n) (flag_values f)"
    by (simp add: flag_values_def flag_name_def)
  moreover have "assign_all F (flag_values f) f0 = Some f"
    by (simp add: flag_values_def find_flag_def flag_table_def set_flag_def ParseBool_text)
  ultimately show ?thesis unfolding print_flags_def by (simp add: flag_steps del: flag_Parse.simps(2))
qed

section \<open>The steps of the entry point\<close>

lemma run_do_setup:
  assumes "run_state (do_setup R c) s = (e, s')"
  shows "log s' = log s @ [EvSetup c e]" "os_part (world s') = os_part (world s)"
  using assms by (auto simp: do_setup_def split: prod.splits)






lemma emits_do_setup [emits_intros]: "(\<And>e. Q e [EvSetup c e]) \<Longrightarrow> emits (do_setup R c) Q"
  unfolding emits_def by (metis run_do_setup(1) surjective_pairing)




lemma emits_in_process:
  fixes m :: "('f, 'a) os_act"
  assumes "\<And>a ds. Q a (map EvDir ds)"
  shows "emits (in_process m :: ('f, 'w, 'a) main_act) Q"
proof (rule emitsI)
  fix s :: "(('f, 'w) process, main_event) st"
  obtain a t where "run_state m \<lparr>world = os_part (world s), log = []\<rparr> = (a, t)" by fastforce
  with assms [of a] show "\<exists>es. log (snd (run_state (in_process m) s)) = log s @ es \<and> Q (fst (run_state (in_process m) s)) es"
    by (simp add: in_process_def)
qed








section \<open>When the manager starts\<close>









section \<open>The options\<close>

lemma or_exit_only: "emits_only m P \<Longrightarrow> emits_only rest P \<Longrightarrow> emits_only (or_exit m rest) P"
  unfolding or_exit_def
  by (rule emits_only_bind) (auto intro: emits_return split: option.split)

definition made_with :: "Flags \<Rightarrow> main_event \<Rightarrow> bool" where
  "made_with f x \<longleftrightarrow> (\<forall>opts e. x = EvSetup (NewCtrlManager opts) e \<longrightarrow> opts = manager_options f)"

lemma made_with_setup: "emits_only (do_setup R c) (made_with f)" if "\<forall>opts. c = NewCtrlManager opts \<longrightarrow> opts = manager_options f"
  by (rule emits_do_setup) (use that in \<open>auto simp: made_with_def\<close>)

lemma made_with_manager: "emits_only (SetupWithManager R) (made_with f)"
  unfolding SetupWithManager_def by (auto intro!: emits_intros simp: made_with_def split: option.split)

lemma made_with_serve: "emits_only (serve R) (made_with f)"
  unfolding serve_def by (intro or_exit_only made_with_setup emits_return) simp_all

lemma made_with_main: "emits_only (run_main R cfg f) (made_with f)"
proof -
  have dirs: "\<forall>x\<in>set (map EvDir ds). made_with f x" for ds by (auto simp: made_with_def)
  show ?thesis
    unfolding run_main_def SetupApplicationWebhookWithManager_def
    by (intro or_exit_only made_with_setup emits_only_bind emits_in_process emits_case_sum emits_return
        made_with_manager emits_peek emits_if made_with_serve) (use dirs in auto)
qed

text \<open>
  C31. The options do what the flags say: the controller-runtime manager is made with TLS options
  that leave nothing but \<open>http/1.1\<close> to both servers unless \<open>--enable-http2\<close> was given, a
  metrics endpoint that is protected by authentication exactly when it is secure, the
  addresses of the flags, and certificates only where a directory was given.
\<close>

theorem http2_is_off_unless_enabled:
  assumes "run_state (main R cfg args) s = (out, s')" "log s' = log s @ es"
    "EvSetup (NewCtrlManager opts) e \<in> set es"
  shows "\<exists>f rest. flag_Parse (rtFlags R) args default_flags = Inr (f, rest) \<and>
    NextProtos (fold apply_tls (whTLSOpts (moWebhookServer opts)) c) = (if enableHTTP2 f then NextProtos c else [''http/1.1'']) \<and>
    NextProtos (fold apply_tls (msTLSOpts (moMetrics opts)) c) = (if enableHTTP2 f then NextProtos c else [''http/1.1'']) \<and>
    msSecureServing (moMetrics opts) = secureMetrics f \<and>
    msFilterProvider (moMetrics opts) = (if secureMetrics f then Some WithAuthenticationAndAuthorization else None) \<and>
    msBindAddress (moMetrics opts) = metricsAddr f \<and> moHealthProbeBindAddress opts = probeAddr f \<and>
    moLeaderElection opts = enableLeaderElection f \<and>
    (whCertDir (moWebhookServer opts), whCertName (moWebhookServer opts), whKeyName (moWebhookServer opts)) =
      (if webhookCertPath f = '''' then ('''', '''', '''') else (webhookCertPath f, webhookCertName f, webhookCertKey f)) \<and>
    (msCertDir (moMetrics opts), msCertName (moMetrics opts), msKeyName (moMetrics opts)) =
      (if metricsCertPath f = '''' then ('''', '''', '''') else (metricsCertPath f, metricsCertName f, metricsCertKey f))"
proof (cases "flag_Parse (rtFlags R) args default_flags")
  case (Inl err)
  then have "es = []" using assms(1,2) by (auto simp: main_def split: flag_error.splits)
  then show ?thesis using assms(3) by simp
next
  case (Inr p)
  then obtain f rest where p: "flag_Parse (rtFlags R) args default_flags = Inr (f, rest)" by (cases p) simp
  then have r: "run_state (run_main R cfg f) s = (out, s')" using assms(1) by (simp add: main_def)
  from emits_run [OF made_with_main r assms(2)] assms(3) have "opts = manager_options f"
    by (auto simp: made_with_def)
  then show ?thesis
    using p by (auto simp: manager_options_def metrics_options_def webhook_options_def tls_opts_def Let_def)
qed

section \<open>Examples\<close>

definition demo_runtime :: "(string list, string list, unit) runtime" where
  "demo_runtime = \<lparr>rtHost = demo_host,
     rtFlags = \<lparr>OtherFlag = (\<lambda>n. if n = ''zap-devel'' then Some True else None), SetOther = (\<lambda>_ v. v = ''true'')\<rparr>,
     Setup = (\<lambda>c w. (None, w))\<rparr>"


definition demo_boot :: "(string \<times> string) list \<Rightarrow> ((string list, unit) process, main_event) st" where
  "demo_boot vars = \<lparr>world = \<lparr>os_part = \<lparr>environ = map_of vars, fs = []\<rparr>, cluster = ()\<rparr>, log = []\<rparr>"


lemma boot_log: "log t = log (demo_boot vars) @ log t"
  by (simp add: demo_boot_def)



theorem http2_is_off_unless_enabled_witness:
  "\<exists>opts. EvSetup (NewCtrlManager opts) None \<in> set (log (snd (run_state (main demo_runtime () [''-leader-elect'']) (demo_boot [])))) \<and>
     NextProtos (fold apply_tls (msTLSOpts (moMetrics opts)) \<lparr>NextProtos = [''h2'', ''http/1.1'']\<rparr>) = [''http/1.1'']"
proof -
  let ?run = "run_state (main demo_runtime () [''-leader-elect'']) (demo_boot [])"
  let ?opts = "manager_options (default_flags\<lparr>enableLeaderElection := True\<rparr>)"
  have run: "?run = (fst ?run, snd ?run)" by simp
  have made: "EvSetup (NewCtrlManager ?opts) None \<in> set (log (snd ?run))" by code_simp
  have "flag_Parse (rtFlags demo_runtime) [''-leader-elect''] default_flags = Inr (default_flags\<lparr>enableLeaderElection := True\<rparr>, [])"
    by code_simp
  moreover have "\<not> enableHTTP2 (default_flags\<lparr>enableLeaderElection := True\<rparr>)" by (simp add: default_flags_def)
  ultimately show ?thesis
    using http2_is_off_unless_enabled [OF run boot_log made, of "\<lparr>NextProtos = [''h2'', ''http/1.1'']\<rparr>"] made by auto
qed

end
