(* ===== verification/RestClientGetter.thy ===== *)
theory RestClientGetter
  imports Trace
begin

text \<open>
  \<open>internal/helm/restclientgetter.go\<close>: the getter through which Helm reaches the cluster. A
  \<open>*rest.Config\<close> is an address into a store of configurations, because the getter's copy and
  the manager's original must not be confused. The constructors of client-go
  (\<open>CopyConfig\<close>, the discovery client, its cache, the REST mapper) are parameters.

  \<open>ToRESTMapper\<close> comes twice: as one call, the way one goroutine sees it, and as the steps
  several goroutines take on the shared getter, with the mutex between them.
\<close>

section \<open>The store and the getter\<close>

type_synonym addr = nat

type_synonym 'c config_store = "addr \<Rightarrow> 'c option"

record restClientGetter =
  restConfig :: addr
  gNamespace :: string

text \<open>What lives behind the getter's mutex, \<open>mapper\<close>, and the world outside.\<close>

record ('m, 'w) shared =
  mapper :: "'m option"
  outside :: 'w

record ('c, 'd, 'k, 'm, 'w) client_go =
  CopyConfig :: "'c \<Rightarrow> 'c"
  NewDiscoveryClientForConfig :: "'c \<Rightarrow> 'w \<Rightarrow> (go_error + 'd) \<times> 'w"
  NewMemCacheClient :: "'d \<Rightarrow> 'k"
  NewDeferredDiscoveryRESTMapper :: "'k \<Rightarrow> 'w \<Rightarrow> 'm \<times> 'w"

text \<open>\<open>newRESTClientGetter\<close> puts a copy of the configuration at an address nobody has.\<close>

definition newRESTClientGetter ::
  "('c, 'd, 'k, 'm, 'w) client_go \<Rightarrow> addr \<Rightarrow> string \<Rightarrow> addr \<Rightarrow> 'c config_store \<Rightarrow> (restClientGetter \<times> 'c config_store) option"
  where
  "newRESTClientGetter K cfg namespace fresh store =
     (case store cfg of
        None \<Rightarrow> None
      | Some c \<Rightarrow> Some (\<lparr>restConfig = fresh, gNamespace = namespace\<rparr>, store(fresh \<mapsto> CopyConfig K c)))"

definition ToRESTConfig :: "restClientGetter \<Rightarrow> addr \<times> go_error option" where
  "ToRESTConfig g = (restConfig g, None)"

text \<open>The loader carries an empty kubeconfig and one override: the context's namespace.\<close>

record ConfigOverrides =
  ctxNamespace :: string

record ClientConfig =
  baseClusters :: "string list"
  baseContexts :: "string list"
  configOverrides :: ConfigOverrides

definition ToRawKubeConfigLoader :: "restClientGetter \<Rightarrow> ClientConfig" where
  "ToRawKubeConfigLoader g =
     \<lparr>baseClusters = [], baseContexts = [], configOverrides = \<lparr>ctxNamespace = gNamespace g\<rparr>\<rparr>"

section \<open>One call\<close>

text \<open>The configuration \<open>c\<close> is what the getter's address holds.\<close>

definition ToDiscoveryClient ::
  "('c, 'd, 'k, 'm, 'w) client_go \<Rightarrow> 'c \<Rightarrow> 'w \<Rightarrow> (go_error + 'k) \<times> 'w" where
  "ToDiscoveryClient K c w =
     (case NewDiscoveryClientForConfig K c w of
        (Inl err, w') \<Rightarrow> (Inl err, w')
      | (Inr dc, w') \<Rightarrow> (Inr (NewMemCacheClient K dc), w'))"

definition ToRESTMapper ::
  "('c, 'd, 'k, 'm, 'w) client_go \<Rightarrow> 'c \<Rightarrow> ('m, 'w) shared \<Rightarrow> (go_error + 'm) \<times> ('m, 'w) shared" where
  "ToRESTMapper K c g =
     (case mapper g of
        Some m \<Rightarrow> (Inr m, g)
      | None \<Rightarrow>
          (case ToDiscoveryClient K c (outside g) of
             (Inl err, w) \<Rightarrow> (Inl err, g\<lparr>outside := w\<rparr>)
           | (Inr dc, w) \<Rightarrow>
               (case NewDeferredDiscoveryRESTMapper K dc w of
                  (m, w') \<Rightarrow> (Inr m, g\<lparr>mapper := Some m, outside := w'\<rparr>))))"

section \<open>Many calls at once\<close>

text \<open>
  Where a goroutine stands in \<open>ToRESTMapper\<close>: before \<open>mu.Lock\<close>, at the test of \<open>mapper\<close>, before
  the discovery client, with the client and before the mapper is stored, and before the
  deferred \<open>mu.Unlock\<close>.
\<close>

datatype ('k, 'm) pc =
    Idle
  | Locking
  | Testing
  | Connecting
  | Storing 'k
  | Unlocking "go_error + 'm"

type_synonym thread = nat

record ('k, 'm, 'w) getter_state =
  mu :: "thread option"
  shared :: "('m, 'w) shared"
  pcs :: "thread \<Rightarrow> ('k, 'm) pc"
  returned :: "(thread \<times> (go_error + 'm)) list"

text \<open>\<open>returned\<close> is a ghost: the calls that have returned, with their answers, in their order.\<close>

definition goto :: "thread \<Rightarrow> ('k, 'm) pc \<Rightarrow> ('k, 'm, 'w) getter_state \<Rightarrow> ('k, 'm, 'w) getter_state" where
  "goto t p s = s\<lparr>pcs := (pcs s)(t := p)\<rparr>"

lemma goto_simps [simp]:
  "mu (goto t p s) = mu s" "shared (goto t p s) = shared s" "returned (goto t p s) = returned s"
  "pcs (goto t p s) = (pcs s)(t := p)"
  by (simp_all add: goto_def)

inductive mapper_step ::
  "('c, 'd, 'k, 'm, 'w) client_go \<Rightarrow> 'c \<Rightarrow> thread \<Rightarrow> ('k, 'm, 'w) getter_state \<Rightarrow> ('k, 'm, 'w) getter_state \<Rightarrow> bool"
  for K c t where
  enter: "pcs s t = Idle \<Longrightarrow> mapper_step K c t s (goto t Locking s)"
| lock: "pcs s t = Locking \<Longrightarrow> mu s = None \<Longrightarrow> mapper_step K c t s (goto t Testing (s\<lparr>mu := Some t\<rparr>))"
| hit: "pcs s t = Testing \<Longrightarrow> mapper (shared s) = Some m \<Longrightarrow> mapper_step K c t s (goto t (Unlocking (Inr m)) s)"
| miss: "pcs s t = Testing \<Longrightarrow> mapper (shared s) = None \<Longrightarrow> mapper_step K c t s (goto t Connecting s)"
| refused: "pcs s t = Connecting \<Longrightarrow> ToDiscoveryClient K c (outside (shared s)) = (Inl err, w) \<Longrightarrow>
    mapper_step K c t s (goto t (Unlocking (Inl err)) (s\<lparr>shared := (shared s)\<lparr>outside := w\<rparr>\<rparr>))"
| connect: "pcs s t = Connecting \<Longrightarrow> ToDiscoveryClient K c (outside (shared s)) = (Inr dc, w) \<Longrightarrow>
    mapper_step K c t s (goto t (Storing dc) (s\<lparr>shared := (shared s)\<lparr>outside := w\<rparr>\<rparr>))"
| build: "pcs s t = Storing dc \<Longrightarrow> NewDeferredDiscoveryRESTMapper K dc (outside (shared s)) = (m, w) \<Longrightarrow>
    mapper_step K c t s (goto t (Unlocking (Inr m)) (s\<lparr>shared := \<lparr>mapper = Some m, outside = w\<rparr>\<rparr>))"
| unlock: "pcs s t = Unlocking a \<Longrightarrow>
    mapper_step K c t s (goto t Idle (s\<lparr>mu := None, returned := returned s @ [(t, a)]\<rparr>))"

text \<open>An execution, from a fresh getter, by any goroutines in any order.\<close>

definition fresh_getter :: "'w \<Rightarrow> ('k, 'm, 'w) getter_state" where
  "fresh_getter w = \<lparr>mu = None, shared = \<lparr>mapper = None, outside = w\<rparr>, pcs = (\<lambda>_. Idle), returned = []\<rparr>"

inductive reachable ::
  "('c, 'd, 'k, 'm, 'w) client_go \<Rightarrow> 'c \<Rightarrow> 'w \<Rightarrow> ('k, 'm, 'w) getter_state \<Rightarrow> bool" for K c w0 where
  start: "reachable K c w0 (fresh_getter w0)"
| step: "reachable K c w0 s \<Longrightarrow> mapper_step K c t s s' \<Longrightarrow> reachable K c w0 s'"

section \<open>The calls one after the other\<close>

fun calls ::
  "('c, 'd, 'k, 'm, 'w) client_go \<Rightarrow> 'c \<Rightarrow> nat \<Rightarrow> ('m, 'w) shared \<Rightarrow> (go_error + 'm) list \<times> ('m, 'w) shared" where
  "calls K c 0 g = ([], g)"
| "calls K c (Suc n) g =
     (case calls K c n g of (as, g1) \<Rightarrow>
      case ToRESTMapper K c g1 of (a, g2) \<Rightarrow> (as @ [a], g2))"

fun critical :: "('k, 'm) pc \<Rightarrow> bool" where
  "critical Idle = False"
| "critical Locking = False"
| "critical _ = True"

text \<open>
  What the goroutine that holds the mutex has done so far of its call, which began in the
  state \<open>g\<close>.
\<close>

fun progress :: "('c, 'd, 'k, 'm, 'w) client_go \<Rightarrow> 'c \<Rightarrow> ('m, 'w) shared \<Rightarrow> ('k, 'm) pc \<Rightarrow> ('m, 'w) shared \<Rightarrow> bool" where
  "progress K c g Testing g' \<longleftrightarrow> g' = g"
| "progress K c g Connecting g' \<longleftrightarrow> g' = g \<and> mapper g = None"
| "progress K c g (Storing dc) g' \<longleftrightarrow> mapper g = None \<and>
     (\<exists>w. ToDiscoveryClient K c (outside g) = (Inr dc, w) \<and> g' = g\<lparr>outside := w\<rparr>)"
| "progress K c g (Unlocking a) g' \<longleftrightarrow> ToRESTMapper K c g = (a, g')"
| "progress K c g _ g' \<longleftrightarrow> False"

text \<open>The invariant: the calls that returned ran one after the other, and at most one is inside.\<close>

definition sequential :: "('c, 'd, 'k, 'm, 'w) client_go \<Rightarrow> 'c \<Rightarrow> 'w \<Rightarrow> ('k, 'm, 'w) getter_state \<Rightarrow> bool" where
  "sequential K c w0 s \<longleftrightarrow> (\<exists>g.
     calls K c (length (returned s)) \<lparr>mapper = None, outside = w0\<rparr> = (map snd (returned s), g) \<and>
     (case mu s of
        None \<Rightarrow> shared s = g \<and> (\<forall>t. \<not> critical (pcs s t))
      | Some t \<Rightarrow> progress K c g (pcs s t) (shared s) \<and> (\<forall>t'. t' \<noteq> t \<longrightarrow> \<not> critical (pcs s t'))))"

lemma holder:
  assumes "sequential K c w0 s" "critical (pcs s t)"
  shows "mu s = Some t"
proof (cases "mu s")
  case None
  then show ?thesis using assms by (auto simp: sequential_def)
next
  case (Some t')
  then have "t \<noteq> t' \<Longrightarrow> \<not> critical (pcs s t)" using assms(1) by (auto simp: sequential_def)
  then show ?thesis using assms(2) Some by blast
qed

lemma sequential_step:
  assumes "mapper_step K c t s s'" "sequential K c w0 s"
  shows "sequential K c w0 s'"
  using assms(1)
proof cases
  case enter
  have "\<not> critical (pcs s t)" using enter by simp
  then have "mu s \<noteq> Some t" using assms(2) enter by (auto simp: sequential_def)
  then show ?thesis using assms(2) enter(1) by (fastforce simp: sequential_def split: option.splits)
next
  case lock
  then show ?thesis using assms(2) by (auto simp: sequential_def)
next
  case (hit m)
  have "mu s = Some t" using holder [OF assms(2)] hit(2) by simp
  then show ?thesis using assms(2) hit by (auto simp: sequential_def ToRESTMapper_def)
next
  case miss
  have "mu s = Some t" using holder [OF assms(2)] miss(2) by simp
  then show ?thesis using assms(2) miss by (auto simp: sequential_def)
next
  case (refused err w)
  have "mu s = Some t" using holder [OF assms(2)] refused(2) by simp
  then show ?thesis using assms(2) refused by (auto simp: sequential_def ToRESTMapper_def)
next
  case (connect dc w)
  have "mu s = Some t" using holder [OF assms(2)] connect(2) by simp
  then show ?thesis using assms(2) connect by (auto simp: sequential_def)
next
  case (build dc m w)
  have "mu s = Some t" using holder [OF assms(2)] build(2) by simp
  then show ?thesis using assms(2) build by (auto simp: sequential_def ToRESTMapper_def)
next
  case (unlock a)
  have "mu s = Some t" using holder [OF assms(2)] unlock(2) by simp
  then show ?thesis using assms(2) unlock by (auto simp: sequential_def)
qed

lemma reachable_sequential: "reachable K c w0 s \<Longrightarrow> sequential K c w0 s"
proof (induction rule: reachable.induct)
  case start
  show ?case by (simp add: sequential_def fresh_getter_def)
next
  case (step s t s')
  then show ?case by (blast intro: sequential_step)
qed

end
