(* ===== verification/GetterFacts.thy ===== *)
theory GetterFacts
  imports RestClientGetter
begin

text \<open>
  What the REST client getter promises Helm: concurrent calls behave like calls one after
  the other and share one mapper, no call is stuck behind the mutex, and the configuration
  of a getter is its own.
\<close>

section \<open>Concurrent calls\<close>

text \<open>
  C25. Concurrent calls of \<open>ToRESTMapper\<close> are sequential: whenever the mutex is free, the calls
  that have returned gave the answers, and left the getter and the outside in the state, of
  the same number of calls made one after the other from a fresh getter.
\<close>

theorem concurrent_calls_are_sequential:
  assumes "reachable K c w0 s" "mu s = None"
  shows "calls K c (length (returned s)) \<lparr>mapper = None, outside = w0\<rparr> = (map snd (returned s), shared s)"
  using reachable_sequential [OF assms(1)] assms(2) by (auto simp: sequential_def)

text \<open>Two goroutines of the demo: the second waits at the mutex while the first builds the mapper.\<close>

definition demo_client_go :: "(string, string, string, string, nat) client_go" where
  "demo_client_go = \<lparr>CopyConfig = (\<lambda>c. c), NewDiscoveryClientForConfig = (\<lambda>c n. (Inr c, n)),
     NewMemCacheClient = (\<lambda>d. d), NewDeferredDiscoveryRESTMapper = (\<lambda>k n. (k, n + 1))\<rparr>"

definition demo_getter_end :: "(string, string, nat) getter_state" where
  "demo_getter_end =
     (let s1 = goto 1 Locking (goto 0 Locking (fresh_getter 0));
          s2 = goto 0 Testing (s1\<lparr>mu := Some 0\<rparr>);
          s3 = goto 0 Connecting s2;
          s4 = goto 0 (Storing ''cluster'') (s3\<lparr>shared := (shared s3)\<lparr>outside := 0\<rparr>\<rparr>);
          s5 = goto 0 (Unlocking (Inr ''cluster'')) (s4\<lparr>shared := \<lparr>mapper = Some ''cluster'', outside = 1\<rparr>\<rparr>);
          s6 = goto 0 Idle (s5\<lparr>mu := None, returned := returned s5 @ [(0, Inr ''cluster'')]\<rparr>);
          s7 = goto 1 Testing (s6\<lparr>mu := Some 1\<rparr>);
          s8 = goto 1 (Unlocking (Inr ''cluster'')) s7
      in goto 1 Idle (s8\<lparr>mu := None, returned := returned s8 @ [(1, Inr ''cluster'')]\<rparr>))"

lemma demo_getter_reachable: "reachable demo_client_go ''cluster'' 0 demo_getter_end"
  unfolding demo_getter_end_def Let_def
  by (rule step [OF _ unlock] step [OF _ hit] step [OF _ lock] step [OF _ build] step [OF _ connect]
      step [OF _ miss] step [OF _ enter] start |
      simp add: fresh_getter_def demo_client_go_def ToDiscoveryClient_def)+

theorem concurrent_calls_are_sequential_witness:
  "fst (calls demo_client_go ''cluster'' 2 \<lparr>mapper = None, outside = 0\<rparr>) = [Inr ''cluster'', Inr ''cluster'']"
proof -
  have "mu demo_getter_end = None" "map snd (returned demo_getter_end) = [Inr ''cluster'', Inr ''cluster'']"
    "length (returned demo_getter_end) = 2"
    by (simp_all add: demo_getter_end_def Let_def fresh_getter_def)
  with concurrent_calls_are_sequential [OF demo_getter_reachable] show ?thesis by simp
qed

section \<open>One mapper\<close>

lemma length_calls: "length (fst (calls K c n g)) = n"
  by (induction n) (auto split: prod.splits)

lemma calls_mapper:
  "j < n \<Longrightarrow> fst (calls K c n g) ! j = Inr m \<Longrightarrow> mapper (snd (calls K c n g)) = Some m"
proof (induction n)
  case (Suc n)
  obtain as g1 a g2 where c: "calls K c n g = (as, g1)" "ToRESTMapper K c g1 = (a, g2)" by fastforce
  have len: "length as = n" using length_calls [of K c n g] c(1) by simp
  show ?case
  proof (cases "j < n")
    case True
    then have "mapper g1 = Some m" using Suc c len by (simp add: nth_append)
    then show ?thesis using c by (auto simp: ToRESTMapper_def)
  next
    case False
    then have "a = Inr m" using Suc.prems c len by (simp add: nth_append less_Suc_eq)
    then show ?thesis using c by (auto simp: ToRESTMapper_def split: option.splits prod.splits sum.splits)
  qed
qed simp

lemma calls_stable:
  "i \<le> j \<Longrightarrow> j < n \<Longrightarrow> fst (calls K c n g) ! i = Inr m \<Longrightarrow> fst (calls K c n g) ! j = Inr m"
proof (induction n)
  case (Suc n)
  obtain as g1 a g2 where c: "calls K c n g = (as, g1)" "ToRESTMapper K c g1 = (a, g2)" by fastforce
  have len: "length as = n" using length_calls [of K c n g] c(1) by simp
  show ?case
  proof (cases "j < n")
    case True
    then show ?thesis using Suc c len by (simp add: nth_append)
  next
    case j: False
    show ?thesis
    proof (cases "i < n")
      case True
      then have "mapper g1 = Some m" using calls_mapper [OF True, of K c g m] Suc.prems(3) c len by (simp add: nth_append)
      then show ?thesis using j Suc.prems(2) c len by (auto simp: nth_append less_Suc_eq ToRESTMapper_def)
    next
      case False
      then have "i = j" using Suc.prems(1,2) j by simp
      then show ?thesis using Suc.prems(3) by simp
    qed
  qed
qed simp

lemma returned_calls:
  assumes "reachable K c w0 s"
  shows "fst (calls K c (length (returned s)) \<lparr>mapper = None, outside = w0\<rparr>) = map snd (returned s)"
  using reachable_sequential [OF assms] by (auto simp: sequential_def)

text \<open>
  C26. The mapper is cached for the getter's life: once one call of \<open>ToRESTMapper\<close> has returned a
  mapper, every call that returns later, in whatever goroutine, returns that same mapper and
  no error.
\<close>

theorem mapper_is_shared:
  assumes "reachable K c w0 s" "i \<le> j" "j < length (returned s)" "snd (returned s ! i) = Inr m"
  shows "snd (returned s ! j) = Inr m"
  using calls_stable [OF assms(2,3), of K c "\<lparr>mapper = None, outside = w0\<rparr>" m] assms(2-4)
  by (simp add: returned_calls [OF assms(1)])

theorem mapper_is_shared_witness: "snd (returned demo_getter_end ! 1) = Inr ''cluster''"
proof -
  have "returned demo_getter_end = [(0, Inr ''cluster''), (1, Inr ''cluster'')]"
    by (simp add: demo_getter_end_def Let_def fresh_getter_def)
  then show ?thesis
    using mapper_is_shared [OF demo_getter_reachable, of 0 1 "''cluster''"] by simp
qed

section \<open>No deadlock\<close>

text \<open>
  No call is stuck: as long as some goroutine is inside \<open>ToRESTMapper\<close>, one of the goroutines
  inside can take a step, since the mutex is free or its holder can go on, on the error path
  as well.
\<close>

theorem some_call_proceeds:
  assumes "reachable K c w0 s" "pcs s t \<noteq> Idle"
  shows "\<exists>t' s'. pcs s t' \<noteq> Idle \<and> mapper_step K c t' s s'"
proof -
  have inside: "\<exists>s'. mapper_step K c h s s'" if "critical (pcs s h)" for h
  proof (cases "pcs s h")
    case Testing
    then show ?thesis by (cases "mapper (shared s)") (blast intro: hit miss)+
  next
    case Connecting
    obtain a w where "ToDiscoveryClient K c (outside (shared s)) = (a, w)" by fastforce
    with Connecting show ?thesis by (cases a) (blast intro: refused connect)+
  next
    case (Storing dc)
    obtain m w where "NewDeferredDiscoveryRESTMapper K dc (outside (shared s)) = (m, w)" by fastforce
    with Storing show ?thesis by (blast intro: build)
  next
    case (Unlocking a)
    then show ?thesis by (blast intro: unlock)
  qed (use that in simp_all)
  have seq: "sequential K c w0 s" by (rule reachable_sequential [OF assms(1)])
  show ?thesis
  proof (cases "mu s")
    case None
    then have "\<not> critical (pcs s t)" using seq by (auto simp: sequential_def)
    then have "pcs s t = Locking" using assms(2) by (cases "pcs s t") simp_all
    from lock [where K = K and c = c, OF this None] assms(2) show ?thesis by blast
  next
    case (Some h)
    then obtain g where "progress K c g (pcs s h) (shared s)" using seq by (auto simp: sequential_def)
    then have "critical (pcs s h)" by (cases "pcs s h") simp_all
    then show ?thesis using inside [of h] by (intro exI [of _ h]) auto
  qed
qed

definition demo_waiting :: "(string, string, nat) getter_state" where
  "demo_waiting = goto 5 Locking (fresh_getter 0)"

theorem some_call_proceeds_witness:
  "\<exists>t' s'. pcs demo_waiting t' \<noteq> Idle \<and> mapper_step demo_client_go ''cluster'' t' demo_waiting s'"
proof -
  have "reachable demo_client_go ''cluster'' 0 demo_waiting"
    unfolding demo_waiting_def by (rule reachable.step [OF reachable.start enter]) (simp add: fresh_getter_def)
  moreover have "pcs demo_waiting 5 \<noteq> Idle" by (simp add: demo_waiting_def)
  ultimately show ?thesis by (rule some_call_proceeds)
qed

section \<open>A configuration of its own\<close>

text \<open>
  The getter's configuration is a copy: whatever is written later through the manager's
  pointer, the pointer the getter hands out still reads the copy that was made, and whatever
  is written through the getter's pointer leaves the manager's configuration alone. Helm's
  loader says the namespace the getter was made for.
\<close>

theorem getter_config_is_private:
  assumes "newRESTClientGetter K cfg ns fresh store = Some (g, store1)" "store fresh = None"
  shows "\<exists>c. store cfg = Some c \<and> fst (ToRESTConfig g) \<noteq> cfg \<and>
    (store1(cfg \<mapsto> x)) (fst (ToRESTConfig g)) = Some (CopyConfig K c) \<and>
    (store1(fst (ToRESTConfig g) \<mapsto> x)) cfg = Some c \<and>
    ctxNamespace (configOverrides (ToRawKubeConfigLoader g)) = ns"
  using assms by (auto simp: newRESTClientGetter_def ToRESTConfig_def ToRawKubeConfigLoader_def split: option.splits)

theorem getter_config_is_private_witness:
  "(([7 \<mapsto> ''in-cluster'', 8 \<mapsto> ''in-cluster''])((7::nat) \<mapsto> ''changed'')) 8 = Some ''in-cluster''"
proof -
  have "newRESTClientGetter demo_client_go 7 ''demo'' 8 [7 \<mapsto> ''in-cluster''] =
      Some (\<lparr>restConfig = 8, gNamespace = ''demo''\<rparr>, [7 \<mapsto> ''in-cluster'', 8 \<mapsto> ''in-cluster''])"
    by (simp add: newRESTClientGetter_def demo_client_go_def)
  from getter_config_is_private [OF this, of "''changed''"] show ?thesis
    by (auto simp: ToRESTConfig_def demo_client_go_def)
qed

end
