(* ===== verification/GetterProgress.thy ===== *)
theory GetterProgress
  imports GetterFacts "HOL-Library.Multiset"
begin

text \<open>
  Termination of the calls on the shared REST client getter: the goroutines that are inside
  \<open>ToRESTMapper\<close> take a bounded number of steps between them and all of them return.
\<close>

section \<open>The work that is left\<close>

definition inside :: "('k, 'm, 'w) getter_state \<Rightarrow> thread set" where
  "inside s = {t. pcs s t \<noteq> Idle}"

fun steps_left :: "('k, 'm) pc \<Rightarrow> nat" where
  "steps_left Idle = 0"
| "steps_left Locking = 5"
| "steps_left Testing = 4"
| "steps_left Connecting = 3"
| "steps_left (Storing _) = 2"
| "steps_left (Unlocking _) = 1"

definition work :: "('k, 'm, 'w) getter_state \<Rightarrow> nat" where
  "work s = (\<Sum>t\<in>inside s. steps_left (pcs s t))"

text \<open>A step of a goroutine that is inside: no new call begins.\<close>

definition own_step ::
  "('c, 'd, 'k, 'm, 'w) client_go \<Rightarrow> 'c \<Rightarrow> ('k, 'm, 'w) getter_state \<Rightarrow> ('k, 'm, 'w) getter_state \<Rightarrow> bool" where
  "own_step K c s s' \<longleftrightarrow> (\<exists>t. pcs s t \<noteq> Idle \<and> mapper_step K c t s s')"

lemma steps_left_le: "steps_left p \<le> 5"
  by (cases p) simp_all

text \<open>What one own step does: its goroutine comes nearer its end, and the last step returns.\<close>

lemma own_step_moves:
  assumes "mapper_step K c t s s'" "pcs s t \<noteq> Idle"
  shows "pcs s' = (pcs s)(t := pcs s' t)" "steps_left (pcs s' t) < steps_left (pcs s t)"
    "map fst (returned s') = map fst (returned s) @ (if pcs s' t = Idle then [t] else [])"
  using assms by (cases; simp)+

lemma inside_update: "pcs s' = (pcs s)(t := p) \<Longrightarrow> inside s' = (if p = Idle then inside s - {t} else insert t (inside s))"
  by (auto simp: inside_def)

lemma finite_inside: "reachable K c w0 s \<Longrightarrow> finite (inside s)"
proof (induction rule: reachable.induct)
  case start
  show ?case by (simp add: inside_def fresh_getter_def)
next
  case (step s t s')
  from step.hyps(2) have "\<exists>p. pcs s' = (pcs s)(t := p)" by cases auto
  then show ?case using step.IH by (auto simp: inside_update)
qed

lemma own_step_work:
  assumes "own_step K c s s'" "finite (inside s)"
  shows "work s' < work s"
proof -
  obtain t where t: "pcs s t \<noteq> Idle" "mapper_step K c t s s'" using assms(1) by (auto simp: own_step_def)
  obtain p where p: "pcs s' = (pcs s)(t := p)" "steps_left p < steps_left (pcs s t)"
    using own_step_moves(1,2) [OF t(2,1)] by blast
  have mem: "t \<in> inside s" using t(1) by (simp add: inside_def)
  have others: "(\<Sum>u\<in>inside s - {t}. steps_left (pcs s' u)) = (\<Sum>u\<in>inside s - {t}. steps_left (pcs s u))"
    by (rule sum.cong) (simp_all add: p(1))
  have old: "work s = steps_left (pcs s t) + (\<Sum>u\<in>inside s - {t}. steps_left (pcs s u))"
    unfolding work_def by (rule sum.remove [OF assms(2) mem])
  have "work s' = steps_left p + (\<Sum>u\<in>inside s - {t}. steps_left (pcs s u))"
  proof (cases "p = Idle")
    case True
    then show ?thesis using others by (simp add: work_def inside_update [OF p(1)])
  next
    case False
    then have "inside s' = inside s" using mem by (auto simp: inside_update [OF p(1)])
    then have "work s' = (\<Sum>u\<in>inside s. steps_left (pcs s' u))" by (simp add: work_def)
    also have "\<dots> = steps_left (pcs s' t) + (\<Sum>u\<in>inside s - {t}. steps_left (pcs s' u))"
      by (rule sum.remove [OF assms(2) mem])
    finally show ?thesis using others by (simp add: p(1))
  qed
  then show ?thesis using old p(2) by simp
qed

text \<open>Who is inside and who has returned: nobody is lost and nobody returns twice.\<close>

definition accounted :: "('k, 'm, 'w) getter_state \<Rightarrow> thread multiset" where
  "accounted s = mset (map fst (returned s)) + mset_set (inside s)"

lemma own_step_accounted:
  assumes "own_step K c s s'" "finite (inside s)"
  shows "accounted s' = accounted s"
proof -
  obtain t where t: "pcs s t \<noteq> Idle" "mapper_step K c t s s'" using assms(1) by (auto simp: own_step_def)
  obtain p where p: "pcs s' = (pcs s)(t := p)"
      "map fst (returned s') = map fst (returned s) @ (if p = Idle then [t] else [])"
    using own_step_moves(1,3) [OF t(2,1)] by blast
  have mem: "t \<in> inside s" using t(1) by (simp add: inside_def)
  show ?thesis
  proof (cases "p = Idle")
    case True
    have "mset_set (inside s) = add_mset t (mset_set (inside s - {t}))"
      using assms(2) mem by (rule mset_set.remove)
    then show ?thesis using True by (simp add: accounted_def p(2) inside_update [OF p(1)])
  next
    case False
    then have "inside s' = inside s" using mem by (auto simp: inside_update [OF p(1)])
    then show ?thesis using False by (simp add: accounted_def p(2))
  qed
qed

lemma own_step_reachable: "reachable K c w0 s \<Longrightarrow> own_step K c s s' \<Longrightarrow> reachable K c w0 s'"
  by (auto simp: own_step_def intro: reachable.step)

text \<open>A machine whose every step brings a rank down makes no more steps than its rank.\<close>

locale shrinking_machine =
  fixes step :: "'s \<Rightarrow> 's \<Rightarrow> bool" and inv :: "'s \<Rightarrow> bool" and rank :: "'s \<Rightarrow> nat"
  assumes inv_step: "step s t \<Longrightarrow> inv s \<Longrightarrow> inv t"
    and shrinks: "step s t \<Longrightarrow> inv s \<Longrightarrow> rank t < rank s"
begin

lemma runs_are_short: "(step ^^ n) s t \<Longrightarrow> inv s \<Longrightarrow> inv t \<and> n + rank t \<le> rank s"
proof (induction n arbitrary: t)
  case (Suc n)
  then obtain u where u: "(step ^^ n) s u" "step u t" by auto
  with Suc have "inv u" "n + rank u \<le> rank s" by blast+
  with inv_step [OF u(2)] shrinks [OF u(2)] show ?case by simp
qed simp

lemma comes_to_rest: "inv s \<Longrightarrow> \<exists>n t. (step ^^ n) s t \<and> (\<nexists>u. step t u)"
proof (induction "rank s" arbitrary: s rule: less_induct)
  case less
  show ?case
  proof (cases "\<exists>u. step s u")
    case True
    then obtain u where u: "step s u" by blast
    from less.hyps [OF shrinks [OF u less.prems] inv_step [OF u less.prems]] obtain n t
      where "(step ^^ n) u t" "\<nexists>v. step t v" by blast
    with relpowp_Suc_I2 [of step s u n t] u show ?thesis by blast
  next
    case False
    then show ?thesis by (intro exI [of _ 0] exI [of _ s]) simp
  qed
qed

end

interpretation getter: shrinking_machine "own_step K c" "reachable K c w0" work
  for K :: "('c, 'd, 'k, 'm, 'w) client_go" and c w0
  by unfold_locales (auto intro: own_step_reachable own_step_work finite_inside)

lemma own_steps_accounted:
  "(own_step K c ^^ n) s s' \<Longrightarrow> reachable K c w0 s \<Longrightarrow> accounted s' = accounted s"
proof (induction n arbitrary: s')
  case (Suc n)
  then obtain u where u: "(own_step K c ^^ n) s u" "own_step K c u s'" by auto
  have "finite (inside u)" by (rule finite_inside [OF conjunct1 [OF getter.runs_are_short [OF u(1) Suc.prems(2)]]])
  then show ?case using own_step_accounted [OF u(2)] Suc.IH [OF u(1) Suc.prems(2)] by simp
qed simp

lemma work_bound: "finite (inside s) \<Longrightarrow> work s \<le> 5 * card (inside s)"
  unfolding work_def using sum_bounded_above [of "inside s" "\<lambda>t. steps_left (pcs s t)" 5]
  by (simp add: steps_left_le mult.commute)

section \<open>Every call returns\<close>

lemma own_step_possible: "reachable K c w0 s \<Longrightarrow> inside s \<noteq> {} \<Longrightarrow> \<exists>s'. own_step K c s s'"
  using some_call_proceeds [of K c w0 s] by (auto simp: inside_def own_step_def) blast

text \<open>
  C27. Every call of \<open>ToRESTMapper\<close> returns, however the goroutines are interleaved and whether
  the discovery client is refused or not: the goroutines that are inside take at most five
  steps each before all have returned, from wherever they stand they can all get to their
  ends, none of them is stuck before that, and when none is inside any more each of them has
  returned exactly once.
\<close>

theorem calls_terminate:
  assumes "reachable K c w0 s" "(own_step K c ^^ n) s s'"
  shows "n \<le> 5 * card (inside s) \<and> (\<exists>m t. (own_step K c ^^ m) s' t \<and> inside t = {}) \<and>
    ((\<exists>s''. own_step K c s' s'') \<or>
     inside s' = {} \<and> mu s' = None \<and>
     mset (map fst (returned s')) = mset (map fst (returned s)) + mset_set (inside s))"
proof -
  have run: "reachable K c w0 s'" "n + work s' \<le> work s" "accounted s' = accounted s"
    using getter.runs_are_short [OF assms(2,1)] own_steps_accounted [OF assms(2,1)] by blast+
  have bound: "n \<le> 5 * card (inside s)"
    using run(2) work_bound [OF finite_inside [OF assms(1)]] by simp
  obtain m t where t: "(own_step K c ^^ m) s' t" "\<nexists>u. own_step K c t u"
    using getter.comes_to_rest [OF run(1)] by blast
  have "inside t = {}"
    using own_step_possible [OF conjunct1 [OF getter.runs_are_short [OF t(1) run(1)]]] t(2) by blast
  with t(1) have rest: "\<exists>m t. (own_step K c ^^ m) s' t \<and> inside t = {}" by blast
  show ?thesis
  proof (cases "inside s' = {}")
    case True
    then have idle: "pcs s' t = Idle" for t by (auto simp: inside_def)
    have "mu s' = None"
    proof (rule ccontr)
      assume "mu s' \<noteq> None"
      then obtain h where "mu s' = Some h" by blast
      then obtain g where "progress K c g (pcs s' h) (shared s')"
        using reachable_sequential [OF run(1)] by (auto simp: sequential_def)
      then show False by (simp add: idle)
    qed
    moreover have "mset (map fst (returned s')) = mset (map fst (returned s)) + mset_set (inside s)"
      using run(3) True unfolding accounted_def by simp
    ultimately show ?thesis using bound rest True by blast
  next
    case False
    then show ?thesis using bound rest own_step_possible [OF run(1)] by blast
  qed
qed

text \<open>Two goroutines at the mutex of the demo: eight steps later both have returned.\<close>

definition demo_queue :: "(string, string, nat) getter_state" where
  "demo_queue = goto 1 Locking (goto 0 Locking (fresh_getter 0))"

lemma demo_queue_reachable: "reachable demo_client_go ''cluster'' 0 demo_queue"
  unfolding demo_queue_def
  by (rule reachable.step [OF _ enter] reachable.start | simp add: fresh_getter_def)+

lemma demo_queue_steps: "(own_step demo_client_go ''cluster'' ^^ 8) demo_queue demo_getter_end"
proof -
  have own: "pcs s t \<noteq> Idle \<Longrightarrow> mapper_step K c t s s' \<Longrightarrow> (own_step K c ^^ n) s' u \<Longrightarrow>
      (own_step K c ^^ Suc n) s u" for K :: "(string, string, string, string, nat) client_go" and c t s s' n u
    by (rule relpowp_Suc_I2) (auto simp: own_step_def)
  have "(own_step demo_client_go ''cluster'' ^^ Suc (Suc (Suc (Suc (Suc (Suc (Suc (Suc 0)))))))) demo_queue demo_getter_end"
    unfolding demo_queue_def demo_getter_end_def Let_def
    apply (rule own [where t = 0, OF _ lock]; (simp add: fresh_getter_def; fail)?)
    apply (rule own [where t = 0, OF _ miss]; (simp add: fresh_getter_def; fail)?)
    apply (rule own [where t = 0, OF _ connect]; (simp add: fresh_getter_def demo_client_go_def ToDiscoveryClient_def; fail)?)
    apply (rule own [where t = 0, OF _ build]; (simp add: fresh_getter_def demo_client_go_def; fail)?)
    apply (rule own [where t = 0, OF _ unlock]; (simp add: fresh_getter_def; fail)?)
    apply (rule own [where t = 1, OF _ lock]; (simp add: fresh_getter_def; fail)?)
    apply (rule own [where t = 1, OF _ hit]; (simp add: fresh_getter_def; fail)?)
    apply (rule own [where t = 1, OF _ unlock]; (simp add: fresh_getter_def; fail)?)
    done
  then show ?thesis by (simp add: eval_nat_numeral)
qed

theorem calls_terminate_witness:
  "(8::nat) \<le> 5 * card (inside demo_queue) \<and> inside demo_getter_end = {} \<and>
   mset (map fst (returned demo_getter_end)) = {#0, 1#}"
proof -
  have empty: "inside demo_getter_end = {}"
    by (auto simp: inside_def demo_getter_end_def Let_def fresh_getter_def)
  then have stuck: "\<nexists>s''. own_step demo_client_go ''cluster'' demo_getter_end s''"
    by (auto simp: own_step_def inside_def)
  have two: "inside demo_queue = {0, 1}"
    by (auto simp: inside_def demo_queue_def fresh_getter_def)
  have "mset_set (inside demo_queue) = {#0, 1#}" "returned demo_queue = []"
    unfolding two by (simp_all add: demo_queue_def fresh_getter_def)
  then show ?thesis
    using calls_terminate [OF demo_queue_reachable demo_queue_steps] stuck empty by simp
qed

end
