(* ===== verification/DeepCopy.thy ===== *)
theory DeepCopy
  imports ApiTypes
begin

text \<open>
  The generated copies of the API types, \<open>api/v1alpha1/zz_generated.deepcopy.go\<close>. They are about
  sharing, so here the objects live in a store: a pointer is an address, a slice is a backing
  array with an offset and a length, \<open>new\<close> and \<open>make\<close> take the next free address. A Go struct
  is a record over the types of its pointers, so that the same record also describes the
  value a struct stands for, with the contents in the place of the addresses.

  The Kubernetes types are parameters, with their copies. A \<open>Condition\<close> and a \<open>Time\<close> hold nothing
  that is shared. An \<open>ObjectMeta\<close> and a \<open>ListMeta\<close> do: labels, annotations and finalizers, the
  deletion timestamp, the remaining item count. So the store has cells for what these point to,
  of a type that is a parameter too, and copying them is a function of these cells and of the next
  free address.
\<close>

section \<open>The store\<close>

type_synonym addr = nat

record slice =
  sArray :: addr
  sOffset :: nat
  sLen :: nat

record TypeMeta =
  tmKind :: string
  tmAPIVersion :: string

record 'r GoSpec =
  goChartName :: string
  goRepoURL :: string
  goVersion :: string
  goNamespace :: string
  goValuesSecretRef :: "'r option"
  goProgressDeadlineSeconds :: "32 word"

record ('c, 't) GoStatus =
  goPhase :: ApplicationPhase
  goConditions :: "'c option"
  goObservedGeneration :: int
  goHelmReleaseName :: string
  goHelmRevision :: int
  goLastAppliedValuesHash :: string
  goLastFailedRevision :: int
  goLastDeployStartTime :: "'t option"

record ('m, 'r, 'c, 't) GoApplication =
  goTypeMeta :: TypeMeta
  goObjectMeta :: 'm
  goSpec :: "'r GoSpec"
  goStatus :: "('c, 't) GoStatus"

record ('l, 'i) GoApplicationList =
  goListTypeMeta :: TypeMeta
  goListMeta :: 'l
  goItems :: "'i option"

type_synonym spec_struct = "addr GoSpec"
type_synonym status_struct = "(slice, addr) GoStatus"
type_synonym 'm app_struct = "('m, addr, slice, addr) GoApplication"
type_synonym 'l list_struct = "('l, slice) GoApplicationList"

record ('m, 'l, 'x) store =
  free :: addr
  refAt :: "addr \<Rightarrow> ValuesSecretRef"
  timeAt :: "addr \<Rightarrow> time"
  condsAt :: "addr \<Rightarrow> Condition list"
  itemsAt :: "addr \<Rightarrow> 'm app_struct list"
  specAt :: "addr \<Rightarrow> spec_struct"
  statusAt :: "addr \<Rightarrow> status_struct"
  appAt :: "addr \<Rightarrow> 'm app_struct"
  listAt :: "addr \<Rightarrow> 'l list_struct"
  k8sAt :: "addr \<Rightarrow> 'x"

text \<open>A Kubernetes copy, from the next free address and the Kubernetes cells to new ones.\<close>

type_synonym ('m, 'x) k8s_copy = "'m \<Rightarrow> addr \<Rightarrow> (addr \<Rightarrow> 'x) \<Rightarrow> 'm \<times> addr \<times> (addr \<Rightarrow> 'x)"

record ('m, 'l, 'x) k8s_copies =
  ObjectMetaCopy :: "('m, 'x) k8s_copy"
  ListMetaCopy :: "('l, 'x) k8s_copy"
  ConditionCopy :: "Condition \<Rightarrow> Condition"
  TimeCopy :: "time \<Rightarrow> time"
  ZeroCondition :: Condition
  ZeroApplication :: "'m app_struct"

text \<open>Taking the next address.\<close>

definition allocate :: "('m, 'l, 'x) store \<Rightarrow> addr \<times> ('m, 'l, 'x) store" where
  "allocate h = (free h, h\<lparr>free := free h + 1\<rparr>)"

text \<open>\<open>in.DeepCopyInto(&out)\<close> of a Kubernetes type, in the store.\<close>

definition k8s_DeepCopyInto :: "('a, 'x) k8s_copy \<Rightarrow> 'a \<Rightarrow> ('m, 'l, 'x) store \<Rightarrow> 'a \<times> ('m, 'l, 'x) store" where
  "k8s_DeepCopyInto copy in_m h =
     (case copy in_m (free h) (k8sAt h) of (out, n, cells) \<Rightarrow> (out, h\<lparr>free := n, k8sAt := cells\<rparr>))"

section \<open>The values secret reference\<close>

definition ref_DeepCopyInto :: "ValuesSecretRef \<Rightarrow> ValuesSecretRef" where
  "ref_DeepCopyInto in_v = in_v"

definition ref_DeepCopy :: "addr option \<Rightarrow> ('m, 'l, 'x) store \<Rightarrow> addr option \<times> ('m, 'l, 'x) store" where
  "ref_DeepCopy p h = (case p of
     None \<Rightarrow> (None, h)
   | Some a \<Rightarrow> (case allocate h of (out, h1) \<Rightarrow>
       (Some out, h1\<lparr>refAt := (refAt h1)(out := ref_DeepCopyInto (refAt h1 a))\<rparr>)))"

section \<open>The spec\<close>

definition spec_DeepCopyInto :: "spec_struct \<Rightarrow> ('m, 'l, 'x) store \<Rightarrow> spec_struct \<times> ('m, 'l, 'x) store" where
  "spec_DeepCopyInto in_s h =
     (let out = in_s in
      case goValuesSecretRef in_s of
        None \<Rightarrow> (out, h)
      | Some a \<Rightarrow> (case allocate h of (b, h1) \<Rightarrow>
          (out\<lparr>goValuesSecretRef := Some b\<rparr>, h1\<lparr>refAt := (refAt h1)(b := refAt h1 a)\<rparr>)))"

definition spec_DeepCopy :: "addr option \<Rightarrow> ('m, 'l, 'x) store \<Rightarrow> addr option \<times> ('m, 'l, 'x) store" where
  "spec_DeepCopy p h = (case p of
     None \<Rightarrow> (None, h)
   | Some a \<Rightarrow> (case allocate h of (out, h1) \<Rightarrow>
       case spec_DeepCopyInto (specAt h1 a) h1 of (v, h2) \<Rightarrow>
         (Some out, h2\<lparr>specAt := (specAt h2)(out := v)\<rparr>)))"

section \<open>The status\<close>

text \<open>The loop over the conditions: element \<open>i\<close> of the old array is copied into the new one.\<close>

fun cond_loop :: "('m, 'l, 'x) k8s_copies \<Rightarrow> slice \<Rightarrow> addr \<Rightarrow> nat list \<Rightarrow> ('m, 'l, 'x) store \<Rightarrow> ('m, 'l, 'x) store" where
  "cond_loop K in_s b [] h = h"
| "cond_loop K in_s b (i # is) h =
     cond_loop K in_s b is
       (h\<lparr>condsAt := (condsAt h)(b := (condsAt h b)
          [i := ConditionCopy K (condsAt h (sArray in_s) ! (sOffset in_s + i))])\<rparr>)"

definition conditions_DeepCopy ::
  "('m, 'l, 'x) k8s_copies \<Rightarrow> slice option \<Rightarrow> ('m, 'l, 'x) store \<Rightarrow> slice option \<times> ('m, 'l, 'x) store" where
  "conditions_DeepCopy K p h = (case p of
     None \<Rightarrow> (None, h)
   | Some in_s \<Rightarrow> (case allocate h of (b, h1) \<Rightarrow>
       let h2 = h1\<lparr>condsAt := (condsAt h1)(b := replicate (sLen in_s) (ZeroCondition K))\<rparr> in
       (Some \<lparr>sArray = b, sOffset = 0, sLen = sLen in_s\<rparr>, cond_loop K in_s b [0..<sLen in_s] h2)))"

definition time_DeepCopy ::
  "('m, 'l, 'x) k8s_copies \<Rightarrow> addr option \<Rightarrow> ('m, 'l, 'x) store \<Rightarrow> addr option \<times> ('m, 'l, 'x) store" where
  "time_DeepCopy K p h = (case p of
     None \<Rightarrow> (None, h)
   | Some a \<Rightarrow> (case allocate h of (b, h1) \<Rightarrow>
       (Some b, h1\<lparr>timeAt := (timeAt h1)(b := TimeCopy K (timeAt h1 a))\<rparr>)))"

definition status_DeepCopyInto ::
  "('m, 'l, 'x) k8s_copies \<Rightarrow> status_struct \<Rightarrow> ('m, 'l, 'x) store \<Rightarrow> status_struct \<times> ('m, 'l, 'x) store" where
  "status_DeepCopyInto K in_s h =
     (let out = in_s in
      case conditions_DeepCopy K (goConditions in_s) h of (cs, h1) \<Rightarrow>
      case time_DeepCopy K (goLastDeployStartTime in_s) h1 of (t, h2) \<Rightarrow>
        (out\<lparr>goConditions := cs, goLastDeployStartTime := t\<rparr>, h2))"

definition status_DeepCopy ::
  "('m, 'l, 'x) k8s_copies \<Rightarrow> addr option \<Rightarrow> ('m, 'l, 'x) store \<Rightarrow> addr option \<times> ('m, 'l, 'x) store" where
  "status_DeepCopy K p h = (case p of
     None \<Rightarrow> (None, h)
   | Some a \<Rightarrow> (case allocate h of (out, h1) \<Rightarrow>
       case status_DeepCopyInto K (statusAt h1 a) h1 of (v, h2) \<Rightarrow>
         (Some out, h2\<lparr>statusAt := (statusAt h2)(out := v)\<rparr>)))"

section \<open>The Application\<close>

definition app_DeepCopyInto ::
  "('m, 'l, 'x) k8s_copies \<Rightarrow> 'm app_struct \<Rightarrow> ('m, 'l, 'x) store \<Rightarrow> 'm app_struct \<times> ('m, 'l, 'x) store" where
  "app_DeepCopyInto K in_a h =
     (let out = in_a\<lparr>goTypeMeta := goTypeMeta in_a\<rparr> in
      case k8s_DeepCopyInto (ObjectMetaCopy K) (goObjectMeta in_a) h of (m, h1) \<Rightarrow>
      case spec_DeepCopyInto (goSpec in_a) h1 of (sp, h2) \<Rightarrow>
      case status_DeepCopyInto K (goStatus in_a) h2 of (st, h3) \<Rightarrow>
        (out\<lparr>goObjectMeta := m, goSpec := sp, goStatus := st\<rparr>, h3))"

definition app_DeepCopy ::
  "('m, 'l, 'x) k8s_copies \<Rightarrow> addr option \<Rightarrow> ('m, 'l, 'x) store \<Rightarrow> addr option \<times> ('m, 'l, 'x) store" where
  "app_DeepCopy K p h = (case p of
     None \<Rightarrow> (None, h)
   | Some a \<Rightarrow> (case allocate h of (out, h1) \<Rightarrow>
       case app_DeepCopyInto K (appAt h1 a) h1 of (v, h2) \<Rightarrow>
         (Some out, h2\<lparr>appAt := (appAt h2)(out := v)\<rparr>)))"

definition app_DeepCopyObject ::
  "('m, 'l, 'x) k8s_copies \<Rightarrow> addr option \<Rightarrow> ('m, 'l, 'x) store \<Rightarrow> addr option \<times> ('m, 'l, 'x) store" where
  "app_DeepCopyObject K p h = (case app_DeepCopy K p h of
     (Some c, h1) \<Rightarrow> (Some c, h1)
   | (None, h1) \<Rightarrow> (None, h1))"

section \<open>The list\<close>

fun item_loop :: "('m, 'l, 'x) k8s_copies \<Rightarrow> slice \<Rightarrow> addr \<Rightarrow> nat list \<Rightarrow> ('m, 'l, 'x) store \<Rightarrow> ('m, 'l, 'x) store" where
  "item_loop K in_s b [] h = h"
| "item_loop K in_s b (i # is) h =
     (case app_DeepCopyInto K (itemsAt h (sArray in_s) ! (sOffset in_s + i)) h of (v, h1) \<Rightarrow>
      item_loop K in_s b is (h1\<lparr>itemsAt := (itemsAt h1)(b := (itemsAt h1 b)[i := v])\<rparr>))"

definition items_DeepCopy ::
  "('m, 'l, 'x) k8s_copies \<Rightarrow> slice option \<Rightarrow> ('m, 'l, 'x) store \<Rightarrow> slice option \<times> ('m, 'l, 'x) store" where
  "items_DeepCopy K p h = (case p of
     None \<Rightarrow> (None, h)
   | Some in_s \<Rightarrow> (case allocate h of (b, h1) \<Rightarrow>
       let h2 = h1\<lparr>itemsAt := (itemsAt h1)(b := replicate (sLen in_s) (ZeroApplication K))\<rparr> in
       (Some \<lparr>sArray = b, sOffset = 0, sLen = sLen in_s\<rparr>, item_loop K in_s b [0..<sLen in_s] h2)))"

definition list_DeepCopyInto ::
  "('m, 'l, 'x) k8s_copies \<Rightarrow> 'l list_struct \<Rightarrow> ('m, 'l, 'x) store \<Rightarrow> 'l list_struct \<times> ('m, 'l, 'x) store" where
  "list_DeepCopyInto K in_l h =
     (let out = in_l\<lparr>goListTypeMeta := goListTypeMeta in_l\<rparr> in
      case k8s_DeepCopyInto (ListMetaCopy K) (goListMeta in_l) h of (m, h1) \<Rightarrow>
      case items_DeepCopy K (goItems in_l) h1 of (items, h2) \<Rightarrow>
        (out\<lparr>goListMeta := m, goItems := items\<rparr>, h2))"

definition list_DeepCopy ::
  "('m, 'l, 'x) k8s_copies \<Rightarrow> addr option \<Rightarrow> ('m, 'l, 'x) store \<Rightarrow> addr option \<times> ('m, 'l, 'x) store" where
  "list_DeepCopy K p h = (case p of
     None \<Rightarrow> (None, h)
   | Some a \<Rightarrow> (case allocate h of (out, h1) \<Rightarrow>
       case list_DeepCopyInto K (listAt h1 a) h1 of (v, h2) \<Rightarrow>
         (Some out, h2\<lparr>listAt := (listAt h2)(out := v)\<rparr>)))"

definition list_DeepCopyObject ::
  "('m, 'l, 'x) k8s_copies \<Rightarrow> addr option \<Rightarrow> ('m, 'l, 'x) store \<Rightarrow> addr option \<times> ('m, 'l, 'x) store" where
  "list_DeepCopyObject K p h = (case list_DeepCopy K p h of
     (Some c, h1) \<Rightarrow> (Some c, h1)
   | (None, h1) \<Rightarrow> (None, h1))"

end
