(* ===== verification/DeepCopyFacts.thy ===== *)
theory DeepCopyFacts
  imports DeepCopy
begin

text \<open>
  What the generated copies are for: the copy stands for the same value, and the copy and the
  original share no cell of the store. The client hands the reconciler such copies of what
  its cache holds, so that what the reconciler does to an Application in place stays its own.
\<close>

section \<open>What a struct stands for\<close>

definition read_slice :: "(addr \<Rightarrow> 'e list) \<Rightarrow> slice \<Rightarrow> 'e list" where
  "read_slice cells s = take (sLen s) (drop (sOffset s) (cells (sArray s)))"

definition read_spec :: "('m, 'l, 'x) store \<Rightarrow> spec_struct \<Rightarrow> ValuesSecretRef GoSpec" where
  "read_spec h s = \<lparr>goChartName = goChartName s, goRepoURL = goRepoURL s, goVersion = goVersion s,
     goNamespace = goNamespace s, goValuesSecretRef = map_option (refAt h) (goValuesSecretRef s),
     goProgressDeadlineSeconds = goProgressDeadlineSeconds s\<rparr>"

definition read_status :: "('m, 'l, 'x) store \<Rightarrow> status_struct \<Rightarrow> (Condition list, time) GoStatus" where
  "read_status h s = \<lparr>goPhase = goPhase s, goConditions = map_option (read_slice (condsAt h)) (goConditions s),
     goObservedGeneration = goObservedGeneration s, goHelmReleaseName = goHelmReleaseName s,
     goHelmRevision = goHelmRevision s, goLastAppliedValuesHash = goLastAppliedValuesHash s,
     goLastFailedRevision = goLastFailedRevision s,
     goLastDeployStartTime = map_option (timeAt h) (goLastDeployStartTime s)\<rparr>"

text \<open>
  Of the metadata, given the cells of the Kubernetes types: the addresses an \<open>ObjectMeta\<close> or a
  \<open>ListMeta\<close> reaches, and the value it stands for.
\<close>

record ('m, 'l, 'x, 'v) k8s_reading =
  MetaReach :: "'m \<Rightarrow> (addr \<Rightarrow> 'x) \<Rightarrow> addr set"
  MetaValue :: "'m \<Rightarrow> (addr \<Rightarrow> 'x) \<Rightarrow> 'v"
  ListReach :: "'l \<Rightarrow> (addr \<Rightarrow> 'x) \<Rightarrow> addr set"
  ListValue :: "'l \<Rightarrow> (addr \<Rightarrow> 'x) \<Rightarrow> 'v"

type_synonym 'v app_value = "('v, ValuesSecretRef, Condition list, time) GoApplication"

definition read_app :: "('m, 'l, 'x, 'v) k8s_reading \<Rightarrow> ('m, 'l, 'x) store \<Rightarrow> 'm app_struct \<Rightarrow> 'v app_value" where
  "read_app R h a = \<lparr>goTypeMeta = goTypeMeta a, goObjectMeta = MetaValue R (goObjectMeta a) (k8sAt h),
     goSpec = read_spec h (goSpec a), goStatus = read_status h (goStatus a)\<rparr>"

definition read_list ::
  "('m, 'l, 'x, 'v) k8s_reading \<Rightarrow> ('m, 'l, 'x) store \<Rightarrow> 'l list_struct \<Rightarrow> ('v, 'v app_value list) GoApplicationList" where
  "read_list R h l = \<lparr>goListTypeMeta = goListTypeMeta l, goListMeta = ListValue R (goListMeta l) (k8sAt h),
     goItems = map_option (\<lambda>s. map (read_app R h) (read_slice (itemsAt h) s)) (goItems l)\<rparr>"

section \<open>Pointers that are allocated, and pointers that are fresh\<close>

text \<open>
  \<open>within P\<close> says that every address a struct reaches satisfies \<open>P\<close>; slices must also lie
  inside their arrays.
\<close>

definition slice_in :: "(addr \<Rightarrow> bool) \<Rightarrow> (addr \<Rightarrow> 'e list) \<Rightarrow> slice \<Rightarrow> bool" where
  "slice_in P cells s \<longleftrightarrow> P (sArray s) \<and> sOffset s + sLen s \<le> length (cells (sArray s))"

definition spec_in :: "(addr \<Rightarrow> bool) \<Rightarrow> spec_struct \<Rightarrow> bool" where
  "spec_in P s \<longleftrightarrow> pred_option P (goValuesSecretRef s)"

definition status_in :: "(addr \<Rightarrow> bool) \<Rightarrow> ('m, 'l, 'x) store \<Rightarrow> status_struct \<Rightarrow> bool" where
  "status_in P h s \<longleftrightarrow> pred_option (slice_in P (condsAt h)) (goConditions s) \<and> pred_option P (goLastDeployStartTime s)"

definition app_in ::
  "('m, 'l, 'x, 'v) k8s_reading \<Rightarrow> (addr \<Rightarrow> bool) \<Rightarrow> ('m, 'l, 'x) store \<Rightarrow> 'm app_struct \<Rightarrow> bool" where
  "app_in R P h a \<longleftrightarrow> Ball (MetaReach R (goObjectMeta a) (k8sAt h)) P \<and> spec_in P (goSpec a) \<and>
     status_in P h (goStatus a)"

definition list_in ::
  "('m, 'l, 'x, 'v) k8s_reading \<Rightarrow> (addr \<Rightarrow> bool) \<Rightarrow> ('m, 'l, 'x) store \<Rightarrow> 'l list_struct \<Rightarrow> bool" where
  "list_in R P h l \<longleftrightarrow> Ball (ListReach R (goListMeta l) (k8sAt h)) P \<and>
     pred_option (\<lambda>s. slice_in P (itemsAt h) s \<and> list_all (app_in R P h) (read_slice (itemsAt h) s)) (goItems l)"

lemmas in_defs = slice_in_def spec_in_def status_in_def app_in_def
lemmas read_defs = read_slice_def read_spec_def read_status_def read_app_def

definition same_on :: "(addr \<Rightarrow> bool) \<Rightarrow> ('m, 'l, 'x) store \<Rightarrow> ('m, 'l, 'x) store \<Rightarrow> bool" where
  "same_on P h h' \<longleftrightarrow> (\<forall>p. P p \<longrightarrow> refAt h' p = refAt h p \<and> timeAt h' p = timeAt h p \<and>
     condsAt h' p = condsAt h p \<and> itemsAt h' p = itemsAt h p \<and> specAt h' p = specAt h p \<and>
     statusAt h' p = statusAt h p \<and> appAt h' p = appAt h p \<and> listAt h' p = listAt h p \<and> k8sAt h' p = k8sAt h p)"

lemma same_on_refl [simp]: "same_on P h h"
  by (simp add: same_on_def)

section \<open>What the Kubernetes copies promise\<close>

text \<open>
  What metadata reaches and stands for depends on the cells it reaches only. A copy of metadata
  whose cells are allocated leaves these as they are, reaches new cells only and stands for the same
  value. A \<open>Condition\<close> or a \<open>Time\<close> is copied as it is.
\<close>

definition k8s_law :: "('a, 'x) k8s_copy \<Rightarrow> ('a \<Rightarrow> (addr \<Rightarrow> 'x) \<Rightarrow> addr set) \<Rightarrow> ('a \<Rightarrow> (addr \<Rightarrow> 'x) \<Rightarrow> 'v) \<Rightarrow> bool" where
  "k8s_law copy reach val \<longleftrightarrow>
     (\<forall>m cells cells'. (\<forall>a\<in>reach m cells. cells' a = cells a) \<longrightarrow>
        reach m cells' = reach m cells \<and> val m cells' = val m cells) \<and>
     (\<forall>m n cells m' n' cells'. (\<forall>a\<in>reach m cells. a < n) \<longrightarrow> copy m n cells = (m', n', cells') \<longrightarrow>
        n \<le> n' \<and> (\<forall>a<n. cells' a = cells a) \<and> (\<forall>a\<in>reach m' cells'. n \<le> a \<and> a < n') \<and>
        val m' cells' = val m cells)"

definition copies_law :: "('m, 'l, 'x) k8s_copies \<Rightarrow> ('m, 'l, 'x, 'v) k8s_reading \<Rightarrow> bool" where
  "copies_law K R \<longleftrightarrow> k8s_law (ObjectMetaCopy K) (MetaReach R) (MetaValue R) \<and>
     k8s_law (ListMetaCopy K) (ListReach R) (ListValue R) \<and>
     (\<forall>c. ConditionCopy K c = c) \<and> (\<forall>t. TimeCopy K t = t)"

lemma reach_same:
  assumes "k8s_law copy reach val" "same_on P h h'" "Ball (reach m (k8sAt h)) P"
  shows "reach m (k8sAt h') = reach m (k8sAt h)" "val m (k8sAt h') = val m (k8sAt h)"
  using assms unfolding k8s_law_def same_on_def by blast+

text \<open>Reading depends on the reachable cells only.\<close>

lemma read_parts_same:
  assumes "same_on P h h'"
  shows "spec_in P sp \<Longrightarrow> read_spec h' sp = read_spec h sp"
    and "status_in P h st \<Longrightarrow> read_status h' st = read_status h st \<and> status_in P h' st"
proof -
  show "spec_in P sp \<Longrightarrow> read_spec h' sp = read_spec h sp"
    using assms by (cases "goValuesSecretRef sp") (simp_all add: spec_in_def read_spec_def same_on_def)
  show "status_in P h st \<Longrightarrow> read_status h' st = read_status h st \<and> status_in P h' st"
    using assms by (cases "goConditions st"; cases "goLastDeployStartTime st")
      (simp_all add: status_in_def slice_in_def read_status_def read_slice_def same_on_def)
qed

lemma read_app_same:
  assumes "copies_law K R" "same_on P h h'" "app_in R P h a"
  shows "read_app R h' a = read_app R h a \<and> app_in R P h' a"
proof -
  have law: "k8s_law (ObjectMetaCopy K) (MetaReach R) (MetaValue R)" using assms(1) by (simp add: copies_law_def)
  have a: "Ball (MetaReach R (goObjectMeta a) (k8sAt h)) P" "spec_in P (goSpec a)" "status_in P h (goStatus a)"
    using assms(3) by (simp_all add: app_in_def)
  show ?thesis
    using reach_same [OF law assms(2) a(1)] read_parts_same [OF assms(2)] a by (simp add: read_app_def app_in_def)
qed

lemma read_list_same:
  assumes "copies_law K R" "same_on P h h'" "list_in R P h l"
  shows "read_list R h' l = read_list R h l"
proof -
  have law: "k8s_law (ListMetaCopy K) (ListReach R) (ListValue R)" using assms(1) by (simp add: copies_law_def)
  have "Ball (ListReach R (goListMeta l) (k8sAt h)) P" using assms(3) by (simp add: list_in_def)
  note meta = reach_same(2) [OF law assms(2) this]
  show ?thesis
  proof (cases "goItems l")
    case (Some sl)
    then have "itemsAt h' (sArray sl) = itemsAt h (sArray sl)" "list_all (app_in R P h) (read_slice (itemsAt h) sl)"
      using assms(2,3) by (simp_all add: list_in_def slice_in_def same_on_def)
    then show ?thesis
      using Some meta read_app_same [OF assms(1,2)] by (auto simp: read_list_def read_slice_def list_all_iff)
  qed (simp add: read_list_def meta)
qed

section \<open>Copying only adds cells\<close>

abbreviation allocated :: "('m, 'l, 'x) store \<Rightarrow> addr \<Rightarrow> bool" where
  "allocated h \<equiv> (\<lambda>p. p < free h)"

abbreviation new_between :: "('m, 'l, 'x) store \<Rightarrow> ('m, 'l, 'x) store \<Rightarrow> addr \<Rightarrow> bool" where
  "new_between h h' \<equiv> (\<lambda>p. free h \<le> p \<and> p < free h')"

definition grows :: "('m, 'l, 'x) store \<Rightarrow> ('m, 'l, 'x) store \<Rightarrow> bool" where
  "grows h h' \<longleftrightarrow> free h \<le> free h' \<and> same_on (allocated h) h h'"

lemma grows_refl [simp]: "grows h h"
  by (simp add: grows_def)

lemma grows_trans: "grows h h1 \<Longrightarrow> grows h1 h2 \<Longrightarrow> grows h h2"
  by (auto simp: grows_def same_on_def)

lemma in_mono:
  "(\<And>p. P p \<Longrightarrow> Q p) \<Longrightarrow> slice_in P cells s \<Longrightarrow> slice_in Q cells s"
  "(\<And>p. P p \<Longrightarrow> Q p) \<Longrightarrow> spec_in P sp \<Longrightarrow> spec_in Q sp"
  "(\<And>p. P p \<Longrightarrow> Q p) \<Longrightarrow> status_in P h st \<Longrightarrow> status_in Q h st"
  "(\<And>p. P p \<Longrightarrow> Q p) \<Longrightarrow> app_in R P h a \<Longrightarrow> app_in R Q h a"
  by (auto simp: in_defs elim!: option.pred_mono_strong)

lemma k8s_copy_grows:
  assumes "k8s_law copy reach val" "k8s_DeepCopyInto copy m h = (out, h')" "Ball (reach m (k8sAt h)) (allocated h)"
  shows "grows h h' \<and> Ball (reach out (k8sAt h')) (new_between h h') \<and> val out (k8sAt h') = val m (k8sAt h)"
proof -
  obtain n cells where c: "copy m (free h) (k8sAt h) = (out, n, cells)" "h' = h\<lparr>free := n, k8sAt := cells\<rparr>"
    using assms(2) by (auto simp: k8s_DeepCopyInto_def split: prod.splits)
  have "free h \<le> n \<and> (\<forall>a<free h. cells a = k8sAt h a) \<and> (\<forall>a\<in>reach out cells. free h \<le> a \<and> a < n) \<and>
      val out cells = val m (k8sAt h)"
    using assms(1,3) c(1) unfolding k8s_law_def by blast
  then show ?thesis by (simp add: c(2) grows_def same_on_def)
qed

lemma spec_copy:
  assumes "spec_DeepCopyInto s h = (out, h')" "spec_in (allocated h) s"
  shows "grows h h' \<and> spec_in (new_between h h') out \<and> read_spec h' out = read_spec h s"
proof (cases "goValuesSecretRef s")
  case None
  then show ?thesis using assms by (auto simp: spec_DeepCopyInto_def spec_in_def read_spec_def)
next
  case (Some a)
  then show ?thesis using assms
    by (auto simp: spec_DeepCopyInto_def allocate_def spec_in_def read_spec_def grows_def same_on_def)
qed

lemma cond_loop_run:
  assumes "b \<noteq> sArray s" "length (condsAt h b) = n" "k \<le> n"
  shows "cond_loop K s b [k..<n] h = h\<lparr>condsAt := (condsAt h)(b := take k (condsAt h b) @
    map (\<lambda>i. ConditionCopy K (condsAt h (sArray s) ! (sOffset s + i))) [k..<n])\<rparr>"
  using assms
proof (induction "n - k" arbitrary: k h)
  case (Suc m)
  then have k: "k < n" by simp
  let ?h = "h\<lparr>condsAt := (condsAt h)(b := (condsAt h b)[k := ConditionCopy K (condsAt h (sArray s) ! (sOffset s + k))])\<rparr>"
  have "m = n - Suc k" "length (condsAt ?h b) = n" "Suc k \<le> n" using Suc.hyps(2) Suc.prems(2) k by simp_all
  note IH = Suc.hyps(1) [OF this(1) Suc.prems(1) this(2,3)]
  have "take (Suc k) ((condsAt h b)[k := c]) = take k (condsAt h b) @ [c]" for c
    using k Suc.prems(2) by (simp add: take_Suc_conv_app_nth)
  then show ?case using k Suc.prems(1) IH by (simp add: upt_conv_Cons)
qed simp

lemma map_nth_window:
  assumes "off + n \<le> length xs"
  shows "map (\<lambda>i. xs ! (off + i)) [0..<n] = take n (drop off xs)"
  using assms by (intro nth_equalityI) simp_all

lemma conditions_copy:
  assumes "copies_law K R" "conditions_DeepCopy K p h = (out, h')" "pred_option (slice_in (allocated h) (condsAt h)) p"
  shows "grows h h' \<and> pred_option (slice_in (new_between h h') (condsAt h')) out \<and>
    map_option (read_slice (condsAt h')) out = map_option (read_slice (condsAt h)) p"
proof (cases p)
  case None
  then show ?thesis using assms by (auto simp: conditions_DeepCopy_def)
next
  case (Some s)
  let ?b = "free h"
  have s: "sArray s < free h" "sOffset s + sLen s \<le> length (condsAt h (sArray s))"
    using assms(3) Some by (simp_all add: slice_in_def)
  then have out: "out = Some \<lparr>sArray = ?b, sOffset = 0, sLen = sLen s\<rparr>"
    and h': "h' = h\<lparr>free := free h + 1, condsAt := (condsAt h)(?b :=
      map (\<lambda>i. ConditionCopy K (condsAt h (sArray s) ! (sOffset s + i))) [0..<sLen s])\<rparr>"
    using assms(2) Some by (auto simp: conditions_DeepCopy_def allocate_def cond_loop_run [of ?b s _ "sLen s" 0])
  have "map (\<lambda>i. ConditionCopy K (condsAt h (sArray s) ! (sOffset s + i))) [0..<sLen s] = read_slice (condsAt h) s"
    unfolding read_slice_def map_nth_window [OF s(2), symmetric] using assms(1) by (simp add: copies_law_def)
  then show ?thesis
    using Some s unfolding out h' by (simp add: grows_def same_on_def slice_in_def read_slice_def)
qed

lemma time_copy:
  assumes "copies_law K R" "time_DeepCopy K p h = (out, h')" "pred_option (allocated h) p"
  shows "grows h h' \<and> condsAt h' = condsAt h \<and> pred_option (new_between h h') out \<and>
    map_option (timeAt h') out = map_option (timeAt h) p"
  using assms by (cases p) (auto simp: time_DeepCopy_def allocate_def grows_def same_on_def copies_law_def)

lemma status_copy:
  assumes "copies_law K R" "status_DeepCopyInto K s h = (out, h')" "status_in (allocated h) h s"
  shows "grows h h' \<and> status_in (new_between h h') h' out \<and> read_status h' out = read_status h s"
proof -
  obtain cs h1 where c: "conditions_DeepCopy K (goConditions s) h = (cs, h1)" by fastforce
  obtain t h2 where t: "time_DeepCopy K (goLastDeployStartTime s) h1 = (t, h2)" by fastforce
  have out: "out = s\<lparr>goConditions := cs, goLastDeployStartTime := t\<rparr>" "h' = h2"
    using assms(2) c t by (simp_all add: status_DeepCopyInto_def)
  from conditions_copy [OF assms(1) c] assms(3)
  have 1: "grows h h1" "pred_option (slice_in (new_between h h1) (condsAt h1)) cs"
    "map_option (read_slice (condsAt h1)) cs = map_option (read_slice (condsAt h)) (goConditions s)"
    by (simp_all add: status_in_def)
  have "pred_option (allocated h1) (goLastDeployStartTime s)"
    using assms(3) 1(1) by (auto simp: status_in_def grows_def elim!: option.pred_mono_strong)
  from time_copy [OF assms(1) t this]
  have 2: "grows h1 h2" "condsAt h2 = condsAt h1" "pred_option (new_between h1 h2) t"
    "map_option (timeAt h2) t = map_option (timeAt h1) (goLastDeployStartTime s)" by simp_all
  have old: "map_option (timeAt h1) (goLastDeployStartTime s) = map_option (timeAt h) (goLastDeployStartTime s)"
    using assms(3) 1(1) by (cases "goLastDeployStartTime s") (simp_all add: status_in_def grows_def same_on_def)
  have "pred_option (slice_in (new_between h h2) (condsAt h1)) cs"
    using 1(1,2) 2(1) by (cases cs) (simp_all add: grows_def slice_in_def)
  moreover have "pred_option (new_between h h2) t"
    using 1(1) 2(1,3) by (cases t) (simp_all add: grows_def)
  ultimately have "pred_option (slice_in (new_between h h2) (condsAt h1)) cs" "pred_option (new_between h h2) t"
    by simp_all
  then show ?thesis
    using grows_trans [OF 1(1) 2(1)] 1(3) 2(2,4) old unfolding out by (simp add: status_in_def read_status_def)
qed

lemma grows_same:
  assumes "copies_law K R" "grows h h'" "app_in R (allocated h) h a"
  shows "read_app R h' a = read_app R h a" "app_in R (allocated h) h' a" "app_in R (allocated h') h' a"
proof -
  have "same_on (allocated h) h h'" using assms(2) by (simp add: grows_def)
  from read_app_same [OF assms(1) this assms(3)]
  show "read_app R h' a = read_app R h a" and "app_in R (allocated h) h' a" by blast+
  have "p < free h'" if "p < free h" for p using assms(2) that by (simp add: grows_def)
  then show "app_in R (allocated h') h' a"
    by (rule in_mono(4) [where P = "allocated h"]) (simp_all add: \<open>app_in R (allocated h) h' a\<close>)
qed

text \<open>What one copy brought, the copies after it leave alone.\<close>

lemma grows_new: "grows h1 h2 \<Longrightarrow> same_on (new_between h h1) h1 h2"
  by (simp add: grows_def same_on_def)

lemma app_copy:
  assumes "copies_law K R" "app_DeepCopyInto K a h = (out, h')" "app_in R (allocated h) h a"
  shows "grows h h' \<and> app_in R (new_between h h') h' out \<and> read_app R h' out = read_app R h a"
proof -
  have law: "k8s_law (ObjectMetaCopy K) (MetaReach R) (MetaValue R)" using assms(1) by (simp add: copies_law_def)
  obtain m h1 where m: "k8s_DeepCopyInto (ObjectMetaCopy K) (goObjectMeta a) h = (m, h1)" by fastforce
  obtain sp h2 where sp: "spec_DeepCopyInto (goSpec a) h1 = (sp, h2)" by fastforce
  obtain st h3 where st: "status_DeepCopyInto K (goStatus a) h2 = (st, h3)" by fastforce
  have out: "out = a\<lparr>goObjectMeta := m, goSpec := sp, goStatus := st\<rparr>" "h' = h3"
    using assms(2) m sp st by (simp_all add: app_DeepCopyInto_def Let_def)
  from k8s_copy_grows [OF law m] assms(3)
  have 0: "grows h h1" "Ball (MetaReach R m (k8sAt h1)) (new_between h h1)"
    "MetaValue R m (k8sAt h1) = MetaValue R (goObjectMeta a) (k8sAt h)"
    by (simp_all add: app_in_def)
  note old0 = grows_same [OF assms(1) 0(1) assms(3)]
  from spec_copy [OF sp] old0(3)
  have 1: "grows h1 h2" "spec_in (new_between h1 h2) sp" "read_spec h2 sp = read_spec h1 (goSpec a)"
    by (simp_all add: app_in_def)
  note old1 = grows_same [OF assms(1) 1(1) old0(3)]
  from status_copy [OF assms(1) st] old1(3)
  have 2: "grows h2 h3" "status_in (new_between h2 h3) h3 st" "read_status h3 st = read_status h2 (goStatus a)"
    by (simp_all add: app_in_def)
  note meta = reach_same [OF law grows_new [OF grows_trans [OF 1(1) 2(1)]] 0(2)]
  have free: "free h \<le> free h1" "free h1 \<le> free h2" "free h2 \<le> free h3"
    using 0(1) 1(1) 2(1) by (simp_all add: grows_def)
  have "app_in R (new_between h h3) h3 out"
    unfolding out app_in_def using 0(2) 1(2) 2(2) free
    by (auto simp: meta intro: in_mono(2) [OF _ 1(2)] in_mono(3) [OF _ 2(2)])
  moreover have "read_app R h3 out = read_app R h a"
  proof -
    have "read_spec h3 sp = read_spec h2 sp" by (rule read_parts_same(1) [OF grows_new [OF 2(1)] 1(2)])
    moreover have "read_spec h1 (goSpec a) = read_spec h (goSpec a)" using old0(1) by (simp add: read_app_def)
    moreover have "read_status h2 (goStatus a) = read_status h (goStatus a)"
      using old0(1) old1(1) by (simp add: read_app_def)
    ultimately show ?thesis using 0(3) 1(3) 2(3) meta(2) by (simp add: out(1) read_app_def)
  qed
  ultimately show ?thesis using grows_trans [OF 0(1) grows_trans [OF 1(1) 2(1)]] out(2) by simp
qed

section \<open>Copying a list\<close>

text \<open>How far the loop over the items has got: the first \<open>k\<close> of the new array are good copies.\<close>

definition copied_upto ::
  "('m, 'l, 'x, 'v) k8s_reading \<Rightarrow> ('m, 'l, 'x) store \<Rightarrow> slice \<Rightarrow> addr \<Rightarrow> nat \<Rightarrow> ('m, 'l, 'x) store \<Rightarrow> bool" where
  "copied_upto R h0 s b k h \<longleftrightarrow> grows h0 h \<and> free h0 \<le> b \<and> b < free h \<and> length (itemsAt h b) = sLen s \<and>
     (\<forall>i<k. app_in R (new_between h0 h) h (itemsAt h b ! i) \<and>
        read_app R h (itemsAt h b ! i) = read_app R h0 (itemsAt h0 (sArray s) ! (sOffset s + i)))"

lemma items_update:
  "read_app R (h\<lparr>itemsAt := x\<rparr>) a = read_app R h a" "app_in R P (h\<lparr>itemsAt := x\<rparr>) a = app_in R P h a"
  by (simp_all add: read_defs in_defs)

lemma item_step:
  assumes "copies_law K R" "copied_upto R h0 s b k h" "k < sLen s" "sArray s < free h0"
    "app_in R (allocated h0) h0 (itemsAt h0 (sArray s) ! (sOffset s + k))"
    "app_DeepCopyInto K (itemsAt h (sArray s) ! (sOffset s + k)) h = (v, h1)"
  shows "copied_upto R h0 s b (Suc k) (h1\<lparr>itemsAt := (itemsAt h1)(b := (itemsAt h1 b)[k := v])\<rparr>)"
proof -
  let ?orig = "itemsAt h0 (sArray s) ! (sOffset s + k)"
  have h: "grows h0 h" "free h0 \<le> b" "b < free h" "length (itemsAt h b) = sLen s"
    using assms(2) by (simp_all add: copied_upto_def)
  have same: "itemsAt h (sArray s) = itemsAt h0 (sArray s)" using h(1) assms(4) by (simp add: grows_def same_on_def)
  note old = grows_same [OF assms(1) h(1) assms(5)]
  from app_copy [OF assms(1,6) [unfolded same] old(3)]
  have c: "grows h h1" "app_in R (new_between h h1) h1 v" "read_app R h1 v = read_app R h ?orig" by blast+
  have b: "itemsAt h1 b = itemsAt h b" using c(1) h(3) by (simp add: grows_def same_on_def)
  have free: "free h0 \<le> free h" "free h \<le> free h1" using h(1) c(1) by (simp_all add: grows_def)
  have new: "app_in R (new_between h0 h1) h1 v" by (rule in_mono(4) [OF _ c(2)]) (use free in simp)
  have earlier: "app_in R (new_between h0 h1) h1 (itemsAt h b ! i) \<and> read_app R h1 (itemsAt h b ! i) =
      read_app R h0 (itemsAt h0 (sArray s) ! (sOffset s + i))" if "i < k" for i
  proof -
    have i: "app_in R (new_between h0 h) h (itemsAt h b ! i)"
      "read_app R h (itemsAt h b ! i) = read_app R h0 (itemsAt h0 (sArray s) ! (sOffset s + i))"
      using assms(2) that by (simp_all add: copied_upto_def)
    have "same_on (new_between h0 h) h h1" using c(1) by (simp add: grows_def same_on_def)
    from read_app_same [OF assms(1) this i(1)] i(2)
    have "app_in R (new_between h0 h) h1 (itemsAt h b ! i)" "read_app R h1 (itemsAt h b ! i) =
        read_app R h0 (itemsAt h0 (sArray s) ! (sOffset s + i))" by simp_all
    then show ?thesis using in_mono(4) [of "new_between h0 h" "new_between h0 h1"] free by auto
  qed
  have "grows h0 (h1\<lparr>itemsAt := (itemsAt h1)(b := (itemsAt h1 b)[k := v])\<rparr>)"
    using grows_trans [OF h(1) c(1)] h(2) by (simp add: grows_def same_on_def)
  then show ?thesis
    unfolding copied_upto_def items_update using h free b new earlier c(3) old(1) assms(3)
    by (simp add: less_Suc_eq nth_list_update)
qed

lemma item_loop_copies:
  "copies_law K R \<Longrightarrow> copied_upto R h0 s b k h \<Longrightarrow> k \<le> sLen s \<Longrightarrow> sArray s < free h0 \<Longrightarrow>
   (\<And>i. i < sLen s \<Longrightarrow> app_in R (allocated h0) h0 (itemsAt h0 (sArray s) ! (sOffset s + i))) \<Longrightarrow>
   copied_upto R h0 s b (sLen s) (item_loop K s b [k..<sLen s] h)"
proof (induction "sLen s - k" arbitrary: k h)
  case (Suc m)
  then have k: "k < sLen s" by simp
  obtain v h1 where a: "app_DeepCopyInto K (itemsAt h (sArray s) ! (sOffset s + k)) h = (v, h1)" by fastforce
  have "copied_upto R h0 s b (sLen s) (item_loop K s b [Suc k..<sLen s]
      (h1\<lparr>itemsAt := (itemsAt h1)(b := (itemsAt h1 b)[k := v])\<rparr>))"
    using Suc.hyps(2) k item_step [OF Suc.prems(1,2) k Suc.prems(4) Suc.prems(5) [OF k] a]
    by (intro Suc.hyps(1)) (use Suc.prems in auto)
  then show ?case using k a by (simp add: upt_conv_Cons)
qed simp

lemma items_copy:
  assumes "copies_law K R" "items_DeepCopy K p h = (out, h')"
    "pred_option (\<lambda>s. slice_in (allocated h) (itemsAt h) s \<and> list_all (app_in R (allocated h) h) (read_slice (itemsAt h) s)) p"
  shows "grows h h' \<and>
    pred_option (\<lambda>s. slice_in (new_between h h') (itemsAt h') s \<and>
      list_all (app_in R (new_between h h') h') (read_slice (itemsAt h') s)) out \<and>
    map_option (\<lambda>s. map (read_app R h') (read_slice (itemsAt h') s)) out =
      map_option (\<lambda>s. map (read_app R h) (read_slice (itemsAt h) s)) p"
proof (cases p)
  case None
  then show ?thesis using assms(2) by (simp add: items_DeepCopy_def)
next
  case (Some s)
  let ?h = "h\<lparr>free := free h + 1, itemsAt := (itemsAt h)(free h := replicate (sLen s) (ZeroApplication K))\<rparr>"
  have out: "out = Some \<lparr>sArray = free h, sOffset = 0, sLen = sLen s\<rparr>"
    and h': "h' = item_loop K s (free h) [0..<sLen s] ?h"
    using assms(2) Some by (simp_all add: items_DeepCopy_def allocate_def)
  have s: "sArray s < free h" "sOffset s + sLen s \<le> length (itemsAt h (sArray s))"
    and each: "list_all (app_in R (allocated h) h) (read_slice (itemsAt h) s)"
    using assms(3) Some by (simp_all add: slice_in_def)
  have window: "read_slice (itemsAt h) s = map (\<lambda>i. itemsAt h (sArray s) ! (sOffset s + i)) [0..<sLen s]"
    unfolding read_slice_def map_nth_window [OF s(2)] ..
  have items: "app_in R (allocated h) h (itemsAt h (sArray s) ! (sOffset s + i))" if "i < sLen s" for i
    using each that unfolding window by (simp add: list_all_iff)
  have "copied_upto R h s (free h) 0 ?h"
    by (simp add: copied_upto_def grows_def same_on_def)
  from item_loop_copies [OF assms(1) this le0 s(1) items]
  have c: "grows h h'" "free h < free h'" "length (itemsAt h' (free h)) = sLen s"
    "\<And>i. i < sLen s \<Longrightarrow> app_in R (new_between h h') h' (itemsAt h' (free h) ! i) \<and>
       read_app R h' (itemsAt h' (free h) ! i) = read_app R h (itemsAt h (sArray s) ! (sOffset s + i))"
    unfolding h' by (simp_all add: copied_upto_def)
  have copied: "read_slice (itemsAt h') \<lparr>sArray = free h, sOffset = 0, sLen = sLen s\<rparr> = itemsAt h' (free h)"
    using c(3) by (simp add: read_slice_def)
  have "map (read_app R h') (itemsAt h' (free h)) = map (read_app R h) (read_slice (itemsAt h) s)"
    unfolding window using c(3,4) by (intro nth_equalityI) simp_all
  moreover have "list_all (app_in R (new_between h h') h') (itemsAt h' (free h))"
    using c(3,4) by (simp add: list_all_length)
  ultimately show ?thesis using c(1-3) Some unfolding out by (simp add: copied slice_in_def)
qed

lemma list_copy:
  assumes "copies_law K R" "list_DeepCopyInto K l h = (out, h')" "list_in R (allocated h) h l"
  shows "grows h h' \<and> list_in R (new_between h h') h' out \<and> read_list R h' out = read_list R h l"
proof -
  have law: "k8s_law (ListMetaCopy K) (ListReach R) (ListValue R)" using assms(1) by (simp add: copies_law_def)
  obtain m h1 where m: "k8s_DeepCopyInto (ListMetaCopy K) (goListMeta l) h = (m, h1)" by fastforce
  obtain items h2 where i: "items_DeepCopy K (goItems l) h1 = (items, h2)" by fastforce
  have out: "out = l\<lparr>goListMeta := m, goItems := items\<rparr>" "h' = h2"
    using assms(2) m i by (simp_all add: list_DeepCopyInto_def Let_def)
  from k8s_copy_grows [OF law m] assms(3)
  have 0: "grows h h1" "Ball (ListReach R m (k8sAt h1)) (new_between h h1)"
    "ListValue R m (k8sAt h1) = ListValue R (goListMeta l) (k8sAt h)"
    by (simp_all add: list_in_def)
  have old: "pred_option (\<lambda>s. slice_in (allocated h1) (itemsAt h1) s \<and>
      list_all (app_in R (allocated h1) h1) (read_slice (itemsAt h1) s)) (goItems l) \<and>
    map_option (\<lambda>s. map (read_app R h1) (read_slice (itemsAt h1) s)) (goItems l) =
      map_option (\<lambda>s. map (read_app R h) (read_slice (itemsAt h) s)) (goItems l)"
  proof (cases "goItems l")
    case (Some s)
    then have s: "slice_in (allocated h) (itemsAt h) s" "list_all (app_in R (allocated h) h) (read_slice (itemsAt h) s)"
      using assms(3) by (simp_all add: list_in_def)
    then have "itemsAt h1 (sArray s) = itemsAt h (sArray s)" "slice_in (allocated h1) (itemsAt h1) s"
      using 0(1) by (simp_all add: grows_def same_on_def slice_in_def)
    then show ?thesis
      using Some s(2) grows_same [OF assms(1) 0(1)] by (auto simp: read_slice_def list_all_iff)
  qed simp
  from items_copy [OF assms(1) i conjunct1 [OF old]]
  have 1: "grows h1 h2" "pred_option (\<lambda>s. slice_in (new_between h1 h2) (itemsAt h2) s \<and>
      list_all (app_in R (new_between h1 h2) h2) (read_slice (itemsAt h2) s)) items"
    "map_option (\<lambda>s. map (read_app R h2) (read_slice (itemsAt h2) s)) items =
      map_option (\<lambda>s. map (read_app R h) (read_slice (itemsAt h) s)) (goItems l)"
    using conjunct2 [OF old] by simp_all
  note meta = reach_same [OF law grows_new [OF 1(1)] 0(2)]
  have free: "free h \<le> free h1" "free h1 \<le> free h2" using 0(1) 1(1) by (simp_all add: grows_def)
  have wide: "app_in R (new_between h h2) h2 a" if "app_in R (new_between h1 h2) h2 a" for a
    by (rule in_mono(4) [OF _ that]) (use free in simp)
  have "list_in R (new_between h h2) h2 (l\<lparr>goListMeta := m, goItems := items\<rparr>)"
    using 0(2) 1(2) free wide
    by (cases items) (auto simp: list_in_def meta slice_in_def list_all_iff)
  then show ?thesis
    using grows_trans [OF 0(1) 1(1)] 0(3) 1(3) meta(2) unfolding out by (simp add: read_list_def)
qed

section \<open>Copies through pointers\<close>

lemma same_on_mono: "same_on P h h' \<Longrightarrow> (\<And>p. Q p \<Longrightarrow> P p) \<Longrightarrow> same_on Q h h'"
  by (simp add: same_on_def)

text \<open>Writing the struct behind the new pointer touches nothing a struct can reach.\<close>

lemma store_update:
  "read_app R (h\<lparr>appAt := x\<rparr>) a = read_app R h a" "app_in R P (h\<lparr>appAt := x\<rparr>) a = app_in R P h a"
  "read_list R (h\<lparr>listAt := y\<rparr>) l = read_list R h l" "list_in R P (h\<lparr>listAt := y\<rparr>) l = list_in R P h l"
proof -
  have "read_app R (h\<lparr>listAt := y\<rparr>) = read_app R h" "app_in R P (h\<lparr>listAt := y\<rparr>) = app_in R P h"
    by (simp_all add: fun_eq_iff read_defs in_defs)
  then show "read_list R (h\<lparr>listAt := y\<rparr>) l = read_list R h l" "list_in R P (h\<lparr>listAt := y\<rparr>) l = list_in R P h l"
    by (simp_all add: read_list_def list_in_def)
qed (simp_all add: read_defs in_defs)

lemma free_update: "read_app R (h\<lparr>free := n\<rparr>) a = read_app R h a" "app_in R P (h\<lparr>free := n\<rparr>) a = app_in R P h a"
  "read_list R (h\<lparr>free := n\<rparr>) l = read_list R h l" "list_in R P (h\<lparr>free := n\<rparr>) l = list_in R P h l"
proof -
  have "read_app R (h\<lparr>free := n\<rparr>) = read_app R h" "app_in R P (h\<lparr>free := n\<rparr>) = app_in R P h"
    by (simp_all add: fun_eq_iff read_defs in_defs)
  then show "read_list R (h\<lparr>free := n\<rparr>) l = read_list R h l" "list_in R P (h\<lparr>free := n\<rparr>) l = list_in R P h l"
    by (simp_all add: read_list_def list_in_def)
qed (simp_all add: read_defs in_defs)

lemma list_in_mono: "(\<And>p. P p \<Longrightarrow> Q p) \<Longrightarrow> list_in R P h l \<Longrightarrow> list_in R Q h l"
  by (cases "goItems l") (auto simp: list_in_def slice_in_def list_all_iff intro: in_mono(4))

text \<open>
  C28. A copied Application is the same and shares nothing, its metadata included: \<open>DeepCopyObject\<close>
  of a pointer to an Application gives a new pointer to a struct that stands for the same value
  and reaches only cells that were not there before, of a nil pointer nil. So whatever is written
  afterwards to any cell the copy brought leaves the original what it was, and whatever is written
  to any older cell, such as the labels, annotations or finalizers of the original, leaves the
  copy what it was.
\<close>

theorem application_copy_is_separate:
  assumes "copies_law K R" "p < free h" "app_in R (allocated h) h (appAt h p)"
    "app_DeepCopyObject K (Some p) h = (out, h')"
    "same_on (\<lambda>a. a < free h) h' copy_written" "same_on (\<lambda>a. free h \<le> a) h' original_written"
  shows "\<exists>q. out = Some q \<and> free h \<le> q \<and> app_in R (\<lambda>a. free h \<le> a) h' (appAt h' q) \<and>
    read_app R h' (appAt h' q) = read_app R h (appAt h p) \<and>
    read_app R copy_written (appAt copy_written p) = read_app R h (appAt h p) \<and>
    read_app R original_written (appAt original_written q) = read_app R h (appAt h p) \<and>
    app_DeepCopyObject K None h = (None, h)"
proof -
  let ?h1 = "h\<lparr>free := free h + 1\<rparr>" and ?q = "free h"
  obtain v h2 where v: "app_DeepCopyInto K (appAt h p) ?h1 = (v, h2)" by fastforce
  have out: "out = Some ?q" "h' = h2\<lparr>appAt := (appAt h2)(?q := v)\<rparr>"
    using assms(4) v by (simp_all add: app_DeepCopyObject_def app_DeepCopy_def allocate_def)
  have "app_in R (allocated ?h1) ?h1 (appAt h p)"
    unfolding free_update by (rule in_mono(4) [OF _ assms(3)]) simp
  from app_copy [OF assms(1) v this]
  have c: "grows ?h1 h2" "app_in R (new_between ?h1 h2) h2 v" "read_app R h2 v = read_app R h (appAt h p)"
    by (simp_all add: free_update)
  have eq: "read_app R h' (appAt h' ?q) = read_app R h (appAt h p)" using c(3) by (simp add: out(2) store_update)
  have kept: "same_on (allocated h) h h'" using c(1) unfolding out(2) by (simp add: grows_def same_on_def)
  then have w: "same_on (allocated h) h copy_written" "appAt copy_written p = appAt h p"
    using assms(2,5) by (simp_all add: same_on_def)
  from read_app_same [OF assms(1) w(1) assms(3)]
  have 1: "read_app R copy_written (appAt copy_written p) = read_app R h (appAt h p)"
    unfolding w(2) by simp
  have new: "app_in R (\<lambda>a. free h \<le> a) h' v"
    unfolding out(2) store_update by (rule in_mono(4) [OF _ c(2)]) simp
  from read_app_same [OF assms(1,6) new] eq
  have "read_app R original_written v = read_app R h (appAt h p)" by (simp add: out(2))
  moreover have "appAt original_written ?q = v" using assms(6) by (simp add: same_on_def out(2))
  ultimately show ?thesis
    using eq 1 new out(1) by (simp add: app_DeepCopyObject_def app_DeepCopy_def out(2))
qed

text \<open>
  The same for a list: the copy of an \<open>ApplicationList\<close> stands for the same list, item for
  item and in the same order, nil for nil; and neither writing to the cells of the copy nor to
  the cells of the original shows through the other.
\<close>

theorem list_copy_is_separate:
  assumes "copies_law K R" "p < free h" "list_in R (allocated h) h (listAt h p)"
    "list_DeepCopyObject K (Some p) h = (out, h')"
    "same_on (\<lambda>a. a < free h) h' copy_written" "same_on (\<lambda>a. free h \<le> a) h' original_written"
  shows "\<exists>q. out = Some q \<and> free h \<le> q \<and>
    read_list R h' (listAt h' q) = read_list R h (listAt h p) \<and>
    read_list R copy_written (listAt copy_written p) = read_list R h (listAt h p) \<and>
    read_list R original_written (listAt original_written q) = read_list R h (listAt h p) \<and>
    list_DeepCopyObject K None h = (None, h)"
proof -
  let ?h1 = "h\<lparr>free := free h + 1\<rparr>" and ?q = "free h"
  obtain v h2 where v: "list_DeepCopyInto K (listAt h p) ?h1 = (v, h2)" by fastforce
  have out: "out = Some ?q" "h' = h2\<lparr>listAt := (listAt h2)(?q := v)\<rparr>"
    using assms(4) v by (simp_all add: list_DeepCopyObject_def list_DeepCopy_def allocate_def)
  have "list_in R (allocated ?h1) ?h1 (listAt h p)"
    unfolding free_update by (rule list_in_mono [OF _ assms(3)]) simp
  from list_copy [OF assms(1) v this]
  have c: "grows ?h1 h2" "list_in R (new_between ?h1 h2) h2 v" "read_list R h2 v = read_list R h (listAt h p)"
    by (simp_all add: free_update)
  have eq: "read_list R h' (listAt h' ?q) = read_list R h (listAt h p)" using c(3) by (simp add: out(2) store_update)
  have kept: "same_on (allocated h) h h'" using c(1) unfolding out(2) by (simp add: grows_def same_on_def)
  then have w: "same_on (allocated h) h copy_written" "listAt copy_written p = listAt h p"
    using assms(2,5) by (simp_all add: same_on_def)
  from read_list_same [OF assms(1) w(1) assms(3)]
  have 1: "read_list R copy_written (listAt copy_written p) = read_list R h (listAt h p)"
    unfolding w(2) by simp
  have "list_in R (\<lambda>a. free h \<le> a) h' v"
    unfolding out(2) store_update by (rule list_in_mono [OF _ c(2)]) simp
  from read_list_same [OF assms(1,6) this] eq
  have "read_list R original_written v = read_list R h (listAt h p)" by (simp add: out(2))
  moreover have "listAt original_written ?q = v" using assms(6) by (simp add: same_on_def out(2))
  ultimately show ?thesis
    using eq 1 out(1) by (simp add: list_DeepCopyObject_def list_DeepCopy_def)
qed

section \<open>Examples\<close>

text \<open>
  A store with one Application that has labels, a reference, two conditions and a start time. The
  metadata is a name and a pointer to the labels, which are the Kubernetes cells.
\<close>

definition demo_condition :: "string \<Rightarrow> Condition" where
  "demo_condition t = \<lparr>condType = t, condStatus = ConditionTrue, condObservedGeneration = 1,
     condLastTransitionTime = Some 5, condReason = ''R'', condMessage = ''m''\<rparr>"

type_synonym demo_meta = "string \<times> addr option"
type_synonym demo_labels = "(string \<times> string) list"

definition demo_struct :: "demo_meta app_struct" where
  "demo_struct = \<lparr>goTypeMeta = \<lparr>tmKind = ''Application'', tmAPIVersion = ''apps.helmwarden.dev/v1alpha1''\<rparr>,
     goObjectMeta = (''web'', Some 4),
     goSpec = \<lparr>goChartName = ''podinfo'', goRepoURL = ''https://charts'', goVersion = ''6.7.1'',
       goNamespace = ''demo'', goValuesSecretRef = Some 0, goProgressDeadlineSeconds = 300\<rparr>,
     goStatus = \<lparr>goPhase = PhaseDeployed, goConditions = Some \<lparr>sArray = 1, sOffset = 0, sLen = 2\<rparr>,
       goObservedGeneration = 1, goHelmReleaseName = ''web'', goHelmRevision = 1,
       goLastAppliedValuesHash = '''', goLastFailedRevision = 0, goLastDeployStartTime = Some 2\<rparr>\<rparr>"

definition demo_store :: "(demo_meta, demo_meta, demo_labels) store" where
  "demo_store = \<lparr>free = 6, refAt = (\<lambda>_. \<lparr>refName = ''conf'', refKey = ''''\<rparr>), timeAt = (\<lambda>_. 9),
     condsAt = (\<lambda>_. [demo_condition ''Released'', demo_condition ''Ready'']),
     itemsAt = (\<lambda>_. [demo_struct]), specAt = (\<lambda>_. goSpec demo_struct), statusAt = (\<lambda>_. goStatus demo_struct),
     appAt = (\<lambda>_. demo_struct),
     listAt = (\<lambda>_. \<lparr>goListTypeMeta = \<lparr>tmKind = ''ApplicationList'', tmAPIVersion = ''apps.helmwarden.dev/v1alpha1''\<rparr>,
       goListMeta = (''7'', None), goItems = Some \<lparr>sArray = 4, sOffset = 0, sLen = 1\<rparr>\<rparr>),
     k8sAt = (\<lambda>_. [(''app'', ''web'')])\<rparr>"

definition demo_meta_copy :: "(demo_meta, demo_labels) k8s_copy" where
  "demo_meta_copy m n cells = (case m of
     (name, None) \<Rightarrow> ((name, None), n, cells)
   | (name, Some a) \<Rightarrow> ((name, Some n), n + 1, cells(n := cells a)))"

definition demo_copies :: "(demo_meta, demo_meta, demo_labels) k8s_copies" where
  "demo_copies = \<lparr>ObjectMetaCopy = demo_meta_copy, ListMetaCopy = demo_meta_copy, ConditionCopy = id, TimeCopy = id,
     ZeroCondition = demo_condition '''', ZeroApplication = demo_struct\<rparr>"

definition demo_reading :: "(demo_meta, demo_meta, demo_labels, string \<times> demo_labels option) k8s_reading" where
  "demo_reading =
     \<lparr>MetaReach = (\<lambda>m _. set_option (snd m)), MetaValue = (\<lambda>m cells. (fst m, map_option cells (snd m))),
      ListReach = (\<lambda>m _. set_option (snd m)), ListValue = (\<lambda>m cells. (fst m, map_option cells (snd m)))\<rparr>"

lemma demo_copies_law: "copies_law demo_copies demo_reading"
proof -
  have "k8s_law demo_meta_copy (\<lambda>m _. set_option (snd m)) (\<lambda>m cells. (fst m, map_option cells (snd m)))"
    unfolding k8s_law_def
    by (auto simp: demo_meta_copy_def split: prod.splits option.splits intro: option.map_cong)
  then show ?thesis by (simp add: copies_law_def demo_copies_def demo_reading_def)
qed

lemma demo_store_in:
  "app_in demo_reading (allocated demo_store) demo_store (appAt demo_store 3)"
  "list_in demo_reading (allocated demo_store) demo_store (listAt demo_store 5)"
  "3 < free demo_store" "5 < free demo_store"
  by (simp_all add: demo_store_def demo_struct_def demo_reading_def in_defs list_in_def read_slice_def)

text \<open>
  Somebody renames the Secret behind every reference the copy brought and drops its labels, and
  somebody else drops the labels of the original.
\<close>

theorem application_copy_is_separate_witness:
  "\<exists>q h'. app_DeepCopyObject demo_copies (Some 3) demo_store = (Some q, h') \<and>
     read_app demo_reading (h'\<lparr>refAt := (\<lambda>a. if a < 6 then refAt h' a else \<lparr>refName = ''other'', refKey = ''''\<rparr>),
         k8sAt := (\<lambda>a. if a < 6 then k8sAt h' a else [])\<rparr>) (appAt h' 3) =
       read_app demo_reading h' (appAt h' q) \<and>
     read_app demo_reading (h'\<lparr>k8sAt := (\<lambda>a. if a < 6 then [] else k8sAt h' a)\<rparr>) (appAt h' q) =
       read_app demo_reading h' (appAt h' q)"
proof -
  obtain out h' where c: "app_DeepCopyObject demo_copies (Some 3) demo_store = (out, h')" by fastforce
  let ?w = "h'\<lparr>refAt := (\<lambda>a. if a < 6 then refAt h' a else \<lparr>refName = ''other'', refKey = ''''\<rparr>),
      k8sAt := (\<lambda>a. if a < 6 then k8sAt h' a else [])\<rparr>"
  let ?v = "h'\<lparr>k8sAt := (\<lambda>a. if a < 6 then [] else k8sAt h' a)\<rparr>"
  have w: "same_on (\<lambda>a. a < free demo_store) h' ?w" "same_on (\<lambda>a. free demo_store \<le> a) h' ?v"
    by (simp_all add: same_on_def demo_store_def)
  from application_copy_is_separate [OF demo_copies_law demo_store_in(3,1) c w]
  obtain q where "out = Some q" "read_app demo_reading h' (appAt h' q) = read_app demo_reading demo_store (appAt demo_store 3)"
    "read_app demo_reading ?w (appAt ?w 3) = read_app demo_reading demo_store (appAt demo_store 3)"
    "read_app demo_reading ?v (appAt ?v q) = read_app demo_reading demo_store (appAt demo_store 3)"
    by blast
  then show ?thesis using c by (intro exI [of _ q] exI [of _ h']) simp
qed

theorem list_copy_is_separate_witness:
  "\<exists>q h'. list_DeepCopyObject demo_copies (Some 5) demo_store = (Some q, h') \<and>
     read_list demo_reading h' (listAt h' q) = read_list demo_reading demo_store (listAt demo_store 5)"
proof -
  obtain out h' where c: "list_DeepCopyObject demo_copies (Some 5) demo_store = (out, h')" by fastforce
  from list_copy_is_separate [OF demo_copies_law demo_store_in(4,2) c same_on_refl same_on_refl] c
  show ?thesis by blast
qed

end
