(* ===== verification/Convergence.thy ===== *)
theory Convergence
  imports Refinement
begin

text \<open>
  Where the loop of the reconciler leads. In a cluster in which no call fails, the workloads
  are healthy and nobody else writes the Application, the object settles: after three passes it
  is Deployed at its own generation, and every further pass leaves it so.

  The calculus of this theory is about states. A view reads off the opaque world what the
  argument is about (here the stored object, and whether its release exists), or \<^const>\<open>None\<close> for
  a world it does not speak of. \<open>ends view m c Q\<close> says that \<open>m\<close>, started where the view is \<open>c\<close>,
  returns a result and ends where the view is one that together satisfy \<open>Q\<close>.
\<close>

section \<open>What a computation leaves behind\<close>

definition ends ::
  "('w \<Rightarrow> 'c option) \<Rightarrow> ('w, 'e, 'r) act \<Rightarrow> 'c \<Rightarrow> ('r \<Rightarrow> 'c \<Rightarrow> bool) \<Rightarrow> bool" where
  "ends view m c Q \<longleftrightarrow> (\<forall>s r s'. view (world s) = Some c \<longrightarrow> run_state m s = (r, s') \<longrightarrow>
     (\<exists>c'. view (world s') = Some c' \<and> Q r c'))"

text \<open>A computation that leaves the view alone and returns something of a kind.\<close>

abbreviation calm :: "('w \<Rightarrow> 'c option) \<Rightarrow> ('w, 'e, 'r) act \<Rightarrow> 'c \<Rightarrow> ('r \<Rightarrow> bool) \<Rightarrow> bool" where
  "calm view m c R \<equiv> ends view m c (\<lambda>r c'. c' = c \<and> R r)"

lemma ends_return: "Q x c \<Longrightarrow> ends view (ret x) c Q"
  by (simp add: ends_def)

lemma ends_mono: "ends view m c P \<Longrightarrow> (\<And>r c'. P r c' \<Longrightarrow> Q r c') \<Longrightarrow> ends view m c Q"
  unfolding ends_def by meson

lemma ends_bind:
  assumes "ends view m c (\<lambda>r c'. ends view (f r) c' Q)"
  shows "ends view (State_Monad.bind m f) c Q"
  using assms by (fastforce simp: ends_def split: prod.splits)

lemma ends_step:
  assumes "ends view m c P" "\<And>r c'. P r c' \<Longrightarrow> ends view (f r) c' Q"
  shows "ends view (State_Monad.bind m f) c Q"
  by (rule ends_bind, rule ends_mono [OF assms(1)], rule assms(2))

lemma ends_after:
  assumes "calm view m c R" "\<And>r. R r \<Longrightarrow> ends view (f r) c Q"
  shows "ends view (State_Monad.bind m f) c Q"
  by (rule ends_step [OF assms(1)]) (use assms(2) in blast)

lemma calm_peek: "(\<And>w. R (f w)) \<Longrightarrow> calm view (peek f) c R"
  by (auto simp: ends_def)

lemma calm_signal: "calm view (signal ev) c (\<lambda>_. True)"
  by (simp add: ends_def)

lemma calm_for_each:
  assumes "\<And>x. calm view (f x) c (\<lambda>_. True)"
  shows "calm view (for_each xs f) c (\<lambda>_. True)"
proof (induction xs)
  case (Cons x xs)
  show ?case unfolding for_each.simps
    by (rule ends_after [OF assms]) (rule Cons.IH)
qed (simp add: ends_return)

text \<open>An outside call, by what it does to the view.\<close>

definition does :: "('w \<Rightarrow> 'c option) \<Rightarrow> ('w \<Rightarrow> 'r \<times> 'w) \<Rightarrow> 'c \<Rightarrow> ('r \<Rightarrow> 'c \<Rightarrow> bool) \<Rightarrow> bool" where
  "does view f c Q \<longleftrightarrow> (\<forall>w r w'. view w = Some c \<longrightarrow> f w = (r, w') \<longrightarrow> (\<exists>c'. view w' = Some c' \<and> Q r c'))"

abbreviation answers :: "('w \<Rightarrow> 'c option) \<Rightarrow> ('w \<Rightarrow> 'r \<times> 'w) \<Rightarrow> 'c \<Rightarrow> ('r \<Rightarrow> bool) \<Rightarrow> bool" where
  "answers view f c R \<equiv> does view f c (\<lambda>r c'. c' = c \<and> R r)"

lemma ends_call: "does view f c Q \<Longrightarrow> ends view (call f ev) c Q"
  by (fastforce simp: ends_def does_def split: prod.splits)

section \<open>A healthy cluster\<close>

text \<open>
  The view of a cluster: what the API server holds, and whether the release exists. Here what it
  holds is the Application.
  The calls of the Helm SDK succeed, but for what a missing release makes impossible: its history
  is not found and reading it is an error. An existing one can be read, and installing or
  upgrading makes it exist.
\<close>

type_synonym ('w, 'a) cluster_view = "'w \<Rightarrow> ('a \<times> bool) option"

definition helm_answers :: "'w env \<Rightarrow> ('w, 'a) cluster_view \<Rightarrow> bool" where
  "helm_answers E view \<longleftrightarrow>
     (\<forall>cfg c. answers view (ActionInit E cfg) c (\<lambda>r. r = None)) \<and>
     (\<forall>p n c. answers view (LocateChart E p n) c (\<lambda>r. \<not> isl r)) \<and>
     (\<forall>p c. answers view (LoadChart E p) c (\<lambda>r. \<not> isl r)) \<and>
     (\<forall>cfg n a d. answers view (RunHistory E cfg n) (a, d) (\<lambda>r. case r of
        None \<Rightarrow> d | Some err \<Rightarrow> \<not> d \<and> errors_Is err ReleaseNotFoundErr)) \<and>
     (\<forall>u n ch vs a. does view (RunUpgrade E u n ch vs) (a, True)
        (\<lambda>r c'. c' = (a, True) \<and> (\<exists>rel. r = Inr (V1Release rel)))) \<and>
     (\<forall>i ch vs a. does view (RunInstall E i ch vs) (a, False)
        (\<lambda>r c'. c' = (a, True) \<and> (\<exists>rel. r = Inr (V1Release rel)))) \<and>
     (\<forall>cfg n a. answers view (RunGet E cfg n) (a, True) (\<lambda>r. \<exists>rel. r = Inr (V1Release rel))) \<and>
     (\<forall>cfg n a. answers view (RunGet E cfg n) (a, False) isl)"

text \<open>Namespaces can be read or are not found, and can be created; the cache can be listed.\<close>

definition namespaces_answer :: "'w env \<Rightarrow> ('w, Application) cluster_view \<Rightarrow> bool" where
  "namespaces_answer E view \<longleftrightarrow>
     (\<forall>n c. answers view (GetNamespace E n) c (\<lambda>r. case r of
        Inl err \<Rightarrow> errors_Is err NotFoundErr | Inr _ \<Rightarrow> True)) \<and>
     (\<forall>ns c. answers view (CreateNamespace E ns) c (\<lambda>r. r = None)) \<and>
     (\<forall>opts c. answers view (ListApplications E opts) c (\<lambda>_. True))"

text \<open>Every manifest can be read, and every live workload is current.\<close>

definition healthy_workloads :: "'w env \<Rightarrow> ('w, Application) cluster_view \<Rightarrow> bool" where
  "healthy_workloads E view \<longleftrightarrow>
     (\<forall>m. \<not> isl (workloadsFromManifest E m)) \<and>
     (\<forall>g k c. answers view (GetLive E g k) c (\<lambda>r. \<exists>obj msg. r = Inr obj \<and>
        ComputeStatus E obj = Inr (CurrentStatus, msg)))"

text \<open>The values a spec names are readable, and their hash is \<open>h\<close>.\<close>

definition values_are :: "'w env \<Rightarrow> ('w, Application) cluster_view \<Rightarrow> ApplicationSpec \<Rightarrow> string \<Rightarrow> string \<Rightarrow> bool" where
  "values_are E view spec namespace h \<longleftrightarrow>
     (case ValuesSecretRef spec of
        None \<Rightarrow> h = ''''
      | Some ref \<Rightarrow>
          (\<forall>c. answers view (GetSecret E \<lparr>nnNamespace = namespace, nnName = refName ref\<rparr>) c
            (\<lambda>r. \<exists>secret raw vals. r = Inr secret \<and>
               map_of (secretData secret) (if refKey ref = '''' then ''values.yaml'' else refKey ref) = Some raw \<and>
               ReadValues E raw = Inr vals \<and> h = hex_EncodeToString (Sha256Sum E raw))))"

text \<open>
  The API server reads what it holds, and accepts a write made from what it holds. The new
  object has the spec, the finalizers and, up to conditions and the cutting of times, the status
  that were sent; only its resource version is new.
\<close>

definition written :: "Application \<Rightarrow> Application \<Rightarrow> bool" where
  "written app new \<longleftrightarrow> (\<exists>v. Meta new = (Meta app)\<lparr>ResourceVersion := v\<rparr>) \<and>
     Spec new = Spec app \<and> recorded (Status new) = recorded (Status app)"

definition sole_writer :: "'w env \<Rightarrow> ('w, Application) cluster_view \<Rightarrow> NamespacedName \<Rightarrow> bool" where
  "sole_writer E view req \<longleftrightarrow>
     (\<forall>a d. answers view (GetApplication E req) (a, d) (\<lambda>r. r = Inr a)) \<and>
     (\<forall>a d app. Meta app = Meta a \<longrightarrow> Spec app = Spec a \<longrightarrow>
        does view (UpdateStatus E app) (a, d) (\<lambda>r c'. \<exists>new. r = Inr new \<and> c' = (new, d) \<and> written app new)) \<and>
     (\<forall>a d fs app. app = a\<lparr>Meta := (Meta a)\<lparr>Finalizers := fs\<rparr>\<rparr> \<longrightarrow>
        does view (UpdateApplication E app) (a, d) (\<lambda>r c'. \<exists>new. r = Inr new \<and> c' = (new, d) \<and> written app new))"

definition healthy_cluster ::
  "'w env \<Rightarrow> ('w, Application) cluster_view \<Rightarrow> NamespacedName \<Rightarrow> ApplicationSpec \<Rightarrow> string \<Rightarrow> string \<Rightarrow> bool" where
  "healthy_cluster E view req spec namespace h \<longleftrightarrow> helm_answers E view \<and> namespaces_answer E view \<and>
     healthy_workloads E view \<and> values_are E view spec namespace h \<and> sole_writer E view req"

section \<open>The operations in a healthy cluster\<close>

lemma helm_calls:
  assumes "helm_answers E view"
  shows init_calm: "calm view (call (ActionInit E cfg) ev1) c (\<lambda>r. r = None)"
    and locate_calm: "calm view (call (LocateChart E po n) ev2) c (\<lambda>r. \<not> isl r)"
    and load_calm: "calm view (call (LoadChart E p) ev3) c (\<lambda>r. \<not> isl r)"
    and history_calm: "calm view (call (RunHistory E cfg n) ev4) (a, d) (\<lambda>r. case r of
        None \<Rightarrow> d | Some err \<Rightarrow> \<not> d \<and> errors_Is err ReleaseNotFoundErr)"
    and upgrade_ends: "ends view (call (RunUpgrade E u n ch vs) ev5) (a, True)
        (\<lambda>r c'. c' = (a, True) \<and> (\<exists>rel. r = Inr (V1Release rel)))"
    and install_ends: "ends view (call (RunInstall E i ch vs) ev6) (a, False)
        (\<lambda>r c'. c' = (a, True) \<and> (\<exists>rel. r = Inr (V1Release rel)))"
    and get_calm: "calm view (call (RunGet E cfg n) ev7) (a, True) (\<lambda>r. \<exists>rel. r = Inr (V1Release rel))"
    and get_missing_calm: "calm view (call (RunGet E cfg n) ev8) (a, False) isl"
  using assms unfolding helm_answers_def by (simp_all add: ends_call del: split_paired_All)

lemma toResult_V1: "\<exists>res. toResult (V1Release rel) = Inr res"
  by (simp add: toResult_def Let_def split: option.split)

lemma result_read:
  "\<exists>rel. raw = Inr (V1Release rel) \<Longrightarrow>
   calm view (case raw of Inl err \<Rightarrow> ret (Inl (f err)) | Inr rel \<Rightarrow> ret (toResult rel)) c (\<lambda>r. \<not> isl r)"
  using toResult_V1 by (auto intro!: ends_return) (metis sum.disc(2))

lemma newActionConfig_calm:
  "helm_answers E view \<Longrightarrow> calm view (newActionConfig E n) c (\<lambda>r. \<not> isl r)"
  unfolding newActionConfig_def Let_def
  by (rule ends_after, erule init_calm) (simp add: ends_return)

lemma loadChart_calm:
  assumes "helm_answers E view"
  shows "calm view (loadChart E rs) c (\<lambda>r. \<not> isl r)"
  unfolding loadChart_def Let_def
proof (rule ends_after [OF locate_calm [OF assms]], goal_cases)
  case (1 r)
  show ?case
  proof (cases r)
    case (Inr path)
    show ?thesis unfolding Inr sum.case
      by (rule ends_after [OF load_calm [OF assms]]) (auto simp: ends_return split: sum.split)
  qed (use 1 in simp)
qed

lemma releaseExists_calm:
  assumes "helm_answers E view"
  shows "calm view (releaseExists E cfg n) (a, d) (\<lambda>r. r = Inr d)"
  unfolding releaseExists_def
  by (rule ends_after [OF history_calm [OF assms]]) (auto intro!: ends_return split: option.splits)

lemma InstallOrUpgrade_ends:
  assumes "helm_answers E view"
  shows "ends view (InstallOrUpgrade E rs) (a, d) (\<lambda>r c'. c' = (a, True) \<and> \<not> isl r)"
  unfolding InstallOrUpgrade_def Let_def
proof (rule ends_after [OF newActionConfig_calm [OF assms]], goal_cases)
  case (1 r)
  then obtain cfg where r: "r = Inr cfg" by (cases r) auto
  show ?case unfolding r sum.case
  proof (rule ends_after [OF loadChart_calm [OF assms]], goal_cases)
    case (1 r')
    then obtain ch where r': "r' = Inr ch" by (cases r') auto
    show ?case unfolding r' sum.case
    proof (rule ends_after [OF releaseExists_calm [OF assms]], goal_cases)
      case (1 x)
      show ?case
        by (cases d) (use 1 in \<open>auto intro!: ends_step [OF upgrade_ends [OF assms]]
          ends_step [OF install_ends [OF assms]] result_read\<close>)
    qed
  qed
qed

lemma GetRelease_calm:
  assumes "helm_answers E view"
  shows "calm view (GetRelease E n ns) (a, True) (\<lambda>r. \<not> isl r)"
  unfolding GetRelease_def
proof (rule ends_after [OF newActionConfig_calm [OF assms]], goal_cases)
  case (1 r)
  then obtain cfg where r: "r = Inr cfg" by (cases r) auto
  show ?case unfolding r sum.case
    by (rule ends_after [OF get_calm [OF assms]]) (rule result_read)
qed

lemma GetRelease_missing_calm:
  assumes "helm_answers E view"
  shows "calm view (GetRelease E n ns) (a, False) isl"
  unfolding GetRelease_def
proof (rule ends_after [OF newActionConfig_calm [OF assms]], goal_cases)
  case (1 r)
  then obtain cfg where r: "r = Inr cfg" by (cases r) auto
  show ?case unfolding r sum.case
    by (rule ends_after [OF get_missing_calm [OF assms]]) (auto simp: isl_def intro!: ends_return)
qed

lemma namespace_calls:
  assumes "namespaces_answer E view"
  shows get_namespace_calm: "calm view (c_GetNamespace E n) c (\<lambda>r. case r of
        Inl err \<Rightarrow> errors_Is err NotFoundErr | Inr _ \<Rightarrow> True)"
    and create_namespace_calm: "calm view (c_CreateNamespace E ns) c (\<lambda>r. r = None)"
    and list_calm: "calm view (c_List E opts) c (\<lambda>_. True)"
  using assms unfolding namespaces_answer_def client_defs by (simp_all add: ends_call del: split_paired_All)

lemma ensureNamespace_calm:
  assumes "namespaces_answer E view"
  shows "calm view (ensureNamespace E n) c (\<lambda>r. r = None)"
  unfolding ensureNamespace_def
proof (rule ends_after [OF get_namespace_calm [OF assms]], goal_cases)
  case (1 r)
  show ?case
    by (cases r) (use 1 in \<open>auto intro!: ends_return ends_after [OF create_namespace_calm [OF assms]]\<close>)
qed

lemma refreshActiveGauge_calm:
  assumes "\<And>opts. calm view (c_List E opts) c (\<lambda>_. True)"
  shows "calm view (refreshActiveGauge E) c (\<lambda>_. True)"
  unfolding refreshActiveGauge_def Let_def
proof (rule ends_after [OF assms], goal_cases)
  case (1 r)
  have "calm view ((\<lambda>(ns, n). signal (EvGaugeSet ns n)) x) c (\<lambda>_. True)" for x
    by (cases x) (simp add: calm_signal [simplified])
  then have sets: "calm view (for_each xs (\<lambda>(ns, n). signal (EvGaugeSet ns n))) c (\<lambda>_. True)" for xs
    by (rule calm_for_each)
  show ?case
    by (cases r) (auto intro!: ends_return ends_after [OF calm_signal] sets [simplified])
qed

text \<open>The deferred calls leave the view alone.\<close>

lemma Reconcile_ends:
  assumes "ends view (reconcile_body E req) c Q" "\<And>opts c. calm view (c_List E opts) c (\<lambda>_. True)"
  shows "ends view (Reconcile E req) c Q"
  unfolding Reconcile_def
proof (rule ends_step [OF assms(1)], goal_cases)
  case (1 r c')
  show ?case
    by (rule ends_after [OF refreshActiveGauge_calm [OF assms(2)]], rule ends_after [OF calm_signal])
      (simp add: ends_return 1)
qed

lemma resolveValues_calm:
  assumes "values_are E view (Spec app) (metaNamespace (Meta app)) h"
  shows "calm view (resolveValues E app) c (\<lambda>r. \<exists>vals. r = Inr (vals, h))"
proof (cases "ValuesSecretRef (Spec app)")
  case (Some ref)
  let ?k = "if refKey ref = '''' then ''values.yaml'' else refKey ref"
  have get: "calm view (c_GetSecret E \<lparr>nnNamespace = metaNamespace (Meta app), nnName = refName ref\<rparr>) c
      (\<lambda>r. \<exists>secret raw vals. r = Inr secret \<and> map_of (secretData secret) ?k = Some raw \<and>
         ReadValues E raw = Inr vals \<and> h = hex_EncodeToString (Sha256Sum E raw))"
    using assms unfolding values_are_def Some option.case client_defs by (blast intro: ends_call)
  show ?thesis unfolding resolveValues_def Some option.case Let_def
    by (rule ends_after [OF get]) (auto simp: ParseValues_def intro!: ends_return split del: if_split)
qed (use assms in \<open>simp add: resolveValues_def values_are_def ends_return\<close>)

lemma health_loop_calm:
  assumes "healthy_workloads E view"
  shows "calm view (health_loop E ns ws CurrentStatus detail) c (\<lambda>r. r = Inr (CurrentStatus, detail))"
proof (induction ws)
  case (Cons w ws)
  have get: "calm view (c_GetLive E g k) c (\<lambda>r. \<exists>obj msg. r = Inr obj \<and>
      ComputeStatus E obj = Inr (CurrentStatus, msg))" for g k
    using assms unfolding healthy_workloads_def client_defs by (blast intro: ends_call)
  show ?case unfolding health_loop.simps
    by (rule ends_after [OF get]) (use Cons in auto)
qed (simp add: ends_return)

lemma releaseHealth_calm:
  assumes "healthy_workloads E view"
  shows "calm view (releaseHealth E m ns) c (\<lambda>r. \<exists>detail. r = Inr (CurrentStatus, detail))"
proof -
  obtain ws where ws: "workloadsFromManifest E m = Inr ws"
    using assms unfolding healthy_workloads_def by (cases "workloadsFromManifest E m") (auto dest: spec [of _ m])
  show ?thesis
    unfolding releaseHealth_def ws sum.case
    by (auto intro!: ends_return ends_mono [OF health_loop_calm [OF assms]])
qed

section \<open>The three kinds of pass\<close>

text \<open>Setting a condition changes nothing but conditions.\<close>

lemma setCondition_calm:
  "calm view (setCondition E app ty st reason msg) c (\<lambda>app'. Meta app' = Meta app \<and>
     Spec app' = Spec app \<and> recorded (Status app') = recorded (Status app))"
  unfolding setCondition_def
  by (rule ends_after [OF calm_peek [of "\<lambda>_. True"]]) (auto intro!: ends_return simp: recorded_def)

lemma server_calls:
  assumes "sole_writer E view req"
  shows get_application_calm: "calm view (c_GetApplication E req) (a, d) (\<lambda>r. r = Inr a)"
    and status_update_ends: "Meta app = Meta a \<Longrightarrow> Spec app = Spec a \<Longrightarrow>
      ends view (c_StatusUpdate E app) (a, d) (\<lambda>r c'. \<exists>new. r = Inr new \<and> c' = (new, d) \<and> written app new)"
    and update_ends: "ends view (c_Update E (a\<lparr>Meta := (Meta a)\<lparr>Finalizers := fs\<rparr>\<rparr>)) (a, d)
      (\<lambda>r c'. \<exists>new. r = Inr new \<and> c' = (new, d) \<and> written (a\<lparr>Meta := (Meta a)\<lparr>Finalizers := fs\<rparr>\<rparr>) new)"
  using assms unfolding sole_writer_def client_defs by (simp_all add: ends_call)

lemma applyRelease_ends:
  assumes "healthy_cluster E view req spec namespace h"
  shows "ends view (applyRelease E a vals hash) (a, d) (\<lambda>_ c'. \<exists>b. c' = (b, True) \<and>
     (\<exists>v. Meta b = (Meta a)\<lparr>ResourceVersion := v\<rparr>) \<and> Spec b = Spec a \<and>
     \<not> needsApply b hash \<and> LastFailedRevision (Status b) = 0 \<and> Phase (Status b) = PhaseDeploying)"
proof -
  note laws = assms [unfolded healthy_cluster_def]
  show ?thesis
    unfolding applyRelease_def
  proof (rule ends_after [OF ensureNamespace_calm], goal_cases)
    case (2 r)
    show ?case unfolding 2 option.case
    proof (rule ends_step [OF InstallOrUpgrade_ends], goal_cases)
      case (2 r c')
      then obtain res where r: "r = Inr res" and c': "c' = (a, True)" by (cases r) auto
      show ?case unfolding r c' sum.case Let_def
      proof (rule ends_after [OF calm_peek [of "\<lambda>_. True"]], simp, 
          rule ends_after [OF setCondition_calm], rule ends_after [OF setCondition_calm],
          rule ends_step [OF status_update_ends], goal_cases)
        case (4 now app2 app3 r c')
        then obtain new where new: "r = Inr new" "c' = (new, True)" "written app3 new" by blast
        have "recorded (Status new) = recorded (applied_status a res hash now (Status a))"
          using 4 new(3) by (simp add: written_def)
        note f = recorded_fields [OF this]
        show ?case
          using 4 new f by (auto simp: written_def needsApply_def applied_status_def intro!: ends_return)
      qed (use laws in auto)
    qed (use laws in auto)
  qed (use laws in auto)
qed

lemma drivePhase_current_ends:
  assumes "sole_writer E view req" "LastFailedRevision (Status a) = 0"
  shows "ends view (drivePhase E a CurrentStatus detail) (a, d) (\<lambda>_ c'. \<exists>b. c' = (b, d) \<and>
     (\<exists>v. Meta b = (Meta a)\<lparr>ResourceVersion := v\<rparr>) \<and> Spec b = Spec a \<and>
     recorded (Status b) = (recorded (Status a))\<lparr>Phase := PhaseDeployed\<rparr>)"
proof -
  have phase: "recorded (s\<lparr>Phase := p\<rparr>) = (recorded s)\<lparr>Phase := p\<rparr>" for s p
    by (simp add: recorded_def)
  have signalled: "calm view (if b then signal ev else ret ()) (a, d) (\<lambda>_. True)" for b ev
    by (simp add: ends_return calm_signal [simplified])
  have late: "calm view (if CurrentStatus = FailedStatus then ret True
      else if CurrentStatus \<noteq> CurrentStatus then deadlineExceeded E a else ret False) (a, d) (\<lambda>r. \<not> r)"
    by (simp add: ends_return)
  show ?thesis
    unfolding drivePhase_def Let_def
  proof (rule ends_after [OF late], simp only: assms(2) if_False if_True simp_thms, rule ends_after [OF signalled],
      rule ends_after [OF setCondition_calm], rule ends_after [OF setCondition_calm], goal_cases)
    case (1 late u app2 app3)
    then have app3: "Meta app3 = Meta a" "Spec app3 = Spec a"
        "recorded (Status app3) = (recorded (Status a))\<lparr>Phase := PhaseDeployed\<rparr>"
      by (simp_all add: phase)
    show ?case
    proof (cases "Status a = Status app3")
      case True
      have "\<exists>v. Meta a = (Meta a)\<lparr>ResourceVersion := v\<rparr>"
        by (rule exI [of _ "ResourceVersion (Meta a)"]) simp
      with True app3(3) show ?thesis
        by (auto simp: write_if_changed_def intro!: ends_return)
    next
      case False
      show ?thesis unfolding write_if_changed_def if_P [OF False]
        by (rule ends_step [OF status_update_ends [OF assms(1) app3(1,2)]])
          (use app3 in \<open>auto simp: written_def intro!: ends_return; blast\<close>)
    qed
  qed
qed

lemma reconcileHealth_ends:
  assumes "healthy_cluster E view req spec namespace h" "LastFailedRevision (Status a) = 0"
  shows "ends view (reconcileHealth E a) (a, True) (\<lambda>_ c'. \<exists>b. c' = (b, True) \<and>
     (\<exists>v. Meta b = (Meta a)\<lparr>ResourceVersion := v\<rparr>) \<and> Spec b = Spec a \<and>
     recorded (Status b) = (recorded (Status a))\<lparr>Phase := PhaseDeployed\<rparr>)"
proof -
  note laws = assms(1) [unfolded healthy_cluster_def]
  show ?thesis
    unfolding reconcileHealth_def
  proof (rule ends_after [OF GetRelease_calm], goal_cases)
    case (2 r)
    then obtain rel where r: "r = Inr rel" by (cases r) auto
    show ?case unfolding r sum.case
    proof (rule ends_after [OF releaseHealth_calm], goal_cases)
      case (2 r')
      then obtain detail where r': "r' = Inr (CurrentStatus, detail)" by blast
      show ?case unfolding r' sum.case prod.case
        by (rule drivePhase_current_ends) (use laws assms(2) in auto)
    qed (use laws in auto)
  qed (use laws in auto)
qed

text \<open>
  Two checks of the health that change nothing: that of a healthy release at rest after a
  rollback, and that of a release which is not there.
\<close>

lemma drivePhase_resting_calm:
  assumes "LastFailedRevision (Status a) \<noteq> 0"
  shows "calm view (drivePhase E a CurrentStatus detail) c (\<lambda>_. True)"
proof -
  have late: "calm view (if CurrentStatus = FailedStatus then ret True
      else if CurrentStatus \<noteq> CurrentStatus then deadlineExceeded E a else ret False) c (\<lambda>r. \<not> r)"
    by (simp add: ends_return)
  show ?thesis
    unfolding drivePhase_def Let_def
    by (rule ends_after [OF late]) (simp add: assms write_if_changed_def ends_return)
qed

lemma reconcileHealth_idle_calm:
  assumes "healthy_cluster E view req spec namespace h" "\<not> d \<or> LastFailedRevision (Status a) \<noteq> 0"
  shows "calm view (reconcileHealth E a) (a, d) (\<lambda>_. True)"
proof (cases d)
  case False
  have helm: "helm_answers E view" using assms(1) by (simp add: healthy_cluster_def)
  have "calm view (reconcileHealth E a) (a, False) (\<lambda>_. True)"
    unfolding reconcileHealth_def
    by (rule ends_after [OF GetRelease_missing_calm [OF helm]]) (auto simp: isl_def intro!: ends_return)
  then show ?thesis using False by simp
next
  case True
  note laws = assms(1) [unfolded healthy_cluster_def]
  have "calm view (reconcileHealth E a) (a, True) (\<lambda>_. True)"
    unfolding reconcileHealth_def
  proof (rule ends_after [OF GetRelease_calm], goal_cases)
    case (2 r)
    then obtain rel where r: "r = Inr rel" by (cases r) auto
    show ?case unfolding r sum.case
    proof (rule ends_after [OF releaseHealth_calm], goal_cases)
      case (2 r')
      then obtain detail where r': "r' = Inr (CurrentStatus, detail)" by blast
      show ?case unfolding r' sum.case prod.case
        by (rule drivePhase_resting_calm) (use True assms(2) in simp)
    qed (use laws in auto)
  qed (use laws in auto)
  then show ?thesis using True by simp
qed

section \<open>A pass\<close>

text \<open>How many passes an Application is away from being settled.\<close>

definition distance :: "string \<Rightarrow> Application \<Rightarrow> nat" where
  "distance h a =
     (if finalizerName \<notin> set (Finalizers (Meta a)) then 3
      else if needsApply a h then 2
      else if Phase (Status a) \<noteq> PhaseDeployed then 1 else 0)"

text \<open>The applications the argument follows: live ones with this spec, that can move.\<close>

definition movable :: "ApplicationSpec \<Rightarrow> string \<Rightarrow> string \<Rightarrow> Application \<times> bool \<Rightarrow> bool" where
  "movable spec namespace h c \<longleftrightarrow> (case c of (a, d) \<Rightarrow>
     live_app a \<and> Spec a = spec \<and> metaNamespace (Meta a) = namespace \<and>
     (needsApply a h \<or> d \<and> LastFailedRevision (Status a) = 0))"

definition closer :: "ApplicationSpec \<Rightarrow> string \<Rightarrow> string \<Rightarrow> Application \<times> bool \<Rightarrow> Application \<times> bool \<Rightarrow> bool" where
  "closer spec namespace h c c' \<longleftrightarrow> movable spec namespace h c' \<and> distance h (fst c') \<le> distance h (fst c) - 1"

lemma reconcile_live_ends:
  assumes "healthy_cluster E view req spec namespace h" "movable spec namespace h (a, d)"
    "finalizerName \<in> set (Finalizers (Meta a))"
  shows "ends view (reconcile_live E a) (a, d) (\<lambda>_. closer spec namespace h (a, d))"
proof -
  have a: "live_app a" "Spec a = spec" "metaNamespace (Meta a) = namespace"
      "needsApply a h \<or> d \<and> LastFailedRevision (Status a) = 0"
    using assms(2) by (auto simp: movable_def)
  have vals: "values_are E view (Spec a) (metaNamespace (Meta a)) h"
    using assms(1) a by (simp add: healthy_cluster_def)
  show ?thesis
    unfolding reconcile_live_def
  proof (rule ends_after [OF resolveValues_calm [OF vals]], goal_cases)
    case (1 r)
    then obtain vals where r: "r = Inr (vals, h)" by blast
    show ?case unfolding r sum.case prod.case
    proof (cases "needsApply a h")
      case True
      then show "ends view (if needsApply a h then applyRelease E a vals h else reconcileHealth E a) (a, d)
          (\<lambda>_. closer spec namespace h (a, d))"
        using a assms(3) by (auto intro!: ends_mono [OF applyRelease_ends [OF assms(1)]]
          simp: closer_def movable_def distance_def live_app_def)
    next
      case False
      then have d: "d" "LastFailedRevision (Status a) = 0" using a(4) by auto
      have "closer spec namespace h (a, True) (b, True)"
        if "Meta b = (Meta a)\<lparr>ResourceVersion := v\<rparr>" "Spec b = Spec a"
          and "recorded (Status b) = (recorded (Status a))\<lparr>Phase := PhaseDeployed\<rparr>" for b v
        using recorded_fields [of "Status b" "(Status a)\<lparr>Phase := PhaseDeployed\<rparr>"] that a d False assms(3)
        by (auto simp: closer_def movable_def distance_def live_app_def needsApply_def recorded_def)
      then show "ends view (if needsApply a h then applyRelease E a vals h else reconcileHealth E a) (a, d)
          (\<lambda>_. closer spec namespace h (a, d))"
        using False d by (auto intro!: ends_mono [OF reconcileHealth_ends [OF assms(1)]])
    qed
  qed
qed

lemma reconcile_body_closer:
  assumes "finalizer_laws E" "healthy_cluster E view req spec namespace h" "movable spec namespace h (a, d)"
  shows "ends view (reconcile_body E req) (a, d) (\<lambda>_. closer spec namespace h (a, d))"
proof -
  have server: "sole_writer E view req" using assms(2) by (simp add: healthy_cluster_def)
  have live: "live_app a" using assms(3) by (simp add: movable_def)
  show ?thesis
    unfolding reconcile_body_def
  proof (rule ends_after [OF get_application_calm [OF server]], goal_cases)
    case (1 r)
    show ?case
    proof (cases "finalizerName \<in> set (Finalizers (Meta a))")
      case True
      then show ?thesis
        using 1 live reconcile_live_ends [OF assms(2,3) True]
        by (simp add: add_finalizer_present [OF assms(1) True])
    next
      case False
      let ?b = "\<lambda>fs. a\<lparr>Meta := (Meta a)\<lparr>Finalizers := fs\<rparr>\<rparr>"
      obtain fs where fs: "AddFinalizer E a finalizerName = (?b fs, True)" "finalizerName \<in> set fs"
        using add_finalizer_absent [OF assms(1) False] by auto
      have closer: "closer spec namespace h (a, d) (new, d)" if w: "written (?b fs) new" for new
      proof -
        have "recorded (Status new) = recorded (Status a)" using w by (simp add: written_def)
        note f = recorded_fields [OF this]
        show ?thesis
          using w f assms(3) False fs(2)
          by (auto simp: closer_def movable_def distance_def written_def live_app_def needsApply_def)
      qed
      show ?thesis
        using 1 live by (auto simp: fs(1) intro!: ends_step [OF update_ends [OF server]] ends_return closer)
    qed
  qed
qed

lemma Reconcile_closer:
  assumes "finalizer_laws E" "healthy_cluster E view req spec namespace h" "movable spec namespace h (a, d)"
  shows "ends view (Reconcile E req) (a, d) (\<lambda>_. closer spec namespace h (a, d))"
  using assms(2)
  by (intro Reconcile_ends reconcile_body_closer assms list_calm) (simp add: healthy_cluster_def)

section \<open>Where nothing moves\<close>

text \<open>
  The gate of the apply step looks at the status only. So an Application whose status says
  applied is left where it is when its release rests after a rollback, and also when its
  release is not there any more.
\<close>

definition idle :: "string \<Rightarrow> Application \<Rightarrow> Application \<times> bool \<Rightarrow> bool" where
  "idle h a c \<longleftrightarrow> (case c of (b, d) \<Rightarrow>
     live_app b \<and> Spec b = Spec a \<and> metaNamespace (Meta b) = metaNamespace (Meta a) \<and>
     \<not> needsApply b h \<and> (\<not> d \<or> LastFailedRevision (Status b) \<noteq> 0) \<and> recorded (Status b) = recorded (Status a))"

lemma reconcile_live_idle:
  assumes "healthy_cluster E view req spec namespace h" "\<not> needsApply a h" "Spec a = spec"
    "metaNamespace (Meta a) = namespace" "\<not> d \<or> LastFailedRevision (Status a) \<noteq> 0"
  shows "calm view (reconcile_live E a) (a, d) (\<lambda>_. True)"
proof -
  have vals: "values_are E view (Spec a) (metaNamespace (Meta a)) h"
    using assms by (simp add: healthy_cluster_def)
  show ?thesis
    unfolding reconcile_live_def
  proof (rule ends_after [OF resolveValues_calm [OF vals]], goal_cases)
    case (1 r)
    then obtain vals where r: "r = Inr (vals, h)" by blast
    show ?case unfolding r sum.case prod.case if_not_P [OF assms(2)]
      by (rule reconcileHealth_idle_calm [OF assms(1,5)])
  qed
qed

lemma reconcile_body_idle:
  assumes "finalizer_laws E" "healthy_cluster E view req (Spec a0) (metaNamespace (Meta a0)) h" "idle h a0 (a, d)"
  shows "ends view (reconcile_body E req) (a, d) (\<lambda>_ c'. idle h a0 c' \<and> snd c' = d)"
proof -
  have server: "sole_writer E view req" using assms(2) by (simp add: healthy_cluster_def)
  have i: "live_app a" "Spec a = Spec a0" "metaNamespace (Meta a) = metaNamespace (Meta a0)" "\<not> needsApply a h"
      "\<not> d \<or> LastFailedRevision (Status a) \<noteq> 0"
    using assms(3) by (simp_all add: idle_def)
  show ?thesis
    unfolding reconcile_body_def
  proof (rule ends_after [OF get_application_calm [OF server]], goal_cases)
    case (1 r)
    show ?case
    proof (cases "finalizerName \<in> set (Finalizers (Meta a))")
      case True
      have "ends view (reconcile_live E a) (a, d) (\<lambda>_ c'. idle h a0 c' \<and> snd c' = d)"
        by (rule ends_mono [OF reconcile_live_idle [OF assms(2) i(4,2,3,5)]]) (use assms(3) in simp)
      then show ?thesis
        using 1 i(1) by (simp add: add_finalizer_present [OF assms(1) True])
    next
      case False
      let ?b = "\<lambda>fs. a\<lparr>Meta := (Meta a)\<lparr>Finalizers := fs\<rparr>\<rparr>"
      obtain fs where fs: "AddFinalizer E a finalizerName = (?b fs, True)"
        using add_finalizer_absent [OF assms(1) False] by auto
      have idle: "idle h a0 (new, d)" if w: "written (?b fs) new" for new
      proof -
        have r: "recorded (Status new) = recorded (Status a)" using w by (simp add: written_def)
        note f = recorded_fields [OF r]
        show ?thesis
          using w f r assms(3) by (auto simp: idle_def written_def live_app_def needsApply_def)
      qed
      show ?thesis
        using 1 i(1) by (auto simp: fs intro!: ends_step [OF update_ends [OF server]] ends_return idle)
    qed
  qed
qed

section \<open>Any number of passes\<close>

lemma ends_next:
  assumes "ends view (Reconcile E req) c Q" "view (world s) = Some c"
  shows "\<exists>c'. view (world (reconcile_next E req s)) = Some c' \<and> Q (reconcile_result E req s) c'"
  using assms unfolding ends_def reconcile_next_def reconcile_result_def by (metis prod.collapse)

fun passes :: "nat \<Rightarrow> 'w env \<Rightarrow> NamespacedName \<Rightarrow> ('w, event) st \<Rightarrow> ('w, event) st" where
  "passes 0 E req s = s"
| "passes (Suc n) E req s = passes n E req (reconcile_next E req s)"

lemma passes_closer:
  assumes "finalizer_laws E" "healthy_cluster E view req spec namespace h"
    "view (world s) = Some c" "movable spec namespace h c"
  shows "\<exists>c'. view (world (passes n E req s)) = Some c' \<and> movable spec namespace h c' \<and>
    distance h (fst c') \<le> distance h (fst c) - n"
  using assms(3,4)
proof (induction n arbitrary: s c)
  case (Suc n)
  obtain a d where c: "c = (a, d)" by (cases c)
  let ?s = "reconcile_next E req s"
  obtain c1 where c1: "view (world ?s) = Some c1" "closer spec namespace h c c1"
    using ends_next [OF Reconcile_closer [OF assms(1,2) Suc.prems(2) [unfolded c]] Suc.prems(1) [unfolded c]]
    unfolding c by blast
  then have "movable spec namespace h c1" "distance h (fst c1) \<le> distance h (fst c) - 1"
    by (simp_all add: closer_def)
  moreover obtain c' where "view (world (passes n E req ?s)) = Some c'" "movable spec namespace h c'"
      "distance h (fst c') \<le> distance h (fst c1) - n"
    using Suc.IH [OF c1(1)] calculation(1) by blast
  ultimately show ?case
    by (intro exI [of _ c']) simp
qed auto

lemma idle_passes:
  assumes "finalizer_laws E" "healthy_cluster E view req (Spec a0) (metaNamespace (Meta a0)) h"
    "view (world s) = Some (a, d)" "idle h a0 (a, d)"
  shows "\<exists>b. view (world (passes n E req s)) = Some (b, d) \<and> idle h a0 (b, d)"
  using assms(3,4)
proof (induction n arbitrary: s a)
  case (Suc n)
  have list: "calm view (c_List E opts) c (\<lambda>_. True)" for opts c
    using assms(2) by (intro list_calm) (simp add: healthy_cluster_def)
  from ends_next [OF Reconcile_ends [OF reconcile_body_idle [OF assms(1,2) Suc.prems(2)] list] Suc.prems(1)]
  obtain c where "view (world (reconcile_next E req s)) = Some c" "idle h a0 c" "snd c = d" by blast
  moreover from \<open>snd c = d\<close> have "c = (fst c, d)" by (cases c) simp
  ultimately obtain b where "view (world (reconcile_next E req s)) = Some (b, d)" "idle h a0 (b, d)" by metis
  with Suc.IH show ?case by simp
qed auto

text \<open>
  An applied Application whose release has vanished, or that rests after a rollback, is left with
  the same release (or none) and, up to conditions, the same status.
\<close>

lemma vanished_release_is_not_restored:
  assumes "finalizer_laws E" "healthy_cluster E view req spec namespace h"
    "view (world s) = Some (a, d)" "live_app a" "Spec a = spec" "metaNamespace (Meta a) = namespace"
    "\<not> needsApply a h" "\<not> d \<or> LastFailedRevision (Status a) \<noteq> 0"
  shows "\<exists>b. view (world (passes n E req s)) = Some (b, d) \<and> Spec b = spec \<and>
    recorded (Status b) = recorded (Status a)"
proof -
  have "idle h a (a, d)" using assms(4-8) by (simp add: idle_def)
  from idle_passes [OF assms(1) assms(2) [folded assms(5,6)] assms(3) this]
  show ?thesis using assms(5) by (fastforce simp: idle_def)
qed

section \<open>The property\<close>

lemma settles:
  assumes "finalizer_laws E" "healthy_cluster E view req spec namespace h"
    "view (world s) = Some (a, d)" "live_app a" "Spec a = spec" "metaNamespace (Meta a) = namespace"
    "needsApply a h \<or> d \<and> LastFailedRevision (Status a) = 0" "n \<ge> 3"
  shows "\<exists>b. view (world (passes n E req s)) = Some (b, True) \<and> Spec b = spec \<and>
    finalizerName \<in> set (Finalizers (Meta b)) \<and> Phase (Status b) = PhaseDeployed \<and>
    ObservedGeneration (Status b) = Generation (Meta b) \<and> LastAppliedValuesHash (Status b) = h \<and>
    LastFailedRevision (Status b) = 0"
proof -
  have "movable spec namespace h (a, d)" using assms(4-7) by (simp add: movable_def)
  then obtain b d' where b: "view (world (passes n E req s)) = Some (b, d')" "movable spec namespace h (b, d')"
      "distance h b \<le> distance h a - n"
    using passes_closer [OF assms(1-3), of n] by auto
  have "distance h a \<le> 3" by (simp add: distance_def)
  then have "distance h b = 0" using b(3) assms(8) by simp
  then show ?thesis
    using b(1,2) by (auto simp: distance_def movable_def needsApply_def split: if_splits)
qed

text \<open>C9. Which Applications the reconciler settles, exactly. In a cluster in which every call
  succeeds (but for reading a release that does not exist), the workloads of the release are
  current and nobody else writes the Application, a live Application is settled after three
  passes, and after every further one, if and only if something is to be applied (no status yet,
  an old generation, old values), or its release exists and no failed revision is recorded.
  Settled means: it carries the finalizer, its release exists, and its status says Deployed at the
  object's own generation and at the hash of its values, with no failed revision. The two kinds
  of Application that never settle, with nothing to apply, are the one at rest after a rollback of
  its generation, as is meant, and the one whose release vanished after it was applied: it is not
  installed again.\<close>

theorem reconciliation_converges:
  assumes "finalizer_laws E" "healthy_cluster E view req spec namespace h"
    "view (world s) = Some (a, d)" "live_app a" "Spec a = spec" "metaNamespace (Meta a) = namespace" "n \<ge> 3"
  shows "(\<exists>b. view (world (passes n E req s)) = Some (b, True) \<and> Spec b = spec \<and>
      finalizerName \<in> set (Finalizers (Meta b)) \<and> Phase (Status b) = PhaseDeployed \<and>
      ObservedGeneration (Status b) = Generation (Meta b) \<and> LastAppliedValuesHash (Status b) = h \<and>
      LastFailedRevision (Status b) = 0) \<longleftrightarrow>
    needsApply a h \<or> d \<and> LastFailedRevision (Status a) = 0"
proof (cases "needsApply a h \<or> d \<and> LastFailedRevision (Status a) = 0")
  case True
  with settles [OF assms(1-6) _ assms(7)] show ?thesis by blast
next
  case False
  then have stuck: "\<not> needsApply a h" "\<not> d \<or> LastFailedRevision (Status a) \<noteq> 0" by auto
  from vanished_release_is_not_restored [OF assms(1-6) this, of n] obtain b
    where b: "view (world (passes n E req s)) = Some (b, d)" "recorded (Status b) = recorded (Status a)" by blast
  with recorded_fields(2) [OF b(2)] False show ?thesis by auto
qed

text \<open>A first installation in the concrete environment, with current workloads.\<close>

abbreviation demo_current :: "demo env" where
  "demo_current \<equiv> demo_env (\<lambda>_ _. CurrentStatus)"

definition demo_view :: "(demo, Application) cluster_view" where
  "demo_view w = (case dApp w of
     None \<Rightarrow> None
   | Some app \<Rightarrow> if app_key app = demo_req then Some (app, dReleases w \<noteq> []) else None)"

definition demo_new :: Application where
  "demo_new = (demo_finalizers (\<lambda>_. []) (demo_app (demo_status PhasePending 0 0)))
     \<lparr>Status := (demo_status PhasePending 0 0)\<lparr>ObservedGeneration := 0\<rparr>\<rparr>"

lemma demo_view_Some:
  "demo_view w = Some (a, d) \<longleftrightarrow> dApp w = Some a \<and> app_key a = demo_req \<and> d = (dReleases w \<noteq> [])"
  by (auto simp: demo_view_def split: option.splits)

lemma demo_helm_answers: "helm_answers demo_current demo_view"
  unfolding helm_answers_def does_def
  by (auto simp: demo_env_def demo_view_Some demo_history_def demo_push_def demo_latest_def
      split: list.splits)

lemma demo_namespaces_answer: "namespaces_answer demo_current demo_view"
  unfolding namespaces_answer_def does_def
  by (auto simp: demo_env_def demo_view_Some demo_option_def demo_list_def demo_missing_def
      split: option.splits)

lemma demo_healthy_workloads: "healthy_workloads demo_current demo_view"
  unfolding healthy_workloads_def does_def
  by (auto simp: demo_env_def demo_view_Some demo_live_def demo_compute_def demo_field_def
      workloadsFromManifest_def)

lemma demo_store_written:
  assumes "f app a = app\<lparr>Status := st\<rparr>" "recorded st = recorded (Status app)"
    "ResourceVersion (Meta app) = ResourceVersion (Meta a)" "app_key app = app_key a"
  shows "does demo_view (demo_store f app) (a, d) (\<lambda>r c'. \<exists>new. r = Inr new \<and> c' = (new, d) \<and> written app new)"
  using assms unfolding does_def
  by (auto simp: demo_view_Some demo_store_def Let_def written_def app_key_def)

lemma demo_sole_writer: "sole_writer demo_current demo_view demo_req"
  unfolding sole_writer_def
proof (intro conjI allI impI)
  show "answers demo_view (GetApplication demo_current demo_req) (a, d) (\<lambda>r. r = Inr a)" for a d
    by (auto simp: does_def demo_env_def demo_view_Some demo_get_def)
next
  fix a app :: Application and d
  assume "Meta app = Meta a" "Spec app = Spec a"
  then show "does demo_view (UpdateStatus demo_current app) (a, d)
      (\<lambda>r c'. \<exists>new. r = Inr new \<and> c' = (new, d) \<and> written app new)"
    unfolding demo_env_def env.simps
    by (intro demo_store_written [of _ _ _ "Status app"]) (simp_all add: app_key_def)
next
  fix a app :: Application and d fs
  assume "app = a\<lparr>Meta := (Meta a)\<lparr>Finalizers := fs\<rparr>\<rparr>"
  then show "does demo_view (UpdateApplication demo_current app) (a, d)
      (\<lambda>r c'. \<exists>new. r = Inr new \<and> c' = (new, d) \<and> written app new)"
    unfolding demo_env_def env.simps
    by (intro demo_store_written [of _ _ _ "Status a"]) (simp_all add: app_key_def)
qed

lemma demo_healthy_cluster:
  "healthy_cluster demo_current demo_view demo_req (Spec demo_new) ''default'' ''''"
  using demo_helm_answers demo_namespaces_answer demo_healthy_workloads demo_sole_writer
  by (simp add: healthy_cluster_def values_are_def demo_new_def demo_app_def demo_finalizers_def)

text \<open>
  The first installation settles. The same Application, applied, with its release removed by
  someone else, does not.
\<close>

definition demo_vanished :: "(demo, event) st" where
  "demo_vanished = demo_state (demo_app (demo_status PhaseDeployed 2 0)) 0 10"

theorem reconciliation_converges_witness:
  "(\<exists>b. demo_view (world (passes 3 demo_current demo_req (demo_state demo_new 0 0))) = Some (b, True) \<and>
    Phase (Status b) = PhaseDeployed) \<and>
   \<not> (\<exists>b. demo_view (world (passes 3 demo_current demo_req demo_vanished)) = Some (b, True) \<and>
    Spec b = Spec demo_new \<and> finalizerName \<in> set (Finalizers (Meta b)) \<and> Phase (Status b) = PhaseDeployed \<and>
    ObservedGeneration (Status b) = Generation (Meta b) \<and> LastAppliedValuesHash (Status b) = '''' \<and>
    LastFailedRevision (Status b) = 0)"
proof -
  have start: "demo_view (world (demo_state demo_new 0 0)) = Some (demo_new, False)"
    by (simp add: demo_view_Some demo_state_def demo_world_def app_key_def demo_req_def
        demo_new_def demo_app_def demo_finalizers_def)
  have new: "live_app demo_new" "metaNamespace (Meta demo_new) = ''default''" "needsApply demo_new ''''"
    by (simp_all add: demo_new_def demo_app_def demo_finalizers_def live_app_def needsApply_def demo_status_def)
  let ?gone = "demo_app (demo_status PhaseDeployed 2 0)"
  have gone: "demo_view (world demo_vanished) = Some (?gone, False)"
    by (simp add: demo_vanished_def demo_view_Some demo_state_def demo_world_def app_key_def demo_req_def demo_app_def)
  have applied: "live_app ?gone" "Spec ?gone = Spec demo_new" "metaNamespace (Meta ?gone) = ''default''"
      "\<not> needsApply ?gone ''''"
    by (simp_all add: demo_new_def demo_app_def demo_finalizers_def live_app_def needsApply_def demo_status_def)
  show ?thesis
    using reconciliation_converges [OF demo_finalizer_laws demo_healthy_cluster start new(1) refl new(2), of 3] new(3)
      reconciliation_converges [OF demo_finalizer_laws demo_healthy_cluster gone applied(1-3), of 3] applied(4)
    by auto
qed

end
