(* ===== verification/Teardown.thy ===== *)
theory Teardown
  imports Convergence
begin

text \<open>
  Where deletion leads. In a cluster in which no call fails, the first pass over a dying
  Application removes its release, its namespace when the operator may, and the finalizer, and
  every further pass finds nothing to do. The proof is in the calculus of theory Convergence, over
  a view that holds the object, if there is one, and the target namespace.
\<close>

section \<open>A cluster that lets go\<close>

type_synonym 'w teardown_view = "('w, Application option \<times> NamespaceObj option) cluster_view"

text \<open>Uninstalling an existing release removes it.\<close>

definition uninstall_answers :: "'w env \<Rightarrow> 'w teardown_view \<Rightarrow> bool" where
  "uninstall_answers E view \<longleftrightarrow>
     (\<forall>un n c. does view (RunUninstall E un n) (c, True) (\<lambda>r c'. r = None \<and> c' = (c, False)))"

text \<open>
  The target namespace can be read or is not found, and can be deleted. The cache can be listed;
  \<open>shared\<close> says whether another live Application targets the namespace of \<open>app\<close>.
\<close>

definition cleanup_answers :: "'w env \<Rightarrow> 'w teardown_view \<Rightarrow> Application \<Rightarrow> bool \<Rightarrow> bool" where
  "cleanup_answers E view app shared \<longleftrightarrow>
     (\<forall>obj ns d. answers view (GetNamespace E (Namespace (Spec app))) ((obj, ns), d) (\<lambda>r. case ns of
        None \<Rightarrow> \<exists>err. r = Inl err \<and> errors_Is err NotFoundErr
      | Some x \<Rightarrow> r = Inr x)) \<and>
     (\<forall>obj x d. does view (DeleteNamespace E x) ((obj, Some x), d)
        (\<lambda>r c'. r = None \<and> c' = ((obj, None), d))) \<and>
     (\<forall>opts c. answers view (ListApplications E opts) c (\<lambda>r. \<exists>items. r = Inr items \<and>
        (opts = namespace_list (Namespace (Spec app)) \<longrightarrow>
         (shared \<longleftrightarrow> others_alive app items))))"

text \<open>
  The API server answers the object it holds or that there is none. A dying object is removed by
  the update that takes its last finalizer.
\<close>

definition dying_object_answers :: "'w env \<Rightarrow> 'w teardown_view \<Rightarrow> NamespacedName \<Rightarrow> bool" where
  "dying_object_answers E view req \<longleftrightarrow>
     (\<forall>obj ns d. answers view (GetApplication E req) ((obj, ns), d) (\<lambda>r. case obj of
        None \<Rightarrow> \<exists>err. r = Inl err \<and> errors_Is err NotFoundErr
      | Some a \<Rightarrow> r = Inr a)) \<and>
     (\<forall>a ns d fs. \<not> live_app a \<longrightarrow>
        does view (UpdateApplication E (a\<lparr>Meta := (Meta a)\<lparr>Finalizers := fs\<rparr>\<rparr>)) ((Some a, ns), d)
          (\<lambda>r c'. \<exists>new. r = Inr new \<and> written (a\<lparr>Meta := (Meta a)\<lparr>Finalizers := fs\<rparr>\<rparr>) new \<and>
             c' = ((if fs = [] then None else Some new, ns), d)))"

definition releasing_cluster ::
  "'w env \<Rightarrow> 'w teardown_view \<Rightarrow> NamespacedName \<Rightarrow> Application \<Rightarrow> bool \<Rightarrow> bool" where
  "releasing_cluster E view req app shared \<longleftrightarrow> helm_answers E view \<and> uninstall_answers E view \<and>
     cleanup_answers E view app shared \<and> dying_object_answers E view req"

section \<open>The operations of a deletion\<close>

lemma teardown_calls:
  assumes "releasing_cluster E view req app shared"
  shows uninstall_ends: "ends view (call (RunUninstall E un n) ev) (c, True) (\<lambda>r c'. r = None \<and> c' = (c, False))"
    and get_target_calm: "calm view (c_GetNamespace E (Namespace (Spec app))) ((obj, ns), d) (\<lambda>r. case ns of
        None \<Rightarrow> \<exists>err. r = Inl err \<and> errors_Is err NotFoundErr | Some x \<Rightarrow> r = Inr x)"
    and delete_target_ends: "ends view (c_DeleteNamespace E x) ((obj, Some x), d)
        (\<lambda>r c'. r = None \<and> c' = ((obj, None), d))"
    and list_others_calm: "calm view (c_List E opts) c' (\<lambda>r. \<exists>items. r = Inr items \<and>
        (opts = namespace_list (Namespace (Spec app)) \<longrightarrow>
         (shared \<longleftrightarrow> others_alive app items)))"
    and get_object_calm: "calm view (c_GetApplication E req) ((obj, ns), d) (\<lambda>r. case obj of
        None \<Rightarrow> \<exists>err. r = Inl err \<and> errors_Is err NotFoundErr | Some a \<Rightarrow> r = Inr a)"
    and drop_finalizers_ends: "\<not> live_app a \<Longrightarrow>
      ends view (c_Update E (a\<lparr>Meta := (Meta a)\<lparr>Finalizers := fs\<rparr>\<rparr>)) ((Some a, ns), d)
        (\<lambda>r c'. \<exists>new. r = Inr new \<and> written (a\<lparr>Meta := (Meta a)\<lparr>Finalizers := fs\<rparr>\<rparr>) new \<and>
           c' = ((if fs = [] then None else Some new, ns), d))"
  using assms
  unfolding releasing_cluster_def uninstall_answers_def cleanup_answers_def dying_object_answers_def client_defs
  by (simp_all add: ends_call del: split_paired_All)

lemma Uninstall_ends:
  assumes "releasing_cluster E view req app shared"
  shows "ends view (Uninstall E n ns) (c, d) (\<lambda>r c'. r = None \<and> c' = (c, False))"
proof -
  have helm: "helm_answers E view" using assms by (simp add: releasing_cluster_def)
  show ?thesis
    unfolding Uninstall_def Let_def
  proof (rule ends_after [OF newActionConfig_calm [OF helm]], goal_cases)
    case (1 r)
    then obtain cfg where r: "r = Inr cfg" by (cases r) auto
    show ?case unfolding r sum.case
    proof (rule ends_after [OF releaseExists_calm [OF helm]], goal_cases)
      case (1 x)
      then show ?case
        by (cases d) (auto intro!: ends_return ends_step [OF uninstall_ends [OF assms]])
    qed
  qed
qed

text \<open>What is left of the target namespace.\<close>

definition left_over :: "bool \<Rightarrow> NamespaceObj option \<Rightarrow> NamespaceObj option" where
  "left_over shared ns = (case ns of
     None \<Rightarrow> None
   | Some x \<Rightarrow>
       if go_lookup (nsAnnotations x) ''helmwarden.dev/managed-by'' = ''operator'' \<and> \<not> shared then None
       else Some x)"

lemma not_found_ignored: "ignore_law E \<Longrightarrow> errors_Is err NotFoundErr \<Longrightarrow> IgnoreNotFound E err = None"
  by (simp add: ignore_law_def)

lemma maybeDeleteNamespace_ends:
  assumes "releasing_cluster E view req app shared" "ignore_law E"
  shows "ends view (maybeDeleteNamespace E app) ((obj, ns), d)
    (\<lambda>r c'. r = None \<and> c' = ((obj, left_over shared ns), d))"
  unfolding maybeDeleteNamespace_def
proof (rule ends_after [OF get_target_calm [OF assms(1)]], goal_cases)
  case (1 r)
  show ?case
  proof (cases ns)
    case None
    then show ?thesis
      using 1 by (auto simp: not_found_ignored [OF assms(2)] left_over_def intro!: ends_return)
  next
    case (Some x)
    then have r: "r = Inr x" using 1 by simp
    show ?thesis
    proof (cases "go_lookup (nsAnnotations x) managedByAnnotation = managedByValue")
      case False
      then show ?thesis
        by (simp add: r Some left_over_def managedByAnnotation_def managedByValue_def ends_return)
    next
      case True
      have others: "calm view (otherApplicationsInNamespace E app) ((obj, ns), d)
          (\<lambda>r. \<exists>n. r = Inr n \<and> (n > 0 \<longleftrightarrow> shared))"
        unfolding otherApplicationsInNamespace_def
        by (rule ends_after [OF list_others_calm [OF assms(1)]])
          (auto simp: namespace_list_def count_others_positive intro!: ends_return)
      show ?thesis
        unfolding r sum.case
      proof (simp only: True simp_thms if_False, rule ends_after [OF others], goal_cases)
        case (1 m)
        then obtain n where m: "m = Inr n" "n > 0 \<longleftrightarrow> shared" by blast
        show ?case
          using True by (cases shared) (use m in \<open>auto simp: Some left_over_def managedByAnnotation_def managedByValue_def
            intro!: ends_return ends_step [OF delete_target_ends [OF assms(1)]]\<close>)
      qed
    qed
  qed
qed

text \<open>What is left of the object: nothing, or the object with the finalizers of others.\<close>

definition released_from :: "Application \<Rightarrow> Application option \<Rightarrow> bool" where
  "released_from a left \<longleftrightarrow> (case left of
     None \<Rightarrow> set (Finalizers (Meta a)) = {finalizerName}
   | Some b \<Rightarrow> \<not> live_app b \<and> set (Finalizers (Meta b)) = set (Finalizers (Meta a)) - {finalizerName} \<and>
       Finalizers (Meta b) \<noteq> [])"

lemma reconcileDelete_ends:
  assumes "finalizer_laws E" "ignore_law E" "releasing_cluster E view req a shared"
    "\<not> live_app a" "finalizerName \<in> set (Finalizers (Meta a))"
  shows "ends view (reconcileDelete E a) ((Some a, ns), d)
    (\<lambda>r c'. r = None \<and> (\<exists>left. c' = ((left, left_over shared ns), False) \<and> released_from a left))"
proof -
  have has: "ContainsFinalizer E a finalizerName" using assms(5) by (simp add: contains_finalizer_iff [OF assms(1)])
  obtain fs where fs: "RemoveFinalizer E a finalizerName = a\<lparr>Meta := (Meta a)\<lparr>Finalizers := fs\<rparr>\<rparr>"
      "set fs = set (Finalizers (Meta a)) - {finalizerName}"
    using remove_finalizer [OF assms(1)] by blast
  have left: "released_from a (if fs = [] then None else Some new)"
    if w: "written (a\<lparr>Meta := (Meta a)\<lparr>Finalizers := fs\<rparr>\<rparr>) new" for new
  proof -
    obtain v where v: "Meta new = (Meta (a\<lparr>Meta := (Meta a)\<lparr>Finalizers := fs\<rparr>\<rparr>))\<lparr>ResourceVersion := v\<rparr>"
      using w unfolding written_def by blast
    have "set (Finalizers (Meta a)) = {finalizerName}" if "fs = []"
      using that fs(2) assms(5) by auto
    then show ?thesis
      using v fs(2) assms(4) by (simp add: released_from_def live_app_def)
  qed
  show ?thesis
    unfolding reconcileDelete_def
  proof (simp only: has simp_thms if_False, rule ends_step [OF Uninstall_ends [OF assms(3)]], goal_cases)
    case (1 u c1)
    then have u: "u = None" "c1 = ((Some a, ns), False)" by simp_all
    show ?case unfolding u option.case
    proof (rule ends_step [OF maybeDeleteNamespace_ends [OF assms(3,2)]], goal_cases)
      case (1 r c2)
      then have r: "r = None" "c2 = ((Some a, left_over shared ns), False)" by simp_all
      show ?case unfolding r option.case fs(1)
        by (rule ends_step [OF drop_finalizers_ends [OF assms(3,4)]]) (use left in \<open>auto intro!: ends_return\<close>)
    qed
  qed
qed

section \<open>The passes\<close>

lemma first_pass_ends:
  assumes "finalizer_laws E" "ignore_law E" "releasing_cluster E view req a shared"
    "\<not> live_app a" "finalizerName \<in> set (Finalizers (Meta a))"
  shows "ends view (Reconcile E req) ((Some a, ns), d) (\<lambda>r c'. r = (emptyResult, None) \<and>
    (\<exists>left. c' = ((left, left_over shared ns), False) \<and> released_from a left))"
proof (rule Reconcile_ends)
  show "ends view (reconcile_body E req) ((Some a, ns), d) (\<lambda>r c'. r = (emptyResult, None) \<and>
      (\<exists>left. c' = ((left, left_over shared ns), False) \<and> released_from a left))"
    unfolding reconcile_body_def
  proof (rule ends_after [OF get_object_calm [OF assms(3)]], goal_cases)
    case (1 r)
    then have r: "r = Inr a" by simp
    show ?case unfolding r sum.case if_P [OF assms(4)]
      by (rule ends_step [OF reconcileDelete_ends [OF assms]]) (auto intro!: ends_return)
  qed
qed (rule ends_mono [OF list_others_calm [OF assms(3)]], simp)

text \<open>A pass that finds nothing of its own changes nothing.\<close>

lemma later_pass_calm:
  assumes "finalizer_laws E" "ignore_law E" "releasing_cluster E view req a shared" "released_from a left"
  shows "calm view (Reconcile E req) ((left, ns), d) (\<lambda>r. r = (emptyResult, None))"
proof (rule Reconcile_ends)
  show "calm view (reconcile_body E req) ((left, ns), d) (\<lambda>r. r = (emptyResult, None))"
    unfolding reconcile_body_def
  proof (rule ends_after [OF get_object_calm [OF assms(3)]], goal_cases)
    case (1 r)
    show ?case
    proof (cases left)
      case None
      then show ?thesis
        using 1 by (auto simp: not_found_ignored [OF assms(2)] intro!: ends_return)
    next
      case (Some b)
      then have "\<not> live_app b" "finalizerName \<notin> set (Finalizers (Meta b))"
        using assms(4) by (auto simp: released_from_def)
      then show ?thesis
        using 1 Some by (simp add: reconcileDelete_def contains_finalizer_iff [OF assms(1)] ends_return)
    qed
  qed
qed (rule ends_mono [OF list_others_calm [OF assms(3)]], simp)

lemma later_passes:
  assumes "finalizer_laws E" "ignore_law E" "releasing_cluster E view req a shared" "released_from a left"
    "view (world s) = Some ((left, ns), d)"
  shows "view (world (passes n E req s)) = Some ((left, ns), d)"
  using assms(5)
proof (induction n arbitrary: s)
  case (Suc n)
  then show ?case
    using ends_next [OF later_pass_calm [OF assms(1-4)] Suc.prems] by simp
qed simp

section \<open>The property\<close>

text \<open>C10. Deletion completes. In a cluster in which every call succeeds, the first pass over a dying
  Application that carries the finalizer ends without an error and asks for no further pass. After
  it, and after every further pass, the release is gone; the target namespace is gone if it carried
  the operator's mark and no other live Application targets it, and is untouched otherwise; and
  the object is gone when the finalizer was its only one, or waits, still dying, with just the
  finalizers of others.\<close>

theorem deletion_completes:
  assumes "finalizer_laws E" "ignore_law E" "releasing_cluster E view req a shared"
    "view (world s) = Some ((Some a, ns), d)" "\<not> live_app a" "finalizerName \<in> set (Finalizers (Meta a))"
    "n \<ge> 1"
  shows "reconcile_result E req s = (emptyResult, None) \<and>
    (\<exists>left. view (world (passes n E req s)) = Some ((left, left_over shared ns), False) \<and> released_from a left)"
proof -
  obtain left where left: "reconcile_result E req s = (emptyResult, None)"
      "view (world (reconcile_next E req s)) = Some ((left, left_over shared ns), False)" "released_from a left"
    using ends_next [OF first_pass_ends [OF assms(1-3,5,6)] assms(4)] by blast
  obtain m where "n = Suc m" using assms(7) by (cases n) auto
  then have "view (world (passes n E req s)) = Some ((left, left_over shared ns), False)"
    using later_passes [OF assms(1-3) left(3,2)] by simp
  with left show ?thesis by blast
qed

text \<open>The concrete environment, in which the only object an update can leave without finalizers is
  removed.\<close>

definition demo_deleting :: "demo env" where
  "demo_deleting = demo_current
     \<lparr>UpdateApplication := (\<lambda>app w.
        case demo_store (\<lambda>app cur. app\<lparr>Status := Status cur\<rparr>) app w of
          (Inr new, w') \<Rightarrow> (Inr new, if \<not> live_app new \<and> Finalizers (Meta new) = [] then w'\<lparr>dApp := None\<rparr> else w')
        | (Inl err, w') \<Rightarrow> (Inl err, w'))\<rparr>"

definition demo_teardown_view :: "demo teardown_view" where
  "demo_teardown_view w =
     (if \<forall>app\<in>set_option (dApp w). app_key app = demo_req \<and> UID (Meta app) = ''u1''
      then Some ((dApp w, dNamespace w), dReleases w \<noteq> []) else None)"

definition demo_dying :: Application where
  "demo_dying = (demo_app (demo_status PhaseDeployed 2 0))
     \<lparr>Meta := (Meta (demo_app (demo_status PhaseDeployed 2 0)))\<lparr>DeletionTimestamp := Some 9\<rparr>\<rparr>"

lemma demo_teardown_Some:
  "demo_teardown_view w = Some ((obj, ns), d) \<longleftrightarrow> dApp w = obj \<and> dNamespace w = ns \<and> d = (dReleases w \<noteq> []) \<and>
     (\<forall>app\<in>set_option obj. app_key app = demo_req \<and> UID (Meta app) = ''u1'')"
  by (auto simp: demo_teardown_view_def)

lemma demo_deleting_helm: "helm_answers demo_deleting demo_teardown_view"
  unfolding helm_answers_def does_def
  by (auto simp: demo_deleting_def demo_env_def demo_teardown_Some demo_history_def demo_push_def
      demo_latest_def split: list.splits)

lemma demo_deleting_uninstalls: "uninstall_answers demo_deleting demo_teardown_view"
  unfolding uninstall_answers_def does_def
  by (auto simp: demo_deleting_def demo_env_def demo_teardown_Some)

lemma demo_deleting_cleans: "cleanup_answers demo_deleting demo_teardown_view demo_dying False"
  unfolding cleanup_answers_def does_def
  by (auto simp: demo_deleting_def demo_env_def demo_teardown_Some demo_option_def demo_missing_def
      demo_list_def demo_apps_def others_alive_def demo_dying_def demo_app_def split: option.splits)

lemma demo_deleting_object: "dying_object_answers demo_deleting demo_teardown_view demo_req"
  unfolding dying_object_answers_def does_def
  by (auto simp: demo_deleting_def demo_env_def demo_teardown_Some demo_get_def demo_missing_def
      demo_store_def Let_def written_def app_key_def live_app_def split: option.splits)

lemma demo_releasing: "releasing_cluster demo_deleting demo_teardown_view demo_req demo_dying False"
  using demo_deleting_helm demo_deleting_uninstalls demo_deleting_cleans demo_deleting_object
  by (simp add: releasing_cluster_def)

lemma demo_deleting_laws: "finalizer_laws demo_deleting" "ignore_law demo_deleting"
  using demo_finalizer_laws [of "\<lambda>_ _. CurrentStatus"] demo_ignore_law [of "\<lambda>_ _. CurrentStatus"]
  by (simp_all add: demo_deleting_def finalizer_laws_def ignore_law_def)

theorem deletion_completes_witness:
  "reconcile_result demo_deleting demo_req (demo_state demo_dying 2 0) = (emptyResult, None) \<and>
   (\<exists>left. demo_teardown_view (world (passes 2 demo_deleting demo_req (demo_state demo_dying 2 0))) =
      Some ((left, None), False) \<and> released_from demo_dying left)"
proof -
  have left_over: "left_over False (Some (operator_namespace ''demo'')) = None"
    by (simp add: left_over_def operator_namespace_def go_lookup_def managedByAnnotation_def managedByValue_def)
  have start: "demo_teardown_view (world (demo_state demo_dying 2 0)) =
      Some ((Some demo_dying, Some (operator_namespace ''demo'')), True)"
    by (simp add: demo_teardown_Some demo_state_def demo_world_def app_key_def demo_req_def demo_dying_def
        demo_app_def upto.simps)
  show ?thesis
    using deletion_completes [OF demo_deleting_laws demo_releasing start, of 2] unfolding left_over
    by (simp add: demo_dying_def demo_app_def live_app_def)
qed

end
