(* ===== verification/TestUtils.thy ===== *)
theory TestUtils
  imports Trace
begin

text \<open>
  \<open>test/utils/utils.go\<close>: the helpers of the end-to-end tests. They run commands in sub-processes,
  look through their output and edit a file in place. The state is the process and what is behind
  it; the system calls and \<open>exec.Cmd\<close> are parameters, the text functions of \<open>strings\<close> and
  \<open>bufio\<close> are modelled. What is printed to the test log is left out.
\<close>

section \<open>Text functions\<close>

definition newline :: char where
  "newline = CHR 0x0A"

definition carriage_return :: char where
  "carriage_return = CHR 0x0D"

definition has_prefix :: "string \<Rightarrow> string \<Rightarrow> bool" where
  "has_prefix p s \<longleftrightarrow> take (length p) s = p"

definition TrimPrefix :: "string \<Rightarrow> string \<Rightarrow> string" where
  "TrimPrefix s p = (if has_prefix p s then drop (length p) s else s)"

text \<open>\<open>strings.Index\<close>: the first place where a text stands in another.\<close>

fun str_Index :: "string \<Rightarrow> string \<Rightarrow> nat option" where
  "str_Index [] t = (if t = [] then Some 0 else None)"
| "str_Index (c # cs) t = (if has_prefix t (c # cs) then Some 0 else map_option Suc (str_Index cs t))"

definition str_Contains :: "string \<Rightarrow> string \<Rightarrow> bool" where
  "str_Contains s t \<longleftrightarrow> str_Index s t \<noteq> None"

text \<open>\<open>strings.ReplaceAll\<close> for a text to replace that is not empty.\<close>

fun ReplaceAll :: "string \<Rightarrow> string \<Rightarrow> string \<Rightarrow> string" where
  "ReplaceAll [] old new = []"
| "ReplaceAll (c # cs) old new =
     (if has_prefix old (c # cs) then new @ ReplaceAll (drop (length old - 1) cs) old new
      else c # ReplaceAll cs old new)"

text \<open>
  \<open>bufio.Scanner\<close> with \<open>ScanLines\<close>, as the list of the texts it hands out: the lines without
  their ends, where an end is a newline with at most one carriage return before it. It stops for
  good at a line that does not fit its buffer of 64 KiB.
\<close>

definition drop_cr :: "string \<Rightarrow> string" where
  "drop_cr l = (if l \<noteq> '''' \<and> last l = carriage_return then butlast l else l)"

definition text_lines :: "string \<Rightarrow> string list" where
  "text_lines s = (let ls = split_on newline s in if last ls = '''' then butlast ls else ls)"

definition scan_lines :: "string \<Rightarrow> string list" where
  "scan_lines s = map drop_cr (takeWhile (\<lambda>l. length l < 65536) (text_lines s))"

section \<open>The outside\<close>

record Cmd =
  cmdArgs :: "string list"
  cmdDir :: string
  cmdEnv :: "string list"

record 'w tools =
  Getwd :: "'w \<Rightarrow> string \<times> go_error option"
  Environ :: "'w \<Rightarrow> string list"
  LookupEnv :: "string \<Rightarrow> 'w \<Rightarrow> string option"
  Chdir :: "string \<Rightarrow> 'w \<Rightarrow> go_error option \<times> 'w"
  CombinedOutput :: "Cmd \<Rightarrow> 'w \<Rightarrow> (string \<times> go_error option) \<times> 'w"
  ReadFile :: "string \<Rightarrow> 'w \<Rightarrow> (go_error + string) \<times> 'w"
  WriteFile :: "string \<Rightarrow> string \<Rightarrow> nat \<Rightarrow> 'w \<Rightarrow> go_error option \<times> 'w"

datatype tool_event =
    EvChdir string "go_error option"
  | EvExec Cmd "string \<times> go_error option"
  | EvReadFile string "go_error + string"
  | EvWriteFile string string nat "go_error option"

type_synonym ('w, 'a) tool = "('w, tool_event, 'a) act"

definition exec_Command :: "string \<Rightarrow> string list \<Rightarrow> Cmd" where
  "exec_Command name args = \<lparr>cmdArgs = name # args, cmdDir = '''', cmdEnv = []\<rparr>"

section \<open>Constants\<close>

definition certmanagerVersion :: string where
  "certmanagerVersion = ''v1.20.2''"

definition certmanager_url :: string where
  "certmanager_url = ''https://github.com/cert-manager/cert-manager/releases/download/'' @
     certmanagerVersion @ ''/cert-manager.yaml''"

definition defaultKindBinary :: string where
  "defaultKindBinary = ''kind''"

definition defaultKindCluster :: string where
  "defaultKindCluster = ''kind''"

section \<open>Running commands\<close>

definition GetProjectDir :: "'w tools \<Rightarrow> ('w, string \<times> go_error option) tool" where
  "GetProjectDir U = do {
     (wd, err) \<leftarrow> peek (Getwd U);
     case err of
       Some e \<Rightarrow> ret (wd, Some (Errorf ''failed to get current working directory: '' (Some e)))
     | None \<Rightarrow> ret (ReplaceAll wd ''/test/e2e'' '''', None)
   }"

definition Run :: "'w tools \<Rightarrow> Cmd \<Rightarrow> ('w, string \<times> go_error option) tool" where
  "Run U cmd0 = do {
     (dir, _) \<leftarrow> GetProjectDir U;
     let cmd1 = cmd0\<lparr>cmdDir := dir\<rparr>;
     _ \<leftarrow> call (Chdir U (cmdDir cmd1)) (EvChdir (cmdDir cmd1));
     environ \<leftarrow> peek (Environ U);
     let cmd = cmd1\<lparr>cmdEnv := environ @ [''GO111MODULE=on'']\<rparr>;
     let command = join_on CHR '' '' (cmdArgs cmd);
     (output, err) \<leftarrow> call (CombinedOutput U cmd) (EvExec cmd);
     case err of
       Some e \<Rightarrow> ret (output,
         Some (Errorf (fmt_q command @ '' failed with error '' @ fmt_q output @ '': '') (Some e)))
     | None \<Rightarrow> ret (output, None)
   }"

definition cert_manager_leases :: "string list" where
  "cert_manager_leases = [''cert-manager-cainjector-leader-election'', ''cert-manager-controller'']"

definition UninstallCertManager :: "'w tools \<Rightarrow> ('w, unit) tool" where
  "UninstallCertManager U = do {
     _ \<leftarrow> Run U (exec_Command ''kubectl'' [''delete'', ''-f'', certmanager_url]);
     for_each cert_manager_leases (\<lambda>lease. do {
       _ \<leftarrow> Run U (exec_Command ''kubectl'' [''delete'', ''lease'', lease,
              ''-n'', ''kube-system'', ''--ignore-not-found'', ''--force'', ''--grace-period=0'']);
       ret ()
     })
   }"

definition InstallCertManager :: "'w tools \<Rightarrow> ('w, go_error option) tool" where
  "InstallCertManager U = do {
     (_, applied) \<leftarrow> Run U (exec_Command ''kubectl'' [''apply'', ''-f'', certmanager_url]);
     case applied of
       Some err \<Rightarrow> ret (Some err)
     | None \<Rightarrow> do {
         (_, err) \<leftarrow> Run U (exec_Command ''kubectl'' [''wait'', ''deployment.apps/cert-manager-webhook'',
            ''--for'', ''condition=Available'', ''--namespace'', ''cert-manager'', ''--timeout'', ''5m'']);
         ret err
       }
   }"

definition GetNonEmptyLines :: "string \<Rightarrow> string list" where
  "GetNonEmptyLines output = filter (\<lambda>element. element \<noteq> '''') (split_on newline output)"

definition certManagerCRDs :: "string list" where
  "certManagerCRDs =
     [''certificates.cert-manager.io'', ''issuers.cert-manager.io'', ''clusterissuers.cert-manager.io'',
      ''certificaterequests.cert-manager.io'', ''orders.acme.cert-manager.io'',
      ''challenges.acme.cert-manager.io'']"

text \<open>The two nested loops, which return at the first line that contains the first CRD it can.\<close>

definition any_crd :: "string list \<Rightarrow> bool" where
  "any_crd crdList \<longleftrightarrow> list_ex (\<lambda>crd. list_ex (\<lambda>line. str_Contains line crd) crdList) certManagerCRDs"

definition IsCertManagerCRDsInstalled :: "'w tools \<Rightarrow> ('w, bool) tool" where
  "IsCertManagerCRDsInstalled U = do {
     (output, err) \<leftarrow> Run U (exec_Command ''kubectl'' [''get'', ''crds'']);
     case err of
       Some _ \<Rightarrow> ret False
     | None \<Rightarrow> ret (any_crd (GetNonEmptyLines output))
   }"

definition LoadImageToKindClusterWithName :: "'w tools \<Rightarrow> string \<Rightarrow> ('w, go_error option) tool" where
  "LoadImageToKindClusterWithName U name = do {
     v \<leftarrow> peek (LookupEnv U ''KIND_CLUSTER'');
     let cluster = (case v of None \<Rightarrow> defaultKindCluster | Some c \<Rightarrow> c);
     let kindOptions = [''load'', ''docker-image'', name, ''--name'', cluster];
     b \<leftarrow> peek (LookupEnv U ''KIND'');
     let kindBinary = (case b of None \<Rightarrow> defaultKindBinary | Some k \<Rightarrow> k);
     (_, err) \<leftarrow> Run U (exec_Command kindBinary kindOptions);
     ret err
   }"

section \<open>Editing a file\<close>

text \<open>The loop over the scanner, on the text that is still to come and the buffer so far.\<close>

fun uncomment_loop :: "string \<Rightarrow> string list \<Rightarrow> string \<Rightarrow> string" where
  "uncomment_loop pre [] out = out"
| "uncomment_loop pre (t # ts) out =
     (let out1 = out @ TrimPrefix t pre
      in case ts of [] \<Rightarrow> out1 | _ # _ \<Rightarrow> uncomment_loop pre ts (out1 @ [newline]))"

text \<open>Writing to a \<open>bytes.Buffer\<close> never fails, so the branches for that are not there.\<close>

definition UncommentCode :: "'w tools \<Rightarrow> string \<Rightarrow> string \<Rightarrow> string \<Rightarrow> ('w, go_error option) tool" where
  "UncommentCode U filename target pre = do {
     content \<leftarrow> call (ReadFile U filename) (EvReadFile filename);
     case content of
       Inl err \<Rightarrow> ret (Some (Errorf (''failed to read file '' @ fmt_q filename @ '': '') (Some err)))
     | Inr strContent \<Rightarrow>
         (case str_Index strContent target of
            None \<Rightarrow> ret (Some (Errorf (''unable to find the code '' @ fmt_q target @ '' to be uncommented'') None))
          | Some idx \<Rightarrow>
              (let out = take idx strContent in
               case scan_lines target of
                 [] \<Rightarrow> ret None
               | tokens \<Rightarrow> do {
                   let text = uncomment_loop pre tokens out @ drop (idx + length target) strContent;
                   written \<leftarrow> call (WriteFile U filename text 420) (EvWriteFile filename text 420);
                   case written of
                     Some err \<Rightarrow> ret (Some (Errorf (''failed to write file '' @ fmt_q filename @ '': '') (Some err)))
                   | None \<Rightarrow> ret None
                 }))
   }"

end
