(* ===== verification/TestUtilsFacts.thy ===== *)
theory TestUtilsFacts
  imports TestUtils "HOL-Library.Sublist"
begin

text \<open>
  What the helpers of the end-to-end tests promise: uncommenting undoes commenting, the search
  for the CRDs of cert-manager does not depend on how the output is cut into lines, and two texts
  on which \<open>UncommentCode\<close> loses part of its target.
\<close>

section \<open>Searching\<close>

lemma has_prefix_iff: "has_prefix p s \<longleftrightarrow> prefix p s"
  unfolding has_prefix_def by (metis append_eq_conv_conj append_take_drop_id prefix_def)

lemma TrimPrefix_own [simp]: "TrimPrefix (p @ s) p = s"
  by (simp add: TrimPrefix_def has_prefix_def)

lemma str_Index_append: "str_Index s t = Some i \<Longrightarrow> \<exists>b. s = take i s @ t @ b"
proof (induction s t arbitrary: i rule: str_Index.induct)
  case (2 c cs t)
  then show ?case by (auto simp: has_prefix_iff prefix_def split: if_splits)
qed (auto split: if_splits)

lemma str_Contains_iff: "str_Contains s t \<longleftrightarrow> sublist t s"
  unfolding str_Contains_def
proof (induction s t rule: str_Index.induct)
  case (2 c cs t)
  then show ?case by (simp add: has_prefix_iff sublist_Cons_right)
qed simp

lemma split_on_hd: "\<exists>ps. split_on d s = takeWhile (\<lambda>c. c \<noteq> d) s # ps"
  by (induction s) (auto split: list.split)

lemma prefix_takeWhile: "d \<notin> set t \<Longrightarrow> prefix t (takeWhile (\<lambda>c. c \<noteq> d) s) \<longleftrightarrow> prefix t s"
proof (induction s arbitrary: t)
  case (Cons c s)
  then show ?case by (cases t) auto
qed simp

lemma sublist_in_part:
  assumes "d \<notin> set t" "t \<noteq> []"
  shows "sublist t s \<longleftrightarrow> (\<exists>l\<in>set (split_on d s). sublist t l)"
proof (induction s)
  case (Cons c s)
  obtain ps where ps: "split_on d s = takeWhile (\<lambda>c. c \<noteq> d) s # ps" using split_on_hd by blast
  have "prefix t (c # s) \<longleftrightarrow> prefix t (takeWhile (\<lambda>c. c \<noteq> d) (c # s))"
    by (simp only: prefix_takeWhile [OF assms(1)])
  then show ?case
    using Cons.IH assms ps by (cases t) (auto simp: sublist_Cons_right)
qed (use assms in simp)

lemma crds_in_output:
  "any_crd (GetNonEmptyLines body) \<longleftrightarrow> (\<exists>crd\<in>set certManagerCRDs. str_Contains body crd)"
proof -
  have part: "(\<exists>line\<in>set (GetNonEmptyLines body). str_Contains line crd) \<longleftrightarrow> str_Contains body crd"
    if "newline \<notin> set crd" "crd \<noteq> []" for crd
    using that sublist_in_part [OF that, of body] unfolding str_Contains_iff GetNonEmptyLines_def
    by auto
  have "\<forall>crd\<in>set certManagerCRDs. newline \<notin> set crd \<and> crd \<noteq> []"
    by (simp add: certManagerCRDs_def newline_def)
  then show ?thesis
    unfolding any_crd_def list_ex_iff using part by blast
qed

section \<open>Uncommenting\<close>

lemma uncomment_loop_join:
  "uncomment_loop pre ts out = out @ join_on newline (map (\<lambda>t. TrimPrefix t pre) ts)"
proof (induction ts arbitrary: out)
  case (Cons t ts)
  show ?case
  proof (cases ts)
    case (Cons u us)
    have "uncomment_loop pre (t # ts) out = uncomment_loop pre ts (out @ TrimPrefix t pre @ [newline])"
      unfolding Cons uncomment_loop.simps(2) [of pre t "u # us"] Let_def list.case append_assoc ..
    then show ?thesis
      using Cons.IH [of "out @ TrimPrefix t pre @ [newline]"] by (simp add: Cons del: uncomment_loop.simps)
  qed simp
qed simp

text \<open>Lines the scanner hands out as they are.\<close>

definition plain_line :: "string \<Rightarrow> bool" where
  "plain_line l \<longleftrightarrow> newline \<notin> set l \<and> length l < 65536 \<and> (l = '''' \<or> last l \<noteq> carriage_return)"

lemma plain_lines_kept:
  "\<forall>l\<in>set ls. plain_line l \<Longrightarrow> map drop_cr (takeWhile (\<lambda>l. length l < 65536) ls) = ls"
  by (induction ls) (auto simp: plain_line_def drop_cr_def)

lemma scan_joined:
  assumes "ls \<noteq> []" "\<forall>l\<in>set ls. plain_line l" "last ls \<noteq> ''''"
  shows "scan_lines (join_on newline ls) = ls"
proof -
  have "split_on newline (join_on newline ls) = ls"
    using assms by (simp add: split_join plain_line_def)
  then show ?thesis
    using assms(3) plain_lines_kept [OF assms(2)] by (simp add: scan_lines_def text_lines_def)
qed

text \<open>Every branch of \<open>UncommentCode\<close>, by what it reads.\<close>

lemma UncommentCode_run:
  assumes "run_state (UncommentCode U f target pre) s = (r, s')" "fst (ReadFile U f (world s)) = answer"
  shows "case answer of
      Inl err \<Rightarrow> log s' = log s @ [EvReadFile f answer] \<and>
        r = Some (Errorf (''failed to read file '' @ fmt_q f @ '': '') (Some err))
    | Inr body \<Rightarrow>
        (case str_Index body target of
           None \<Rightarrow> log s' = log s @ [EvReadFile f answer] \<and> r \<noteq> None
         | Some i \<Rightarrow>
             if scan_lines target = [] then log s' = log s @ [EvReadFile f answer] \<and> r = None
             else \<exists>w. log s' = log s @ [EvReadFile f answer, EvWriteFile f (take i body @
                 join_on newline (map (\<lambda>t. TrimPrefix t pre) (scan_lines target)) @
                 drop (i + length target) body) 420 w] \<and> (r = None \<longleftrightarrow> w = None))"
proof -
  obtain w' where read: "ReadFile U f (world s) = (answer, w')" using assms(2) by (metis prod.collapse)
  show ?thesis
  proof (cases answer)
    case (Inr body)
    show ?thesis
    proof (cases "str_Index body target")
      case (Some i)
      show ?thesis
        using assms(1) read
        by (cases "scan_lines target")
          (auto simp: UncommentCode_def Inr Some Let_def uncomment_loop_join simp del: uncomment_loop.simps
            split: option.splits prod.splits)
    qed (use assms(1) read Inr in \<open>auto simp: UncommentCode_def\<close>)
  qed (use assms(1) read in \<open>auto simp: UncommentCode_def\<close>)
qed

text \<open>C40. Uncommenting undoes commenting. When a block of lines was commented by putting the prefix in
  front of each line, and the commented block is found first where it was made, \<open>UncommentCode\<close>
  on that block and that prefix reads the file once and writes it once, with the block as it was
  and everything around it unchanged, and returns nil exactly when the write succeeded. The lines
  are ones the scanner can hand out: shorter than 64 KiB, without line ends of their own, the last
  one not empty.\<close>

theorem uncommenting_undoes_commenting:
  assumes "fst (ReadFile U f (world s)) = Inr (a @ target @ b)"
    "target = join_on newline (map (\<lambda>l. pre @ l) ls)" "str_Index (a @ target @ b) target = Some (length a)"
    "ls \<noteq> []" "\<forall>l\<in>set ls. plain_line (pre @ l)" "pre @ last ls \<noteq> ''''"
    "run_state (UncommentCode U f target pre) s = (r, s')"
  shows "\<exists>w. log s' = log s @ [EvReadFile f (Inr (a @ target @ b)),
      EvWriteFile f (a @ join_on newline ls @ b) 420 w] \<and> (r = None \<longleftrightarrow> w = None)"
proof -
  have scanned: "scan_lines target = map (\<lambda>l. pre @ l) ls"
    unfolding assms(2) by (rule scan_joined) (use assms(4-6) in \<open>auto simp: last_map\<close>)
  have trimmed: "map (\<lambda>t. TrimPrefix t pre) (map (\<lambda>l. pre @ l) ls) = ls"
    by (simp add: map_idI)
  show ?thesis
    using UncommentCode_run [OF assms(7,1)] assms(3,4) scanned trimmed by (simp add: comp_def)
qed

section \<open>What the scanner drops\<close>

text \<open>A newline at the end of the target is not written back: the next line moves up.\<close>

lemma trailing_newline_is_lost:
  assumes "ls \<noteq> []" "\<forall>l\<in>set ls. plain_line l" "last ls \<noteq> ''''"
  shows "scan_lines (join_on newline ls @ [newline]) = ls"
proof -
  have "split_on newline (join_on newline ls @ [newline]) = ls @ ['''']"
    using assms split_on_below [of newline "''''" "join_on newline ls"]
    by (simp add: split_join plain_line_def)
  then show ?thesis
    using plain_lines_kept [OF assms(2)] by (simp add: scan_lines_def text_lines_def)
qed

text \<open>A long line ends the scan, and everything of the target from it on is dropped.\<close>

lemma long_line_ends_the_scan:
  assumes "plain_line l" "length long \<ge> 65536" "newline \<notin> set long"
  shows "scan_lines (l @ newline # long @ rest) = [l]"
proof -
  obtain p ps where ps: "split_on newline (long @ rest) = (long @ p) # ps"
    using split_on_hd [of newline "long @ rest"] assms(3) takeWhile_append2 [of long "\<lambda>c. c \<noteq> newline" rest]
    by metis
  have "split_on newline (l @ newline # long @ rest) = l # (long @ p) # ps"
    using assms(1) ps by (simp add: split_on_Cons plain_line_def)
  moreover have "long @ p \<noteq> ''''" using assms(2) by auto
  ultimately show ?thesis
    using plain_lines_kept [of "[l]"] assms(1,2)
    by (auto simp: scan_lines_def text_lines_def Let_def plain_line_def)
qed

text \<open>A file system of one file, for concrete runs.\<close>

definition demo_tools :: "string tools" where
  "demo_tools =
     \<lparr>Getwd = (\<lambda>w. (''/src/test/e2e'', None)), Environ = (\<lambda>w. []), LookupEnv = (\<lambda>k w. None),
      Chdir = (\<lambda>d w. (None, w)), CombinedOutput = (\<lambda>c w. (('''', None), w)),
      ReadFile = (\<lambda>f w. (Inr w, w)), WriteFile = (\<lambda>f body perm w. (None, body))\<rparr>"

definition demo_file :: "string \<Rightarrow> (string, tool_event) st" where
  "demo_file body = \<lparr>world = body, log = []\<rparr>"

definition demo_edit :: "string \<Rightarrow> string \<Rightarrow> string" where
  "demo_edit body target = world (snd (run_state (UncommentCode demo_tools ''f'' target ''#'') (demo_file body)))"

text \<open>The two lines become one.\<close>

lemma uncommenting_joins_lines:
  "demo_edit (''#a'' @ [newline] @ ''b'') (''#a'' @ [newline]) = ''ab''"
  by (simp add: demo_edit_def demo_file_def demo_tools_def UncommentCode_def scan_lines_def text_lines_def
      drop_cr_def has_prefix_def TrimPrefix_def newline_def carriage_return_def Let_def)

theorem uncommenting_undoes_commenting_witness:
  "\<exists>w. log (snd (run_state (UncommentCode demo_tools ''f'' (''#a'' @ newline # ''#b'') ''#'')
        (demo_file (''x'' @ (''#a'' @ newline # ''#b'') @ ''y'')))) =
      [EvReadFile ''f'' (Inr (''x'' @ (''#a'' @ newline # ''#b'') @ ''y'')),
       EvWriteFile ''f'' (''x'' @ (''a'' @ newline # ''b'') @ ''y'') 420 w]"
proof -
  obtain r s' where run: "run_state (UncommentCode demo_tools ''f'' (''#a'' @ newline # ''#b'') ''#'')
      (demo_file (''x'' @ (''#a'' @ newline # ''#b'') @ ''y'')) = (r, s')"
    by fastforce
  have found: "str_Index (''x'' @ (''#a'' @ newline # ''#b'') @ ''y'') (''#a'' @ newline # ''#b'') = Some (length ''x'')"
    by (simp add: has_prefix_def newline_def)
  have read: "fst (ReadFile demo_tools ''f'' (world (demo_file body))) = Inr body" for body
    by (simp add: demo_tools_def demo_file_def)
  have block: "''#a'' @ newline # ''#b'' = join_on newline (map (\<lambda>l. ''#'' @ l) [''a'', ''b''])"
    by simp
  have plain: "\<forall>l\<in>set [''a'', ''b'']. plain_line (''#'' @ l)"
    by (simp add: plain_line_def newline_def carriage_return_def)
  have "\<exists>w. log s' = log (demo_file (''x'' @ (''#a'' @ newline # ''#b'') @ ''y'')) @
      [EvReadFile ''f'' (Inr (''x'' @ (''#a'' @ newline # ''#b'') @ ''y'')),
       EvWriteFile ''f'' (''x'' @ join_on newline [''a'', ''b''] @ ''y'') 420 w] \<and> (r = None \<longleftrightarrow> w = None)"
    by (rule uncommenting_undoes_commenting [OF read block found _ plain _ run]) simp_all
  then show ?thesis unfolding run snd_conv by (auto simp: demo_file_def)
qed

end
