(* ===== verification/Spec2Isabelle.thy ===== *)
theory Spec2Isabelle
  imports Safety Runs Schema RolloutFacts AdmissionFacts Observations MetricsFacts Registration
    StartupFacts GetterProgress DeepCopyFacts Teardown TestUtilsFacts
begin

text \<open>
  HelmWarden is a Kubernetes operator. An \<open>Application\<close> object names a Helm chart, a version, a
  target namespace and, optionally, a Secret with values; the operator installs or upgrades the
  release, watches the workloads of its manifest, rolls a failed rollout back once, and removes
  everything when the object is deleted. This library models its Go code and proves what makes
  it correct.

  \<^bold>\<open>The parts and how they work together.\<close> \<open>cmd/main.go\<close> parses the flags, builds a
  controller-runtime manager and registers with it the reconciler
  (\<open>internal/controller\<close>), the admission webhook (\<open>internal/webhook\<close>) and two probes. The manager
  calls \<open>Reconcile\<close> with the key of an Application whenever it or a Secret it uses has changed.
  The reconciler reads the object and takes one of five ways: not found, deletion, registering
  the finalizer, applying the release, checking its health. Helm is driven through
  \<open>internal/helm\<close>, whose manager prepares directories and whose getter gives Helm the cluster.
  The status of the object is the reconciler's only memory.

  \<^bold>\<open>How code is modelled.\<close> A computation is a state transformer over an opaque world (theory
  Trace), and each call that leaves the program is logged with its arguments and its answer.
  The program is quantified over an environment (the record \<open>env\<close> of theory Environment) that
  answers these calls, and may change anything at each of them: nothing is assumed of it but
  named laws, each the documented behaviour of a library, stated where a theorem uses it
  (\<open>finalizer_laws\<close>, \<open>condition_laws\<close>, \<open>condition_list_law\<close>, \<open>ignore_law\<close>, \<open>range_law\<close>, \<open>list_law\<close>,
  \<open>status_echo_law\<close>, \<open>copies_law\<close>, \<open>prometheus_laws\<close>, \<open>scheme_laws\<close>); convergence and deletion also
  assume a cluster in which the calls succeed (\<open>healthy_cluster\<close>, \<open>releasing_cluster\<close>). Theory
  Demo has one concrete environment that obeys them, on which the witnesses evaluate the model. A Go error is a value; an early return
  is a branch. A duration is a 64-bit word, \<open>int32\<close> a 32-bit word; revisions and generations,
  which the code only compares and prints, are integers. Every loop of the program runs over a
  finite list and is a structural recursion, so no fuel is used anywhere. Log lines are left out.

  \<^bold>\<open>Theories and code.\<close>
  \<^item> Prelude: Go errors, \<open>%q\<close> and \<open>%d\<close>, hexadecimal text, durations. Trace: effects and the
    calculus \<open>emits\<close>, with which facts about every run of a computation are composed.
  \<^item> ApiTypes: \<open>api/v1alpha1/application_types.go\<close>. Schema: the schema of the CRD
    for a status, which every status the reconciler writes fits but for messages that are too long.
  \<^item> HelmRelease: \<open>internal/helm/release.go\<close> (\<open>InstallOrUpgrade\<close>, \<open>GetRelease\<close>, \<open>Rollback\<close>, \<open>Uninstall\<close>).
    HelmContract: what they promise the reconciler, as the locale \<open>release_backend\<close>, interpreted
    on them; the reconciler's proofs use only that.
  \<^item> Health: \<open>internal/controller/health.go\<close>. Controller: \<open>application_controller.go\<close>, with
    \<open>refreshActiveGauge\<close> of \<open>metrics.go\<close>. HealthTraces and ControllerTraces: the trace contract of
    each operation. HealthSpec: the aggregation of workloads as the maximum of a linear order.
    ReconcileFacts: one pass as an object, and the case distinctions on it.
  \<^item> Lifecycle: the abstract machine of an Application's status, a labelled step relation, with
    the locales \<open>invariant_machine\<close> and \<open>one_shot\<close>. Refinement: the reconciler's status writes are
    steps of it. Runs: sequences of passes, with stale reads, refused writes and anything else
    happening in between, are paths of it.
  \<^item> Convergence and Teardown: where the passes over a live and over a dying Application lead in a
    cluster in which nothing fails, with a calculus \<open>ends\<close> on what a computation leaves behind.
  \<^item> Safety, ApplyFacts, HealthFacts, SteadyFacts, RolloutFacts: what a pass does and does not do.
    Cache and IndexFacts: the field indexes, the guard on shared namespaces, the Secret watch,
    the gauge. Metrics and MetricsFacts: the collectors of \<open>metrics.go\<close> and their samples.
  \<^item> Webhook and AdmissionFacts: the validator, and what it means for the reconciler behind it.
  \<^item> HelmDirs and DirFacts: \<open>NewManager\<close> of \<open>internal/helm/manager.go\<close>, with the parts of \<open>os\<close> and
    \<open>path/filepath\<close> it uses.
  \<^item> RestClientGetter, GetterFacts, GetterProgress: \<open>internal/helm/restclientgetter.go\<close>, once as
    single calls and once as goroutines that interleave on its mutex (the step relation
    \<open>mapper_step\<close>); they agree, share one mapper and all return within five steps each (by the
    locale \<open>shrinking_machine\<close>, interpreted on the steps of the goroutines inside).
  \<^item> DeepCopy and DeepCopyFacts: \<open>zz_generated.deepcopy.go\<close> over an explicit store of cells, those
    the metadata of Kubernetes refers to included (their copies are parameters with laws).
  \<^item> Startup and StartupFacts: \<open>cmd/main.go\<close> and \<open>SetupWithManager\<close>. Registration: package
    initialisation, \<open>groupversion_info.go\<close> and the \<open>init\<close> functions.
  \<^item> TestUtils and TestUtilsFacts: \<open>test/utils/utils.go\<close>, the helpers of the end-to-end tests.
  \<^item> Observations: concrete runs on which the code does not do what its comments say.

  \<^bold>\<open>What is shown.\<close> Safety: at most one Helm action a pass, none before the finalizer is stored;
  a rollback only of a recorded revision above 1 and once for each applied release, after which
  nothing is reported as Deployed until a release is applied again and the failed revision stays
  on record; the finalizer goes
  only after a successful removal; a namespace is deleted only if the operator made it and nobody
  else uses it. Progress: in a healthy cluster three passes bring an Application to Deployed
  from every state but two, the rest after a rollback and the loss of a release that was applied
  (which is not installed again); one pass takes a deleted one down, a failed
  rollout is rolled back, new values are applied, the calls of the getter return. Refinement of the lifecycle and of sequential calls. Invariants and the type
  of the stored status. Exactness of the health aggregation, the metrics, the indexes, the
  command line, the errors of the webhook. Copies that share nothing.

  \<^bold>\<open>Times.\<close> The API server stores times as text with whole seconds, so a status comes back with
  its times cut. Statements over several passes compare statuses up to that (\<open>recorded\<close>); the
  progress deadline is stated for the time that was read.

  \<^bold>\<open>Not modelled.\<close> The Kubernetes client and cache, the Helm SDK, kstatus, the YAML and semver
  parsers, Prometheus, controller-runtime's queue: they are not code of this repository and are
  parameters. Contexts and their cancellation, since the code only passes them on. Logging. The
  tests, the Kustomize and CI files.
  \<open>%q\<close> is exact for bytes below 128 and for printable UTF-8.
\<close>

end
